(* ===== verification/Prelude.thy ===== *)
theory Prelude
  imports Main "HOL-Library.Word" "HOL-Library.AList"
begin

text \<open>
  Shared vocabulary of the development: how a Go call ends (\<open>go_error\<close>, \<open>res\<close>), byte slices
  of fixed-size arrays (\<open>bslice\<close>, \<open>bsplice\<close>), the little-endian codec of
  \<^verbatim>\<open>encoding/binary\<close>, and the generic lemmas on lists, association lists and results that the
  component theories use.  \<open>bytes_simps\<close> collects the facts on slices and the codec,
  \<open>res_simps\<close> the facts on sequencing fallible calls.
\<close>

named_theorems bytes_simps \<open>slices of byte arrays and the little-endian codec\<close>
named_theorems res_simps \<open>sequencing of calls that return an error or a value\<close>

section \<open>How a Go call ends\<close>

text \<open>
  A Go function returns a value and an \<^verbatim>\<open>error\<close>.  The errors of the program are the sentinels of
  \<^verbatim>\<open>errors.New\<close> (compared by identity), messages of \<^verbatim>\<open>fmt.Errorf\<close> with their arguments, and
  messages that wrap another error with the verb \<^verbatim>\<open>%w\<close>.  Three more constructors are ways a
  call ends without returning an error value: a run-time panic, a second \<^verbatim>\<open>Lock\<close> of a mutex that
  the same goroutine holds (the call never returns), and a loop that never ends.
\<close>

datatype go_arg = ArgStr string | ArgInt int

datatype sentinel =
  ErrWriteConflict | ErrSerializationConflict | ErrAlreadyInTxn | ErrNoTxn

datatype go_error =
  Sentinel sentinel
| Errorf string "go_arg list"
| Wrapf string "go_arg list" go_error
| Panic string
| Deadlock
| Diverges

type_synonym 'a res = "go_error + 'a"

text \<open>\<^verbatim>\<open>errors.Is\<close> follows the chain of wrapped errors.\<close>

fun errors_Is :: "go_error \<Rightarrow> sentinel \<Rightarrow> bool" where
  "errors_Is (Sentinel s) t = (s = t)"
| "errors_Is (Wrapf _ _ e) t = errors_Is e t"
| "errors_Is _ _ = False"

fun is_ok :: "'a res \<Rightarrow> bool" where
  "is_ok (Inr _) = True"
| "is_ok (Inl _) = False"

text \<open>A call that ends this way does not return to its caller.\<close>

fun abnormal :: "go_error \<Rightarrow> bool" where
  "abnormal (Panic _) = True"
| "abnormal Deadlock = True"
| "abnormal Diverges = True"
| "abnormal _ = False"

text \<open>\<^verbatim>\<open>fmt.Errorf\<close> with \<^verbatim>\<open>%w\<close> around the error of a call, and the two shapes of
  \<^verbatim>\<open>x, err := f(); if err != nil\<close>: passing the error on, and wrapping it first.  A call that does
  not return is not wrapped.\<close>

definition wrapf :: "string \<Rightarrow> go_arg list \<Rightarrow> go_error \<Rightarrow> go_error" where
  "wrapf fmt args e = (if abnormal e then e else Wrapf fmt args e)"

fun wrapped :: "string \<Rightarrow> go_arg list \<Rightarrow> 's \<times> 'a res \<Rightarrow> 's \<times> 'a res" where
  "wrapped fmt args (s, Inl e) = (s, Inl (wrapf fmt args e))"
| "wrapped fmt args (s, Inr x) = (s, Inr x)"

fun andThen :: "'s \<times> 'a res \<Rightarrow> ('a \<Rightarrow> 's \<Rightarrow> 's \<times> 'b res) \<Rightarrow> 's \<times> 'b res" where
  "andThen (s, Inl e) f = (s, Inl e)"
| "andThen (s, Inr x) f = f x s"

text \<open>Evaluation of a list of calls, left to right, that stops at the first error.\<close>

fun map_res :: "('a \<Rightarrow> 'b res) \<Rightarrow> 'a list \<Rightarrow> 'b list res" where
  "map_res f [] = Inr []"
| "map_res f (x # xs) =
     (case f x of Inl e \<Rightarrow> Inl e
      | Inr y \<Rightarrow> (case map_res f xs of Inl e \<Rightarrow> Inl e | Inr ys \<Rightarrow> Inr (y # ys)))"

section \<open>Bytes\<close>

type_synonym byte = "8 word"

text \<open>\<open>bslice a n d\<close> reads \<^verbatim>\<open>d[a : a+n]\<close>; \<open>bsplice a bs d\<close> is \<open>d\<close> after
  \<^verbatim>\<open>copy(d[a : a+len(bs)], bs)\<close>.  Both are meant for ranges inside \<open>d\<close>: the callers of the
  model check the range where Go would panic.\<close>

definition bslice :: "nat \<Rightarrow> nat \<Rightarrow> 'a list \<Rightarrow> 'a list" where
  "bslice a n d = take n (drop a d)"

definition bsplice :: "nat \<Rightarrow> 'a list \<Rightarrow> 'a list \<Rightarrow> 'a list" where
  "bsplice a bs d = take a d @ bs @ drop (a + length bs) d"

text \<open>\<^verbatim>\<open>binary.LittleEndian\<close>: \<open>putUint n x\<close> is \<^verbatim>\<open>PutUint(8n)\<close> of \<open>x\<close> converted to the
  unsigned type of that width (the conversion keeps the low \<open>n\<close> bytes), \<open>getUint\<close> reads.\<close>

primrec putUint :: "nat \<Rightarrow> nat \<Rightarrow> byte list" where
  "putUint 0 x = []"
| "putUint (Suc n) x = word_of_nat (x mod 256) # putUint n (x div 256)"

primrec getUint :: "byte list \<Rightarrow> nat" where
  "getUint [] = 0"
| "getUint (b # bs) = unat b + 256 * getUint bs"

text \<open>\<^verbatim>\<open>[]byte(s)\<close> and \<^verbatim>\<open>string(bs)\<close>: a Go string is a sequence of bytes, here a list of
  characters read as bytes.\<close>

definition byte_of_char :: "char \<Rightarrow> byte" where
  "byte_of_char c = word_of_nat (of_char c)"

definition char_of_byte :: "byte \<Rightarrow> char" where
  "char_of_byte b = char_of (unat b)"

section \<open>Lemmas on results\<close>

lemma is_ok_iff [res_simps]: "is_ok r \<longleftrightarrow> (\<exists>x. r = Inr x)"
  by (cases r) auto

lemma map_res_Inr_iff [res_simps]:
  "map_res f xs = Inr ys \<longleftrightarrow> list_all2 (\<lambda>x y. f x = Inr y) xs ys"
proof (induction xs arbitrary: ys)
  case Nil
  then show ?case by auto
next
  case (Cons x xs)
  show ?case
  proof (cases "f x")
    case (Inr y)
    show ?thesis
    proof (cases "map_res f xs")
      case (Inr zs)
      with \<open>f x = Inr y\<close> Cons.IH [of zs] Cons.IH show ?thesis
        by (auto simp: list_all2_Cons1)
    qed (use \<open>f x = Inr y\<close> Cons.IH in \<open>auto simp: list_all2_Cons1\<close>)
  qed (auto simp: list_all2_Cons1)
qed

lemma map_res_pure [simp]: "map_res (\<lambda>x. Inr (g x)) xs = Inr (map g xs)"
  by (induction xs) auto

section \<open>Lemmas on slices\<close>

lemma length_bslice [bytes_simps]: "a + n \<le> length d \<Longrightarrow> length (bslice a n d) = n"
  by (simp add: bslice_def)

lemma length_bslice_le: "length (bslice a n d) \<le> n"
  by (simp add: bslice_def)

lemma bslice_empty [simp]: "bslice a 0 d = []"
  by (simp add: bslice_def)

lemma nth_bslice [bytes_simps]:
  "i < n \<Longrightarrow> a + n \<le> length d \<Longrightarrow> bslice a n d ! i = d ! (a + i)"
  by (simp add: bslice_def)

lemma bslice_bslice [bytes_simps]: "b + m \<le> n \<Longrightarrow> bslice b m (bslice a n d) = bslice (a + b) m d"
  by (simp add: bslice_def take_drop drop_drop add.commute add.left_commute min_def)

lemma length_bsplice [bytes_simps]:
  "a + length bs \<le> length d \<Longrightarrow> length (bsplice a bs d) = length d"
  by (simp add: bsplice_def)

lemma nth_bsplice [bytes_simps]:
  assumes "a + length bs \<le> length d" and "i < length d"
  shows "bsplice a bs d ! i = (if a \<le> i \<and> i < a + length bs then bs ! (i - a) else d ! i)"
  using assms by (auto simp: bsplice_def nth_append)

lemma bslice_bsplice_same [bytes_simps]:
  "a \<le> length d \<Longrightarrow> n = length bs \<Longrightarrow> bslice a n (bsplice a bs d) = bs"
  by (simp add: bslice_def bsplice_def)

lemma bslice_bsplice_before:
  "b + n \<le> a \<Longrightarrow> a \<le> length d \<Longrightarrow> bslice b n (bsplice a bs d) = bslice b n d"
  by (auto simp: bslice_def bsplice_def drop_take min_def)

lemma bslice_bsplice_after:
  "a + length bs \<le> b \<Longrightarrow> a + length bs \<le> length d \<Longrightarrow> bslice b n (bsplice a bs d) = bslice b n d"
  by (simp add: bslice_def bsplice_def)

lemma bslice_bsplice_disjoint [bytes_simps]:
  assumes "b + n \<le> a \<or> a + length bs \<le> b" and "a + length bs \<le> length d"
  shows "bslice b n (bsplice a bs d) = bslice b n d"
  using assms bslice_bsplice_before bslice_bsplice_after by (metis add_leD1)

lemma bsplice_Nil [simp]: "bsplice a [] d = d"
  by (simp add: bsplice_def)

lemma bsplice_all [simp]: "length bs = length d \<Longrightarrow> bsplice 0 bs d = bs"
  by (simp add: bsplice_def)

lemma bslice_bsplice_inside:
  "b + n \<le> length bs \<Longrightarrow> a \<le> length d \<Longrightarrow> bslice (a + b) n (bsplice a bs d) = bslice b n bs"
  by (simp add: bslice_def bsplice_def)

lemma bslice_append_left: "b + n \<le> length xs \<Longrightarrow> bslice b n (xs @ ys) = bslice b n xs"
  by (simp add: bslice_def)

lemma bslice_append_right: "b = length xs + c \<Longrightarrow> bslice b n (xs @ ys) = bslice c n ys"
  by (simp add: bslice_def)

lemma bslice_full [simp]: "n = length xs \<Longrightarrow> bslice 0 n xs = xs"
  by (simp add: bslice_def)

section \<open>Lemmas on the codec\<close>

lemma length_putUint [simp]: "length (putUint n x) = n"
  by (induction n arbitrary: x) auto

lemma getUint_putUint [simp]: "getUint (putUint n x) = x mod 256 ^ n"
proof (induction n arbitrary: x)
  case 0
  then show ?case by simp
next
  case (Suc n)
  have "unat (word_of_nat (x mod 256) :: byte) = x mod 256"
    by (simp add: unat_of_nat)
  with Suc show ?case by (simp add: mod_mult2_eq)
qed

lemma getUint_less: "getUint bs < 256 ^ length bs"
proof (induction bs)
  case Nil
  then show ?case by simp
next
  case (Cons b bs)
  have "unat b < 256" using unsigned_less [of b, where 'a = nat] by simp
  with Cons show ?case by simp
qed

lemma putUint_getUint [simp]: "length bs = n \<Longrightarrow> putUint n (getUint bs) = bs"
proof (induction bs arbitrary: n)
  case Nil
  then show ?case by simp
next
  case (Cons b bs)
  have "unat b < 256" using unsigned_less [of b, where 'a = nat] by simp
  then have "(unat b + 256 * getUint bs) mod 256 = unat b"
    and "(unat b + 256 * getUint bs) div 256 = getUint bs" by simp_all
  with Cons show ?case by auto
qed

lemma getUint_u64: "length bs = 8 \<Longrightarrow> getUint bs < 2 ^ 64"
  using getUint_less [of bs] by simp

lemma u64_roundtrip [simp]: "(word_of_nat (unat w mod 18446744073709551616) :: 64 word) = w"
proof -
  have "unat w < 18446744073709551616" using unsigned_less [of w, where 'a = nat] by simp
  then show ?thesis by simp
qed

lemma char_byte_roundtrip [simp]: "char_of_byte (byte_of_char c) = c"
proof -
  have "of_char c < (256 :: nat)" by simp
  then have "unat (word_of_nat (of_char c) :: byte) = of_char c"
    by (simp add: unat_of_nat)
  then show ?thesis by (simp add: char_of_byte_def byte_of_char_def)
qed

lemma byte_char_roundtrip [simp]: "byte_of_char (char_of_byte b) = b"
proof -
  have "unat b < 256" using unsigned_less [of b, where 'a = nat] by simp
  then have "of_char (char_of (unat b) :: char) = unat b" by simp
  then show ?thesis by (simp add: char_of_byte_def byte_of_char_def)
qed

lemma sint32_roundtrip: "- (2 ^ 31) \<le> i \<Longrightarrow> i < 2 ^ 31 \<Longrightarrow> sint (word_of_nat (nat (i mod 2 ^ 32)) :: 32 word) = i"
proof -
  assume "- (2 ^ 31) \<le> i" "i < 2 ^ 31"
  have "(word_of_nat (nat (i mod 2 ^ 32)) :: 32 word) = word_of_int (i mod 2 ^ 32)" by simp
  also have "\<dots> = word_of_int i" by (rule word_of_int_eq_iff [THEN iffD2]) (simp add: take_bit_eq_mod)
  finally show ?thesis using \<open>- (2 ^ 31) \<le> i\<close> \<open>i < 2 ^ 31\<close>
    by (simp add: sint_sbintrunc' signed_take_bit_int_eq_self)
qed

section \<open>Lemmas on association lists\<close>

lemma length_delete_key:
  "distinct (map fst xs) \<Longrightarrow> k \<in> fst ` set xs \<Longrightarrow> Suc (length (AList.delete k xs)) = length xs"
proof (induction xs)
  case Nil
  then show ?case by simp
next
  case (Cons x xs)
  show ?case
  proof (cases "fst x = k")
    case True
    with Cons.prems(1) have "k \<notin> fst ` set xs" by auto
    then have "AList.delete k xs = xs" by (simp add: AList.delete_idem)
    with True show ?thesis by (cases x) simp
  next
    case False
    with Cons show ?thesis by (cases x) auto
  qed
qed

section \<open>Lemmas on lists\<close>

lemma upt_split_at: "i < n \<Longrightarrow> [0..<n] = [0..<i] @ i # [Suc i..<n]"
  using upt_add_eq_append [of 0 i "n - i"] upt_conv_Cons [of i n] by simp

lemma concat_map_upd:
  assumes "i < n"
  shows "concat (map (f(i := x)) [0..<n]) = concat (map f [0..<i]) @ x @ concat (map f [Suc i..<n])"
proof -
  have "map (f(i := x)) [0..<i] = map f [0..<i]" "map (f(i := x)) [Suc i..<n] = map f [Suc i..<n]"
    by auto
  then show ?thesis by (simp add: upt_split_at [OF assms])
qed

text \<open>Replacing the value stored under a key of an association list, in place.\<close>

definition replace_key :: "'k \<Rightarrow> 'v \<Rightarrow> ('k \<times> 'v) list \<Rightarrow> ('k \<times> 'v) list" where
  "replace_key k v xs = map (\<lambda>(k', v'). if k' = k then (k', v) else (k', v')) xs"

lemma map_fst_replace_key [simp]: "map fst (replace_key k v xs) = map fst xs"
  by (induction xs) (auto simp: replace_key_def)

lemma replace_key_append [simp]: "replace_key k v (xs @ ys) = replace_key k v xs @ replace_key k v ys"
  by (simp add: replace_key_def)

lemma replace_key_notin: "k \<notin> fst ` set xs \<Longrightarrow> replace_key k v xs = xs"
  by (induction xs) (auto simp: replace_key_def)

lemma map_of_replace_key:
  "k \<in> fst ` set xs \<Longrightarrow> map_of (replace_key k v xs) = (map_of xs)(k \<mapsto> v)"
proof (induction xs)
  case Nil
  then show ?case by simp
next
  case (Cons x xs)
  show ?case
  proof (cases "k \<in> fst ` set xs")
    case True
    with Cons.IH show ?thesis by (cases x) (auto simp: replace_key_def fun_eq_iff)
  next
    case False
    with Cons.prems replace_key_notin [OF False] show ?thesis
      by (cases x) (auto simp: replace_key_def fun_eq_iff)
  qed
qed

lemma map_of_insert_middle:
  assumes "k \<notin> fst ` set xs"
  shows "map_of (xs @ (k, v) # ys) = (map_of (xs @ ys))(k \<mapsto> v)"
proof
  fix x
  from assms have "map_of xs k = None" by (simp add: map_of_eq_None_iff)
  then show "map_of (xs @ (k, v) # ys) x = ((map_of (xs @ ys))(k \<mapsto> v)) x"
    by (cases "x = k") (simp_all add: map_add_def split: option.splits)
qed

text \<open>Blocks of one length, one after the other.\<close>

lemma bslice_concat_blocks:
  assumes "\<And>j. j < n \<Longrightarrow> length (f j) = k" and "i < n"
  shows "bslice (k * i) k (concat (map f [0..<n])) = f i"
proof -
  have len: "length (concat (map f [0..<m])) = k * m" if "m \<le> n" for m
    using that assms(1) by (induction m) auto
  have "concat (map f [0..<n]) = concat (map f [0..<i]) @ f i @ concat (map f [Suc i..<n])"
    by (simp add: upt_split_at [OF assms(2)])
  moreover have "length (concat (map f [0..<i])) = k * i" using len [of i] assms(2) by simp
  moreover have "length (f i) = k" by (simp add: assms)
  ultimately show ?thesis by (simp add: bslice_def)
qed

lemma length_concat_blocks:
  "(\<And>j. j < n \<Longrightarrow> length (f j) = k) \<Longrightarrow> length (concat (map f [0..<n])) = k * n"
  by (induction n) auto

text \<open>Insertion at an index.\<close>

definition insert_at :: "nat \<Rightarrow> 'a \<Rightarrow> 'a list \<Rightarrow> 'a list" where
  "insert_at i x xs = take i xs @ x # drop i xs"

lemma length_insert_at [simp]: "length (insert_at i x xs) = Suc (length xs)"
  by (simp add: insert_at_def)

lemma nth_insert_at:
  "i \<le> length xs \<Longrightarrow> insert_at i x xs ! j = (if j < i then xs ! j else if j = i then x else xs ! (j - 1))"
  by (auto simp: insert_at_def nth_append nth_Cons' min_def)

lemma set_insert_at [simp]: "set (insert_at i x xs) = insert x (set xs)"
proof -
  have "set (take i xs) \<union> set (drop i xs) = set xs" by (metis append_take_drop_id set_append)
  then show ?thesis by (auto simp: insert_at_def)
qed

lemma distinct_insert_at: "distinct (insert_at i x xs) \<longleftrightarrow> distinct xs \<and> x \<notin> set xs"
proof -
  have "distinct (insert_at i x xs) \<longleftrightarrow> distinct (x # take i xs @ drop i xs)"
    unfolding insert_at_def by (simp del: append_take_drop_id) blast
  then show ?thesis by auto
qed

lemma map_insert_at: "map f (insert_at i x xs) = insert_at i (f x) (map f xs)"
  by (simp add: insert_at_def take_map drop_map)

lemma strict_sorted_insert_at:
  fixes x :: "'a :: linorder"
  assumes s: "sorted_wrt (<) xs" and c: "c \<le> length xs"
    and lo: "0 < c \<Longrightarrow> xs ! (c - 1) < x" and hi: "c < length xs \<Longrightarrow> x < xs ! c"
  shows "sorted_wrt (<) (insert_at c x xs)"
proof -
  have mono: "xs ! i \<le> xs ! j" if "i \<le> j" "j < length xs" for i j
    using s that by (metis sorted_nth_mono strict_sorted_iff)
  have before: "y < x" if "y \<in> set (take c xs)" for y
  proof -
    from that c obtain i where i: "i < c" "y = xs ! i" by (auto simp: in_set_conv_nth)
    then have "xs ! i \<le> xs ! (c - 1)" using c by (intro mono) auto
    also have "\<dots> < x" using i lo by simp
    finally show ?thesis by (simp add: i)
  qed
  moreover have after: "x < y" if "y \<in> set (drop c xs)" for y
  proof -
    from that obtain i where i: "i < length (drop c xs)" "y = drop c xs ! i" by (metis in_set_conv_nth)
    then have "xs ! c \<le> xs ! (c + i)" by (intro mono) auto
    moreover have "x < xs ! c" using i hi by simp
    ultimately show ?thesis using i by simp
  qed
  ultimately show ?thesis using s
    by (auto simp: insert_at_def sorted_wrt_append sorted_wrt_take sorted_wrt_drop intro: less_trans)
qed

end
