(* ===== verification/Core.thy ===== *)
theory Core
  imports Prelude
begin

text \<open>
  The shared contract of the program (\<^verbatim>\<open>src/core/core.go\<close>): typed values and their
  comparison, columns, schemas and rows, the SQL abstract syntax, query results and table
  statistics.  The lemmas show that \<open>Compare\<close> is a total order on the non-null values of one type
  and an error exactly elsewhere, and that \<open>ColumnIndex\<close> finds the first column of a name.
\<close>

section \<open>Values\<close>

datatype columnType = TypeInt | TypeText | TypeBool

fun ColumnType_String :: "columnType \<Rightarrow> string" where
  "ColumnType_String TypeInt = ''INT''"
| "ColumnType_String TypeText = ''TEXT''"
| "ColumnType_String TypeBool = ''BOOL''"

text \<open>The constants are numbered from 0 in the order of declaration (\<^verbatim>\<open>iota\<close>); the storage layer
  writes this number as a tag byte.\<close>

fun ColumnType_iota :: "columnType \<Rightarrow> nat" where
  "ColumnType_iota TypeInt = 0"
| "ColumnType_iota TypeText = 1"
| "ColumnType_iota TypeBool = 2"

record val =
  vType :: columnType
  vInt :: "64 word"
  vStr :: string
  vBool :: bool
  vNull :: bool

definition NewInt :: "64 word \<Rightarrow> val" where
  "NewInt v = \<lparr>vType = TypeInt, vInt = v, vStr = [], vBool = False, vNull = False\<rparr>"

definition NewText :: "string \<Rightarrow> val" where
  "NewText v = \<lparr>vType = TypeText, vInt = 0, vStr = v, vBool = False, vNull = False\<rparr>"

definition NewBool :: "bool \<Rightarrow> val" where
  "NewBool v = \<lparr>vType = TypeBool, vInt = 0, vStr = [], vBool = v, vNull = False\<rparr>"

definition NullValue :: "columnType \<Rightarrow> val" where
  "NullValue t = \<lparr>vType = t, vInt = 0, vStr = [], vBool = False, vNull = True\<rparr>"

text \<open>The zero value \<^verbatim>\<open>core.Value{}\<close> of the struct: an integer 0 that is not null.\<close>

definition zeroValue :: val where
  "zeroValue = \<lparr>vType = TypeInt, vInt = 0, vStr = [], vBool = False, vNull = False\<rparr>"

text \<open>\<^verbatim>\<open>fmt.Sprintf("%d", n)\<close> and \<^verbatim>\<open>fmt.Sprintf("%t", b)\<close>.\<close>

definition digit_char :: "nat \<Rightarrow> char" where
  "digit_char d = char_of (48 + d)"

fun dec_nat :: "nat \<Rightarrow> string" where
  "dec_nat n = (if n < 10 then [digit_char n] else dec_nat (n div 10) @ [digit_char (n mod 10)])"

declare dec_nat.simps [simp del]

definition dec_int :: "int \<Rightarrow> string" where
  "dec_int i = (if i < 0 then CHR ''-'' # dec_nat (nat (- i)) else dec_nat (nat i))"

definition show_bool :: "bool \<Rightarrow> string" where
  "show_bool b = (if b then ''true'' else ''false'')"

definition Value_String :: "val \<Rightarrow> string" where
  "Value_String v =
     (if vNull v then ''NULL''
      else case vType v of
        TypeInt \<Rightarrow> dec_int (sint (vInt v))
      | TypeText \<Rightarrow> vStr v
      | TypeBool \<Rightarrow> show_bool (vBool v))"

text \<open>\<^verbatim>\<open>strings.Compare\<close>: lexicographic on bytes.\<close>

fun strings_Compare :: "string \<Rightarrow> string \<Rightarrow> int" where
  "strings_Compare [] [] = 0"
| "strings_Compare [] (_ # _) = -1"
| "strings_Compare (_ # _) [] = 1"
| "strings_Compare (a # as) (b # bs) =
     (if (of_char a :: nat) < of_char b then -1
      else if (of_char b :: nat) < of_char a then 1
      else strings_Compare as bs)"

definition Compare :: "val \<Rightarrow> val \<Rightarrow> int res" where
  "Compare v w =
     (if vNull v \<or> vNull w then Inl (Errorf ''cannot compare NULL values'' [])
      else if vType v \<noteq> vType w then
        Inl (Errorf ''cannot compare %s with %s''
              [ArgStr (ColumnType_String (vType v)), ArgStr (ColumnType_String (vType w))])
      else case vType v of
        TypeInt \<Rightarrow>
          (if sint (vInt v) < sint (vInt w) then Inr (-1)
           else if sint (vInt v) > sint (vInt w) then Inr 1
           else Inr 0)
      | TypeText \<Rightarrow> Inr (strings_Compare (vStr v) (vStr w))
      | TypeBool \<Rightarrow>
          (if vBool v = vBool w then Inr 0
           else if \<not> vBool v then Inr (-1)
           else Inr 1))"

text \<open>The callers that write \<^verbatim>\<open>cmp, _ := a.Compare(b)\<close> read 0 when there is an error.\<close>

definition cmp_or_0 :: "val \<Rightarrow> val \<Rightarrow> int" where
  "cmp_or_0 v w = (case Compare v w of Inl _ \<Rightarrow> 0 | Inr c \<Rightarrow> c)"

section \<open>Schemas and rows\<close>

record column =
  colName :: string
  colType :: columnType

record schema =
  Columns :: "column list"

fun index_of_column :: "nat \<Rightarrow> column list \<Rightarrow> string \<Rightarrow> int" where
  "index_of_column i [] name = -1"
| "index_of_column i (c # cs) name =
     (if colName c = name then int i else index_of_column (Suc i) cs name)"

definition ColumnIndex :: "schema \<Rightarrow> string \<Rightarrow> int" where
  "ColumnIndex s name = index_of_column 0 (Columns s) name"

type_synonym rowID = "64 word"
type_synonym txnID = "64 word"

record row =
  Values :: "val list"
  Xmin :: txnID
  Xmax :: txnID

text \<open>The zero value \<^verbatim>\<open>core.Row{}\<close>.\<close>

definition zeroRow :: row where
  "zeroRow = \<lparr>Values = [], Xmin = 0, Xmax = 0\<rparr>"

section \<open>Abstract syntax\<close>

datatype binOp = OpEq | OpNe | OpLt | OpLe | OpGt | OpGe | OpAnd | OpOr | OpAdd | OpSub

datatype expr =
  Star
| ColumnRef string string \<comment> \<open>table (empty if not qualified), name\<close>
| Literal val
| BinaryExpr binOp expr expr

record joinClause =
  joinTable :: string
  joinAlias :: string
  joinOn :: expr

record assignment =
  asgColumn :: string
  asgValue :: expr

text \<open>A nil \<^verbatim>\<open>Where\<close> is \<open>None\<close>.\<close>

datatype stmt =
  CreateTableStmt string "column list"
| CreateIndexStmt string string string \<comment> \<open>name, table, column\<close>
| InsertStmt string "expr list"
| SelectStmt "expr list" string string "joinClause list" "expr option"
    \<comment> \<open>projection, from, alias of from, joins, where\<close>
| UpdateStmt string "assignment list" "expr option"
| DeleteStmt string "expr option"
| BeginStmt
| CommitStmt
| RollbackStmt
| ExplainStmt stmt
| AnalyzeStmt string

section \<open>Results and statistics\<close>

record sqlResult =
  resSchema :: schema
  resRows :: "row list"
  RowsAffected :: nat

record columnStats =
  DistinctCount :: nat
  NullCount :: nat
  statMin :: val
  statMax :: val

record tableStats =
  RowCount :: nat
  statColumns :: "string \<rightharpoonup> columnStats"

section \<open>Comparison is a total order on the non-null values of a type\<close>

lemma strings_Compare_range: "strings_Compare a b \<in> {-1, 0, 1}"
  by (induction a b rule: strings_Compare.induct) auto

lemma strings_Compare_eq_0: "strings_Compare a b = 0 \<longleftrightarrow> a = b"
proof (induction a b rule: strings_Compare.induct)
  case (4 a as b bs)
  have "a = b \<longleftrightarrow> (of_char a :: nat) = of_char b" by simp
  with 4 show ?case by (auto simp del: of_char_eq_iff)
qed auto

lemma strings_Compare_swap: "strings_Compare b a = - strings_Compare a b"
  by (induction a b rule: strings_Compare.induct) auto

lemma strings_Compare_trans:
  "strings_Compare a b \<le> 0 \<Longrightarrow> strings_Compare b c \<le> 0 \<Longrightarrow> strings_Compare a c \<le> 0"
proof (induction a b arbitrary: c rule: strings_Compare.induct)
  case (4 a as b bs)
  then obtain d ds where c: "c = d # ds" by (cases c) auto
  let ?a = "of_char a :: nat" and ?b = "of_char b :: nat" and ?d = "of_char d :: nat"
  from "4.prems" c have le: "?a \<le> ?b" "?b \<le> ?d" by (simp_all split: if_splits)
  show ?case
  proof (cases "?a = ?b \<and> ?b = ?d")
    case True
    with "4.prems" c have "strings_Compare as bs \<le> 0" "strings_Compare bs ds \<le> 0" by simp_all
    with "4.IH" True c show ?thesis by simp
  next
    case False
    with le have "?a < ?d" by linarith
    with c show ?thesis by simp
  qed
next
  case (2 b bs)
  then show ?case by (cases c) auto
qed auto

lemma Compare_ok_iff:
  "is_ok (Compare v w) \<longleftrightarrow> \<not> vNull v \<and> \<not> vNull w \<and> vType v = vType w"
  by (auto simp: Compare_def split: columnType.splits)

lemma Compare_range: "Compare v w = Inr c \<Longrightarrow> c \<in> {-1, 0, 1}"
  using strings_Compare_range [of "vStr v" "vStr w"]
  by (auto simp: Compare_def split: if_splits columnType.splits)

lemma Compare_swap: "Compare v w = Inr c \<Longrightarrow> Compare w v = Inr (- c)"
  using strings_Compare_swap [of "vStr v" "vStr w"]
  by (auto simp: Compare_def split: if_splits columnType.splits)

lemma Compare_trans:
  assumes "Compare u v = Inr c" and "Compare v w = Inr d" and "c \<le> 0" and "d \<le> 0"
  shows "\<exists>e. Compare u w = Inr e \<and> e \<le> 0"
  using assms strings_Compare_trans [of "vStr u" "vStr v" "vStr w"]
  by (auto simp: Compare_def split: if_splits columnType.splits)

text \<open>The field that carries the value of a non-null cell.\<close>

fun same_cell :: "val \<Rightarrow> val \<Rightarrow> bool" where
  "same_cell v w = (vType v = vType w \<and> \<not> vNull v \<and> \<not> vNull w \<and>
     (case vType v of TypeInt \<Rightarrow> vInt v = vInt w | TypeText \<Rightarrow> vStr v = vStr w
      | TypeBool \<Rightarrow> vBool v = vBool w))"

lemma Compare_eq_0: "Compare v w = Inr 0 \<longleftrightarrow> same_cell v w"
  by (auto simp: Compare_def strings_Compare_eq_0 split: if_splits columnType.splits
      intro: signed_word_eqI)

lemma Compare_NewInt [simp]:
  "Compare (NewInt a) (NewInt b) =
     Inr (if sint a < sint b then -1 else if sint a > sint b then 1 else 0)"
  by (simp add: Compare_def NewInt_def)

lemma cmp_or_0_NewInt [simp]:
  "cmp_or_0 (NewInt a) (NewInt b) = (if sint a < sint b then -1 else if sint a > sint b then 1 else 0)"
  by (simp add: cmp_or_0_def)

lemma New_sel [simp]:
  "vType (NewInt i) = TypeInt" "vInt (NewInt i) = i" "\<not> vNull (NewInt i)"
  "vType (NewText s) = TypeText" "vStr (NewText s) = s" "\<not> vNull (NewText s)"
  "vType (NewBool b) = TypeBool" "vBool (NewBool b) = b" "\<not> vNull (NewBool b)"
  "vType (NullValue t) = t" "vNull (NullValue t)"
  by (simp_all add: NewInt_def NewText_def NewBool_def NullValue_def)

section \<open>Column lookup\<close>

lemma index_of_column_spec:
  "index_of_column k cs name = -1 \<and> name \<notin> colName ` set cs \<or>
   (\<exists>i < length cs. index_of_column k cs name = int (k + i) \<and> colName (cs ! i) = name \<and>
      (\<forall>j < i. colName (cs ! j) \<noteq> name))"
proof (induction cs arbitrary: k)
  case Nil
  then show ?case by simp
next
  case (Cons c cs)
  show ?case
  proof (cases "colName c = name")
    case True
    then show ?thesis by force
  next
    case False
    from Cons.IH [of "Suc k"] show ?thesis
    proof
      assume "index_of_column (Suc k) cs name = -1 \<and> name \<notin> colName ` set cs"
      with False show ?thesis by auto
    next
      assume "\<exists>i < length cs. index_of_column (Suc k) cs name = int (Suc k + i) \<and>
        colName (cs ! i) = name \<and> (\<forall>j < i. colName (cs ! j) \<noteq> name)"
      then obtain i where i: "i < length cs" "index_of_column (Suc k) cs name = int (Suc k + i)"
        "colName (cs ! i) = name" "\<forall>j < i. colName (cs ! j) \<noteq> name" by blast
      with False have "\<forall>j < Suc i. colName ((c # cs) ! j) \<noteq> name"
        by (auto simp: nth_Cons split: nat.splits)
      with i False show ?thesis by (intro disjI2 exI [of _ "Suc i"]) auto
    qed
  qed
qed

lemma ColumnIndex_neg_iff: "ColumnIndex s name < 0 \<longleftrightarrow> name \<notin> colName ` set (Columns s)"
  using index_of_column_spec [of 0 "Columns s" name]
  by (auto simp: ColumnIndex_def image_iff dest: nth_mem)

lemma ColumnIndex_first:
  assumes "0 \<le> ColumnIndex s name"
  shows "nat (ColumnIndex s name) < length (Columns s)"
    and "colName (Columns s ! nat (ColumnIndex s name)) = name"
    and "\<forall>j < nat (ColumnIndex s name). colName (Columns s ! j) \<noteq> name"
  using assms index_of_column_spec [of 0 "Columns s" name]
  by (auto simp: ColumnIndex_def)

end
