(* ===== verification/Eval.thy ===== *)
theory Eval
  imports Core
begin

text \<open>
  Expressions over a row (\<^verbatim>\<open>src/executor/eval.go\<close>), and the treatment of conjunctions in
  \<^verbatim>\<open>src/executor/executor.go\<close> that turns a condition into an index lookup and a rest.  Both operands
  of an operator are always evaluated.  A column reference is resolved by its name alone.  The lemmas
  show that well-typed expressions never fail and have the type they should, that \<^verbatim>\<open>AND\<close> and \<^verbatim>\<open>OR\<close>
  are the three-valued connectives, and that splitting a condition keeps its meaning.
\<close>

section \<open>Evaluation\<close>

text \<open>The constants of \<^verbatim>\<open>core.BinOp\<close> as numbers, which error messages print.\<close>

fun BinOp_iota :: "binOp \<Rightarrow> int" where
  "BinOp_iota OpEq = 0" | "BinOp_iota OpNe = 1" | "BinOp_iota OpLt = 2" | "BinOp_iota OpLe = 3"
| "BinOp_iota OpGt = 4" | "BinOp_iota OpGe = 5" | "BinOp_iota OpAnd = 6" | "BinOp_iota OpOr = 7"
| "BinOp_iota OpAdd = 8" | "BinOp_iota OpSub = 9"

definition evalComparison :: "binOp \<Rightarrow> val \<Rightarrow> val \<Rightarrow> val res" where
  "evalComparison bop left right =
     (case Compare left right of
        Inl e \<Rightarrow> Inl e
      | Inr cmp \<Rightarrow>
          (case bop of
             OpEq \<Rightarrow> Inr (NewBool (cmp = 0))
           | OpNe \<Rightarrow> Inr (NewBool (cmp \<noteq> 0))
           | OpLt \<Rightarrow> Inr (NewBool (cmp < 0))
           | OpLe \<Rightarrow> Inr (NewBool (cmp \<le> 0))
           | OpGt \<Rightarrow> Inr (NewBool (cmp > 0))
           | OpGe \<Rightarrow> Inr (NewBool (cmp \<ge> 0))
           | _ \<Rightarrow> Inl (Errorf ''unsupported comparison operator %d'' [ArgInt (BinOp_iota bop)])))"

definition boolOperands :: "binOp \<Rightarrow> val \<Rightarrow> val \<Rightarrow> (bool \<times> bool) res" where
  "boolOperands bop left right =
     (if vNull left \<or> vNull right then
        Inl (Errorf ''operator %d requires non-null boolean operands'' [ArgInt (BinOp_iota bop)])
      else if vType left \<noteq> TypeBool \<or> vType right \<noteq> TypeBool then
        Inl (Errorf ''operator %d requires boolean operands, got %s and %s''
          [ArgInt (BinOp_iota bop), ArgStr (ColumnType_String (vType left)), ArgStr (ColumnType_String (vType right))])
      else Inr (vBool left, vBool right))"

text \<open>\<^verbatim>\<open>evalBinary\<close> once its operands are evaluated.\<close>

definition evalBinary_vals :: "binOp \<Rightarrow> val \<Rightarrow> val \<Rightarrow> val res" where
  "evalBinary_vals bop left right =
     (if vNull left \<or> vNull right then
        (case bop of
           OpAnd \<Rightarrow>
             if \<not> vNull left \<and> vType left = TypeBool \<and> \<not> vBool left then Inr (NewBool False)
             else if \<not> vNull right \<and> vType right = TypeBool \<and> \<not> vBool right then Inr (NewBool False)
             else Inr (NullValue TypeBool)
         | OpOr \<Rightarrow>
             if \<not> vNull left \<and> vType left = TypeBool \<and> vBool left then Inr (NewBool True)
             else if \<not> vNull right \<and> vType right = TypeBool \<and> vBool right then Inr (NewBool True)
             else Inr (NullValue TypeBool)
         | _ \<Rightarrow> Inr (NullValue TypeBool))
      else case bop of
          OpAnd \<Rightarrow> (case boolOperands bop left right of Inl e \<Rightarrow> Inl e | Inr (l, r) \<Rightarrow> Inr (NewBool (l \<and> r)))
        | OpOr \<Rightarrow> (case boolOperands bop left right of Inl e \<Rightarrow> Inl e | Inr (l, r) \<Rightarrow> Inr (NewBool (l \<or> r)))
        | OpAdd \<Rightarrow>
            if vType left \<noteq> TypeInt \<or> vType right \<noteq> TypeInt then
              Inl (Errorf ''+ requires integer operands, got %s and %s''
                [ArgStr (ColumnType_String (vType left)), ArgStr (ColumnType_String (vType right))])
            else Inr (NewInt (vInt left + vInt right))
        | OpSub \<Rightarrow>
            if vType left \<noteq> TypeInt \<or> vType right \<noteq> TypeInt then
              Inl (Errorf ''- requires integer operands, got %s and %s''
                [ArgStr (ColumnType_String (vType left)), ArgStr (ColumnType_String (vType right))])
            else Inr (NewInt (vInt left - vInt right))
        | _ \<Rightarrow> evalComparison bop left right)"

fun eval :: "expr \<Rightarrow> row \<Rightarrow> schema \<Rightarrow> val res" where
  "eval (Literal v) r sch = Inr v"
| "eval (ColumnRef tbl name) r sch =
     (let idx = ColumnIndex sch name in
      if idx < 0 then Inl (Errorf ''column %q does not exist'' [ArgStr name])
      else if idx \<ge> int (length (Values r)) then Inl (Errorf ''column %q is not present in row'' [ArgStr name])
      else Inr (Values r ! nat idx))"
| "eval (BinaryExpr bop left right) r sch =
     (case eval left r sch of
        Inl e \<Rightarrow> Inl e
      | Inr l \<Rightarrow> (case eval right r sch of Inl e \<Rightarrow> Inl e | Inr rv \<Rightarrow> evalBinary_vals bop l rv))"
| "eval Star r sch = Inl (Errorf ''unsupported expression type %T'' [ArgStr ''*core.Star''])"

definition evalWhere :: "expr option \<Rightarrow> row \<Rightarrow> schema \<Rightarrow> bool res" where
  "evalWhere w r sch =
     (case w of
        None \<Rightarrow> Inr True
      | Some e \<Rightarrow>
          (case eval e r sch of
             Inl err \<Rightarrow> Inl err
           | Inr v \<Rightarrow>
               if vNull v then Inr False
               else if vType v \<noteq> TypeBool then
                 Inl (Errorf ''WHERE must evaluate to boolean, got %s'' [ArgStr (ColumnType_String (vType v))])
               else Inr (vBool v)))"

section \<open>Conjunctions\<close>

fun splitAndTerms :: "expr \<Rightarrow> expr list" where
  "splitAndTerms (BinaryExpr OpAnd left right) = splitAndTerms left @ splitAndTerms right"
| "splitAndTerms e = [e]"

definition combineAndTerms :: "expr list \<Rightarrow> expr option" where
  "combineAndTerms terms =
     (case terms of [] \<Rightarrow> None | t # ts \<Rightarrow> Some (foldl (BinaryExpr OpAnd) t ts))"

record indexedEquality =
  ieColumn :: string
  ieValue :: val

fun columnLiteral :: "expr \<Rightarrow> expr \<Rightarrow> string \<Rightarrow> indexedEquality option" where
  "columnLiteral (ColumnRef tbl name) (Literal v) table =
     (if tbl \<noteq> [] \<and> tbl \<noteq> table then None else Some \<lparr>ieColumn = name, ieValue = v\<rparr>)"
| "columnLiteral _ _ table = None"

fun equalityColumnLiteral :: "expr \<Rightarrow> string \<Rightarrow> indexedEquality option" where
  "equalityColumnLiteral (BinaryExpr OpEq left right) table =
     (case columnLiteral left right table of
        Some eq \<Rightarrow> Some eq
      | None \<Rightarrow> columnLiteral right left table)"
| "equalityColumnLiteral _ table = None"

section \<open>Types of expressions\<close>

text \<open>The types an expression may be used at; the literal NULL fits everywhere.\<close>

fun types :: "schema \<Rightarrow> expr \<Rightarrow> columnType set" where
  "types sch (Literal v) = (if vNull v then UNIV else {vType v})"
| "types sch (ColumnRef tbl name) =
     (let idx = ColumnIndex sch name in if idx < 0 then {} else {colType (Columns sch ! nat idx)})"
| "types sch (BinaryExpr bop l r) =
     (if bop \<in> {OpAnd, OpOr} then if TypeBool \<in> types sch l \<inter> types sch r then {TypeBool} else {}
      else if bop \<in> {OpAdd, OpSub} then if TypeInt \<in> types sch l \<inter> types sch r then {TypeInt} else {}
      else if types sch l \<inter> types sch r \<noteq> {} then {TypeBool} else {})"
| "types sch Star = {}"

definition has_type :: "val \<Rightarrow> columnType \<Rightarrow> bool" where
  "has_type v t \<longleftrightarrow> vNull v \<or> vType v = t"

text \<open>A row that fits a schema: the rows that the executor inserts.\<close>

definition row_typed :: "schema \<Rightarrow> row \<Rightarrow> bool" where
  "row_typed sch r \<longleftrightarrow> list_all2 (\<lambda>v c. has_type v (colType c)) (Values r) (Columns sch)"

lemma has_type_New [simp]:
  "has_type (NewBool b) TypeBool" "has_type (NewInt i) TypeInt" "has_type (NullValue t) t'"
  by (simp_all add: has_type_def NewBool_def NewInt_def NullValue_def)

text \<open>Truth values with unknown, and Kleene's connectives.\<close>

definition truth :: "val \<Rightarrow> bool option" where
  "truth v = (if vNull v then None else Some (vBool v))"

fun kleene_and :: "bool option \<Rightarrow> bool option \<Rightarrow> bool option" where
  "kleene_and (Some False) _ = Some False"
| "kleene_and _ (Some False) = Some False"
| "kleene_and (Some True) (Some True) = Some True"
| "kleene_and _ _ = None"

fun kleene_or :: "bool option \<Rightarrow> bool option \<Rightarrow> bool option" where
  "kleene_or (Some True) _ = Some True"
| "kleene_or _ (Some True) = Some True"
| "kleene_or (Some False) (Some False) = Some False"
| "kleene_or _ _ = None"

lemma evalBinary_and:
  assumes "has_type l TypeBool" and "has_type r TypeBool"
  obtains v where "evalBinary_vals OpAnd l r = Inr v" and "has_type v TypeBool"
    and "truth v = kleene_and (truth l) (truth r)"
  using assms
  by (cases "vNull l"; cases "vNull r"; cases "vBool l"; cases "vBool r")
    (auto simp: evalBinary_vals_def boolOperands_def has_type_def truth_def NewBool_def NullValue_def)

lemma evalBinary_or:
  assumes "has_type l TypeBool" and "has_type r TypeBool"
  obtains v where "evalBinary_vals OpOr l r = Inr v" and "has_type v TypeBool"
    and "truth v = kleene_or (truth l) (truth r)"
  using assms
  by (cases "vNull l"; cases "vNull r"; cases "vBool l"; cases "vBool r")
    (auto simp: evalBinary_vals_def boolOperands_def has_type_def truth_def NewBool_def NullValue_def)

lemma evalBinary_typed:
  assumes "if bop \<in> {OpAnd, OpOr} then t = TypeBool \<and> has_type l TypeBool \<and> has_type r TypeBool
    else if bop \<in> {OpAdd, OpSub} then t = TypeInt \<and> has_type l TypeInt \<and> has_type r TypeInt
    else t = TypeBool \<and> (\<exists>t'. has_type l t' \<and> has_type r t')"
  shows "\<exists>v. evalBinary_vals bop l r = Inr v \<and> has_type v t"
proof (cases "vNull l \<or> vNull r")
  case True
  with assms show ?thesis
    by (cases bop) (auto simp: evalBinary_vals_def)
next
  case False
  then show ?thesis
  proof (cases "bop \<in> {OpAnd, OpOr, OpAdd, OpSub}")
    case True
    with assms False show ?thesis
      by (auto simp: evalBinary_vals_def boolOperands_def has_type_def NewBool_def NewInt_def)
  next
    case cmp: False
    with assms False have "vType l = vType r" "t = TypeBool" by (auto simp: has_type_def split: if_splits)
    with False obtain c where "Compare l r = Inr c" using Compare_ok_iff [of l r] by (auto simp: is_ok_iff)
    with cmp False \<open>t = TypeBool\<close> show ?thesis
      by (cases bop) (auto simp: evalBinary_vals_def evalComparison_def)
  qed
qed

lemma eval_typed:
  assumes "row_typed sch r"
  shows "t \<in> types sch e \<Longrightarrow> \<exists>v. eval e r sch = Inr v \<and> has_type v t"
proof (induction e arbitrary: t)
  case Star
  then show ?case by simp
next
  case (ColumnRef tbl name)
  from ColumnRef have idx: "0 \<le> ColumnIndex sch name" "t = colType (Columns sch ! nat (ColumnIndex sch name))"
    by (auto simp: Let_def split: if_splits)
  from idx(1) ColumnIndex_first [of sch name] have len: "nat (ColumnIndex sch name) < length (Columns sch)" by auto
  with assms idx show ?case
    by (auto simp: row_typed_def list_all2_conv_all_nth Let_def)
next
  case (Literal v)
  then show ?case by (auto simp: has_type_def split: if_splits)
next
  case (BinaryExpr bop a b)
  then obtain ta tb where "ta \<in> types sch a" "tb \<in> types sch b"
    and tt: "if bop \<in> {OpAnd, OpOr} then t = TypeBool \<and> ta = TypeBool \<and> tb = TypeBool
      else if bop \<in> {OpAdd, OpSub} then t = TypeInt \<and> ta = TypeInt \<and> tb = TypeInt
      else t = TypeBool \<and> ta = tb"
    by (auto split: if_splits)
  with BinaryExpr.IH obtain va vb where "eval a r sch = Inr va" "has_type va ta" "eval b r sch = Inr vb" "has_type vb tb"
    by blast
  moreover from this tt evalBinary_typed [of bop t va vb]
  obtain v where "evalBinary_vals bop va vb = Inr v" "has_type v t" by (auto split: if_splits)
  ultimately show ?case by auto
qed

section \<open>Conditions\<close>

text \<open>A condition: an expression that is boolean on rows of the schema.\<close>

abbreviation condition :: "schema \<Rightarrow> expr \<Rightarrow> bool" where
  "condition sch e \<equiv> TypeBool \<in> types sch e"

definition holds :: "schema \<Rightarrow> row \<Rightarrow> expr \<Rightarrow> bool" where
  "holds sch r e \<longleftrightarrow> evalWhere (Some e) r sch = Inr True"

lemma evalWhere_condition:
  assumes "row_typed sch r" and "condition sch e"
  shows "evalWhere (Some e) r sch = Inr (holds sch r e)"
proof -
  from eval_typed [OF assms] obtain v where "eval e r sch = Inr v" "has_type v TypeBool" by blast
  then show ?thesis by (auto simp: evalWhere_def holds_def has_type_def)
qed

lemma holds_truth:
  assumes "eval e r sch = Inr v" and "has_type v TypeBool"
  shows "holds sch r e \<longleftrightarrow> truth v = Some True"
  using assms by (auto simp: holds_def evalWhere_def truth_def has_type_def)

lemma kleene_and_True: "kleene_and a b = Some True \<longleftrightarrow> a = Some True \<and> b = Some True"
  by (cases "(a, b)" rule: kleene_and.cases) auto

lemma holds_and:
  assumes "row_typed sch r" and "condition sch a" and "condition sch b"
  shows "holds sch r (BinaryExpr OpAnd a b) \<longleftrightarrow> holds sch r a \<and> holds sch r b"
proof -
  from eval_typed [OF assms(1,2)] eval_typed [OF assms(1,3)] obtain va vb where
    v: "eval a r sch = Inr va" "has_type va TypeBool" "eval b r sch = Inr vb" "has_type vb TypeBool" by blast
  from evalBinary_and [OF v(2,4)] obtain w where
    w: "evalBinary_vals OpAnd va vb = Inr w" "has_type w TypeBool" "truth w = kleene_and (truth va) (truth vb)" .
  have "eval (BinaryExpr OpAnd a b) r sch = Inr w" using v w by simp
  with w holds_truth show ?thesis using v by (simp add: kleene_and_True holds_truth)
qed

lemma condition_and: "condition sch (BinaryExpr OpAnd a b) \<longleftrightarrow> condition sch a \<and> condition sch b"
  by simp

lemma splitAndTerms_condition: "condition sch w \<Longrightarrow> t \<in> set (splitAndTerms w) \<Longrightarrow> condition sch t"
proof (induction w rule: splitAndTerms.induct)
  case (1 a b)
  then have "condition sch a" "condition sch b" by (simp_all only: condition_and)
  with 1 show ?case by auto
qed simp_all

lemma splitAndTerms_holds:
  assumes "row_typed sch r"
  shows "condition sch w \<Longrightarrow> holds sch r w \<longleftrightarrow> (\<forall>t \<in> set (splitAndTerms w). holds sch r t)"
proof (induction w rule: splitAndTerms.induct)
  case (1 a b)
  then have ab: "condition sch a" "condition sch b" by (simp_all only: condition_and)
  from "1.IH" ab holds_and [OF assms ab] show ?case by (simp add: ball_Un)
qed simp_all

lemma foldl_and_ok:
  assumes "row_typed sch r"
  shows "condition sch t \<Longrightarrow> (\<forall>u \<in> set ts. condition sch u) \<Longrightarrow>
    condition sch (foldl (BinaryExpr OpAnd) t ts) \<and>
    (holds sch r (foldl (BinaryExpr OpAnd) t ts) \<longleftrightarrow> holds sch r t \<and> (\<forall>u \<in> set ts. holds sch r u))"
proof (induction ts arbitrary: t)
  case (Cons u us)
  then have "condition sch (BinaryExpr OpAnd t u)" by simp
  with Cons holds_and [OF assms, of t u] show ?case by auto
qed simp

lemma combineAndTerms_ok:
  assumes "row_typed sch r" and "\<forall>t \<in> set ts. condition sch t"
  shows "evalWhere (combineAndTerms ts) r sch = Inr (\<forall>t \<in> set ts. holds sch r t)"
proof (cases ts)
  case Nil
  then show ?thesis by (simp add: combineAndTerms_def evalWhere_def)
next
  case (Cons u us)
  with assms foldl_and_ok [OF assms(1), of u us] show ?thesis
    by (auto simp: combineAndTerms_def evalWhere_condition)
qed

lemma columnLiteral_Some:
  "columnLiteral a b table = Some eq \<Longrightarrow> \<exists>tbl. a = ColumnRef tbl (ieColumn eq) \<and> b = Literal (ieValue eq)"
  by (cases "(a, b, table)" rule: columnLiteral.cases) (auto split: if_splits)

lemma equality_holds:
  assumes t: "equalityColumnLiteral t table = Some eq" and r: "row_typed sch r" and c: "condition sch t"
  shows "0 \<le> ColumnIndex sch (ieColumn eq)"
    and "holds sch r t \<longleftrightarrow> Compare (Values r ! nat (ColumnIndex sch (ieColumn eq))) (ieValue eq) = Inr 0"
proof -
  let ?i = "ColumnIndex sch (ieColumn eq)" and ?v = "ieValue eq"
  from t obtain a b where tab: "t = BinaryExpr OpEq a b"
    and ab: "columnLiteral a b table = Some eq \<or> columnLiteral b a table = Some eq"
    by (cases "(t, table)" rule: equalityColumnLiteral.cases) (auto split: option.splits)
  then obtain tbl where alt: "a = ColumnRef tbl (ieColumn eq) \<and> b = Literal ?v \<or> b = ColumnRef tbl (ieColumn eq) \<and> a = Literal ?v"
    using columnLiteral_Some by metis
  from c alt show idx: "0 \<le> ?i" unfolding tab by (auto simp: Let_def split: if_splits)
  with ColumnIndex_first(1) r have len: "nat ?i < length (Values r)"
    by (simp add: row_typed_def list_all2_lengthD)
  have col: "eval (ColumnRef tbl (ieColumn eq)) r sch = Inr (Values r ! nat ?i)" using idx len by (simp add: Let_def)
  have swap: "Compare x y = Inr 0 \<longleftrightarrow> Compare y x = Inr 0" for x y using Compare_swap [of x y 0] Compare_swap [of y x 0] by auto
  let ?x = "Values r ! nat ?i"
  have "\<exists>p q. eval a r sch = Inr p \<and> eval b r sch = Inr q \<and> (p = ?x \<and> q = ?v \<or> p = ?v \<and> q = ?x)"
    using alt col by auto
  then obtain p q where pq: "eval a r sch = Inr p" "eval b r sch = Inr q" "p = ?x \<and> q = ?v \<or> p = ?v \<and> q = ?x" by blast
  have "holds sch r t \<longleftrightarrow> Compare p q = Inr 0"
  proof (cases "vNull p \<or> vNull q")
    case True
    then show ?thesis using pq unfolding tab
      by (auto simp: holds_def evalWhere_def evalBinary_vals_def Compare_def NullValue_def)
  next
    case False
    then show ?thesis using pq(1,2) unfolding tab
      by (auto simp: holds_def evalWhere_def evalBinary_vals_def evalComparison_def NewBool_def split: sum.splits)
  qed
  with pq(3) swap show "holds sch r t \<longleftrightarrow> Compare ?x ?v = Inr 0" by auto
qed

text \<open>A condition and what is left of it without one of its equalities.\<close>

lemma split_condition:
  assumes "row_typed sch r" and "condition sch w" and "splitAndTerms w = us @ t # vs"
    and "equalityColumnLiteral t table = Some eq"
  shows "\<exists>b. evalWhere (combineAndTerms (us @ vs)) r sch = Inr b \<and>
    evalWhere (Some w) r sch =
      Inr (Compare (Values r ! nat (ColumnIndex sch (ieColumn eq))) (ieValue eq) = Inr 0 \<and> b)"
proof -
  from splitAndTerms_condition [OF assms(2)] assms(3)
  have c: "\<forall>u \<in> set (us @ vs). condition sch u" "condition sch t" by simp_all
  from splitAndTerms_holds [OF assms(1,2)] assms(3)
  have h: "holds sch r w \<longleftrightarrow> holds sch r t \<and> (\<forall>u \<in> set (us @ vs). holds sch r u)" by auto
  show ?thesis
    using combineAndTerms_ok [OF assms(1) c(1)] h equality_holds(2) [OF assms(4,1) c(2)]
      evalWhere_condition [OF assms(1,2)] by simp
qed

section \<open>Properties\<close>

text \<open>C39: Type safety of expressions.  On a row that fits the schema, a well-typed expression
  evaluates without an error to NULL or to a value of its type.\<close>

theorem eval_type_safe:
  assumes "row_typed sch r" and "t \<in> types sch e"
  shows "\<exists>v. eval e r sch = Inr v \<and> has_type v t"
  using eval_typed [OF assms] .

theorem eval_type_safe_witness:
  "let sch = \<lparr>Columns = [\<lparr>colName = ''id'', colType = TypeInt\<rparr>]\<rparr>; r = \<lparr>Values = [NewInt 41], Xmin = 1, Xmax = 0\<rparr>;
       e = BinaryExpr OpLt (ColumnRef [] ''id'') (BinaryExpr OpAdd (Literal (NewInt 1)) (Literal (NewInt 41)))
   in \<exists>v. eval e r sch = Inr v \<and> has_type v TypeBool"
  unfolding Let_def
  by (rule eval_type_safe) (simp_all add: row_typed_def has_type_def NewInt_def ColumnIndex_def)

text \<open>C40: Three-valued logic.  On boolean or NULL operands \<^verbatim>\<open>AND\<close> and \<^verbatim>\<open>OR\<close> are Kleene's connectives
  of the operands' truth values, with NULL as unknown.\<close>

theorem evalBinary_kleene:
  assumes "has_type l TypeBool" and "has_type r TypeBool"
  shows "(\<exists>v. evalBinary_vals OpAnd l r = Inr v \<and> has_type v TypeBool \<and> truth v = kleene_and (truth l) (truth r)) \<and>
    (\<exists>v. evalBinary_vals OpOr l r = Inr v \<and> has_type v TypeBool \<and> truth v = kleene_or (truth l) (truth r))"
  using evalBinary_and [OF assms] evalBinary_or [OF assms] by metis

theorem evalBinary_kleene_witness:
  "\<exists>v. evalBinary_vals OpAnd (NullValue TypeInt) (NewBool False) = Inr v \<and> has_type v TypeBool \<and>
     truth v = kleene_and (truth (NullValue TypeInt)) (truth (NewBool False))"
  by (rule evalBinary_kleene [THEN conjunct1]) simp_all

text \<open>C38: Taking an equality out of a condition.  When a well-typed condition is split at its
  conjunctions and one of the parts is an equality of a column and a literal, the condition holds on
  a row exactly when the row's column compares equal to the literal and the conjunction of the other
  parts, as it is put together again, holds: a scan of the matching rows with the rest as filter gives
  the rows that the whole condition selects.\<close>

theorem split_equality:
  assumes "row_typed sch r" and "condition sch w" and "splitAndTerms w = us @ t # vs"
    and "equalityColumnLiteral t table = Some eq"
  shows "\<exists>b. evalWhere (combineAndTerms (us @ vs)) r sch = Inr b \<and>
    evalWhere (Some w) r sch =
      Inr (Compare (Values r ! nat (ColumnIndex sch (ieColumn eq))) (ieValue eq) = Inr 0 \<and> b)"
  by (rule split_condition [OF assms])

theorem split_equality_witness:
  "let sch = \<lparr>Columns = [\<lparr>colName = ''id'', colType = TypeInt\<rparr>]\<rparr>; r = \<lparr>Values = [NewInt 41], Xmin = 1, Xmax = 0\<rparr>;
       t = BinaryExpr OpEq (ColumnRef [] ''id'') (Literal (NewInt 41));
       u = BinaryExpr OpLt (ColumnRef [] ''id'') (Literal (NewInt 50))
   in \<exists>b. evalWhere (combineAndTerms ([] @ [u])) r sch = Inr b \<and>
     evalWhere (Some (BinaryExpr OpAnd t u)) r sch =
       Inr (Compare (Values r ! nat (ColumnIndex sch ''id'')) (NewInt 41) = Inr 0 \<and> b)"
  using split_equality [of "\<lparr>Columns = [\<lparr>colName = ''id'', colType = TypeInt\<rparr>]\<rparr>" "\<lparr>Values = [NewInt 41], Xmin = 1, Xmax = 0\<rparr>"
      "BinaryExpr OpAnd (BinaryExpr OpEq (ColumnRef [] ''id'') (Literal (NewInt 41))) (BinaryExpr OpLt (ColumnRef [] ''id'') (Literal (NewInt 50)))"
      "[]" "BinaryExpr OpEq (ColumnRef [] ''id'') (Literal (NewInt 41))" "[BinaryExpr OpLt (ColumnRef [] ''id'') (Literal (NewInt 50))]"
      "''t''" "\<lparr>ieColumn = ''id'', ieValue = NewInt 41\<rparr>"]
  by (simp add: row_typed_def has_type_def NewInt_def ColumnIndex_def Let_def)

end
