(* ===== verification/Executor.thy ===== *)
theory Executor
  imports Eval
begin

text \<open>
  The executor (\<^verbatim>\<open>src/executor/operator.go\<close>, \<^verbatim>\<open>join.go\<close>, \<^verbatim>\<open>executor.go\<close>).  It reaches data through
  the interface \<^verbatim>\<open>core.StorageEngine\<close> only, here a record of operations on an engine state \<open>'s\<close>
  with iterators \<open>'i\<close>; a transaction handle is its identifier.  Operators are a datatype whose
  values are the objects of the Go types, and \<open>opNext\<close> returns the operator after the call.  The
  loops of an operator run on fuel; the lemmas show that with enough of it every plan ends, and that
  what it returns is a function of the rows of its tables.
\<close>

section \<open>The storage engine as the executor sees it\<close>

text \<open>\<open>eSetValue\<close> is no method: it is what happens to the engine when the executor writes to an
  element of the \<^verbatim>\<open>Values\<close> slice of a row that a scan of the transaction returned.  An engine that
  decodes rows from pages is not affected; one that hands out its own slices is.\<close>

record ('s, 'i) storageEngine =
  eBegin :: "'s \<Rightarrow> 's \<times> txnID res"
  eCommit :: "txnID \<Rightarrow> 's \<Rightarrow> 's \<times> unit res"
  eRollback :: "txnID \<Rightarrow> 's \<Rightarrow> 's \<times> unit res"
  eCreateTable :: "txnID \<Rightarrow> string \<Rightarrow> schema \<Rightarrow> 's \<Rightarrow> 's \<times> unit res"
  eDropTable :: "txnID \<Rightarrow> string \<Rightarrow> 's \<Rightarrow> 's \<times> unit res"
  eGetSchema :: "string \<Rightarrow> 's \<Rightarrow> 's \<times> schema option res"
  eListTables :: "'s \<Rightarrow> 's \<times> string list res"
  eInsert :: "txnID \<Rightarrow> string \<Rightarrow> row \<Rightarrow> 's \<Rightarrow> 's \<times> rowID res"
  eUpdate :: "txnID \<Rightarrow> string \<Rightarrow> rowID \<Rightarrow> row \<Rightarrow> 's \<Rightarrow> 's \<times> unit res"
  eDelete :: "txnID \<Rightarrow> string \<Rightarrow> rowID \<Rightarrow> 's \<Rightarrow> 's \<times> unit res"
  eScan :: "txnID \<Rightarrow> string \<Rightarrow> 's \<Rightarrow> 's \<times> 'i res"
  eNext :: "'i \<Rightarrow> 's \<Rightarrow> 's \<times> ('i \<times> (rowID \<times> row) option) res"
  eCreateIndex :: "txnID \<Rightarrow> string \<Rightarrow> string \<Rightarrow> 's \<Rightarrow> 's \<times> unit res"
  eHasIndex :: "string \<Rightarrow> string \<Rightarrow> 's \<Rightarrow> 's \<times> bool res"
  eSeekIndex :: "txnID \<Rightarrow> string \<Rightarrow> string \<Rightarrow> val \<Rightarrow> 's \<Rightarrow> 's \<times> 'i res"
  eAnalyze :: "txnID \<Rightarrow> string \<Rightarrow> 's \<Rightarrow> 's \<times> unit res"
  eStats :: "string \<Rightarrow> 's \<Rightarrow> 's \<times> tableStats option res"
  eSetValue :: "txnID \<Rightarrow> string \<Rightarrow> rowID \<Rightarrow> nat \<Rightarrow> val \<Rightarrow> 's \<Rightarrow> 's"

section \<open>Operators\<close>

record qualifiedColumn =
  qcTable :: string
  qcName :: string
  qcType :: columnType

type_synonym qualifiedSchema = "qualifiedColumn list"

definition ToCoreSchema :: "qualifiedSchema \<Rightarrow> schema" where
  "ToCoreSchema qs = \<lparr>Columns = map (\<lambda>qc. \<lparr>colName = qcName qc, colType = qcType qc\<rparr>) qs\<rparr>"

definition QualifiedSchema_ColumnIndex :: "qualifiedSchema \<Rightarrow> string \<Rightarrow> string \<Rightarrow> nat res" where
  "QualifiedSchema_ColumnIndex qs table name =
     (let matches = filter (\<lambda>i. qcName (qs ! i) = name \<and> (table = [] \<or> qcTable (qs ! i) = table)) [0..<length qs] in
      case matches of
        [] \<Rightarrow> Inl (Errorf ''column %q not found'' [ArgStr name])
      | i # is \<Rightarrow>
          if is \<noteq> [] \<and> table = []
          then Inl (Errorf ''column %q is ambiguous (found in multiple tables)'' [ArgStr name])
          else Inr i)"

text \<open>Fields of \<open>NestedLoopJoinOp\<close>: left, right, on, schema, leftRow, leftOK, rightRows, rightIndex,
  initialized.  Fields of \<open>IndexedNestedLoopJoinOp\<close>: left, txn, rightTable, rightColumn, leftColumn,
  on, leftSchema, rightSchema, schema, leftRow, rightIter.\<close>

datatype 'i operator =
  ScanOp txnID string 'i qualifiedSchema bool
| FilterOp "'i operator" expr schema
| ProjectOp "'i operator" "expr list" schema bool
| NestedLoopJoinOp "'i operator" "'i operator" expr schema row bool "row list" nat bool
| IndexedNestedLoopJoinOp "'i operator" txnID string string string expr schema schema schema row "'i option"

primrec opSchema :: "'i operator \<Rightarrow> schema" where
  "opSchema (ScanOp txn table it qs closed) = ToCoreSchema qs"
| "opSchema (FilterOp child predicate sch) = sch"
| "opSchema (ProjectOp child exprs sch isStar) = sch"
| "opSchema (NestedLoopJoinOp left right on sch leftRow leftOK rightRows rightIndex initialized) = sch"
| "opSchema (IndexedNestedLoopJoinOp left txn rightTable rightColumn leftColumn on leftSchema rightSchema sch leftRow rightIter) = sch"

text \<open>\<^verbatim>\<open>Close\<close>.  The iterators of both engines return nil from their own \<^verbatim>\<open>Close\<close> and do nothing.\<close>

primrec opClose :: "'i operator \<Rightarrow> 'i operator" where
  "opClose (ScanOp txn table it qs closed) = ScanOp txn table it qs True"
| "opClose (FilterOp child predicate sch) = FilterOp (opClose child) predicate sch"
| "opClose (ProjectOp child exprs sch isStar) = ProjectOp (opClose child) exprs sch isStar"
| "opClose (NestedLoopJoinOp left right on sch leftRow leftOK rightRows rightIndex initialized) =
     NestedLoopJoinOp (opClose left) (opClose right) on sch leftRow leftOK rightRows rightIndex initialized"
| "opClose (IndexedNestedLoopJoinOp left txn rightTable rightColumn leftColumn on leftSchema rightSchema sch leftRow rightIter) =
     IndexedNestedLoopJoinOp (opClose left) txn rightTable rightColumn leftColumn on leftSchema rightSchema sch leftRow None"

definition qualify :: "string \<Rightarrow> schema \<Rightarrow> qualifiedSchema" where
  "qualify table sch = map (\<lambda>col. \<lparr>qcTable = table, qcName = colName col, qcType = colType col\<rparr>) (Columns sch)"

definition NewScanOp :: "('s, 'i) storageEngine \<Rightarrow> txnID \<Rightarrow> string \<Rightarrow> 's \<Rightarrow> 's \<times> 'i operator res" where
  "NewScanOp eng txn table s =
     andThen (eGetSchema eng table s) (\<lambda>schema s.
       case schema of
         None \<Rightarrow> (s, Inl (Errorf ''table %q does not exist'' [ArgStr table]))
       | Some sch \<Rightarrow>
           andThen (wrapped ''scan table %q: %w'' [ArgStr table] (eScan eng txn table s)) (\<lambda>iter s.
             (s, Inr (ScanOp txn table iter (qualify table sch) False))))"

definition NewIndexScanOp ::
    "('s, 'i) storageEngine \<Rightarrow> txnID \<Rightarrow> string \<Rightarrow> string \<Rightarrow> val \<Rightarrow> 's \<Rightarrow> 's \<times> 'i operator res" where
  "NewIndexScanOp eng txn table column key s =
     andThen (eGetSchema eng table s) (\<lambda>schema s.
       case schema of
         None \<Rightarrow> (s, Inl (Errorf ''table %q does not exist'' [ArgStr table]))
       | Some sch \<Rightarrow>
           andThen (wrapped ''seek index %q.%q: %w'' [ArgStr table, ArgStr column] (eSeekIndex eng txn table column key s)) (\<lambda>iter s.
             (s, Inr (ScanOp txn table iter (qualify table sch) False))))"

definition NewFilterOp :: "'i operator \<Rightarrow> expr \<Rightarrow> 'i operator" where
  "NewFilterOp child predicate = FilterOp child predicate (opSchema child)"

text \<open>\<^verbatim>\<open>fmt.Sprintf("expr%d", index+1)\<close> names a computed column.\<close>

fun projectionColumn :: "expr \<Rightarrow> nat \<Rightarrow> schema \<Rightarrow> column res" where
  "projectionColumn (ColumnRef tbl name) index sch =
     (let idx = ColumnIndex sch name in
      if idx < 0 then Inl (Errorf ''column %q does not exist'' [ArgStr name])
      else Inr \<lparr>colName = name, colType = colType (Columns sch ! nat idx)\<rparr>)"
| "projectionColumn (Literal v) index sch = Inr \<lparr>colName = ''expr'' @ dec_int (int index + 1), colType = vType v\<rparr>"
| "projectionColumn (BinaryExpr bop l r) index sch =
     Inr \<lparr>colName = ''expr'' @ dec_int (int index + 1), colType = (if bop = OpAdd \<or> bop = OpSub then TypeInt else TypeBool)\<rparr>"
| "projectionColumn Star index sch = Inl (Errorf ''unsupported projection expression type %T'' [ArgStr ''*core.Star''])"

text \<open>The loops over the expressions of a projection; the index is the one of the first of them.\<close>

fun projectionColumns :: "nat \<Rightarrow> expr list \<Rightarrow> schema \<Rightarrow> column list res" where
  "projectionColumns i [] sch = Inr []"
| "projectionColumns i (e # es) sch =
     (case projectionColumn e i sch of
        Inl err \<Rightarrow> Inl (wrapf ''projection %d: %w'' [ArgInt (int i)] err)
      | Inr col \<Rightarrow> (case projectionColumns (Suc i) es sch of Inl err \<Rightarrow> Inl err | Inr cols \<Rightarrow> Inr (col # cols)))"

fun projectValues :: "nat \<Rightarrow> expr list \<Rightarrow> row \<Rightarrow> schema \<Rightarrow> val list res" where
  "projectValues i [] r sch = Inr []"
| "projectValues i (e # es) r sch =
     (case eval e r sch of
        Inl err \<Rightarrow> Inl (wrapf ''project eval %d: %w'' [ArgInt (int i)] err)
      | Inr v \<Rightarrow> (case projectValues (Suc i) es r sch of Inl err \<Rightarrow> Inl err | Inr vs \<Rightarrow> Inr (v # vs)))"

definition NewProjectOp :: "'i operator \<Rightarrow> expr list \<Rightarrow> 'i operator res" where
  "NewProjectOp child exprs =
     (if exprs = [Star] then Inr (ProjectOp child exprs (opSchema child) True)
      else case projectionColumns 0 exprs (opSchema child) of
          Inl err \<Rightarrow> Inl err
        | Inr cols \<Rightarrow> Inr (ProjectOp child exprs \<lparr>Columns = cols\<rparr> False))"

definition NewNestedLoopJoinOp :: "'i operator \<Rightarrow> 'i operator \<Rightarrow> expr \<Rightarrow> 'i operator" where
  "NewNestedLoopJoinOp left right on =
     NestedLoopJoinOp left right on \<lparr>Columns = Columns (opSchema left) @ Columns (opSchema right)\<rparr> zeroRow False [] 0 False"

definition NewIndexedNestedLoopJoinOp :: "('s, 'i) storageEngine \<Rightarrow> 'i operator \<Rightarrow> txnID \<Rightarrow> string \<Rightarrow> string \<Rightarrow> string \<Rightarrow>
    expr \<Rightarrow> 's \<Rightarrow> 's \<times> 'i operator res" where
  "NewIndexedNestedLoopJoinOp eng left txn rightTable rightColumn leftColumn on s =
     andThen (eGetSchema eng rightTable s) (\<lambda>schema s.
       case schema of
         None \<Rightarrow> (s, Inl (Errorf ''table %q does not exist'' [ArgStr rightTable]))
       | Some rightSchema \<Rightarrow>
           (s, Inr (IndexedNestedLoopJoinOp left txn rightTable rightColumn leftColumn on (opSchema left) rightSchema
             \<lparr>Columns = Columns (opSchema left) @ Columns rightSchema\<rparr> zeroRow None)))"

section \<open>Running operators\<close>

definition combineRows :: "row \<Rightarrow> row \<Rightarrow> row" where
  "combineRows l r = \<lparr>Values = Values l @ Values r, Xmin = 0, Xmax = 0\<rparr>"

text \<open>The inner loop of a nested-loop join, over the right rows that are left; it gives the number of
  rows that it read.\<close>

fun probeRight :: "expr \<Rightarrow> schema \<Rightarrow> row \<Rightarrow> row list \<Rightarrow> (nat \<times> row option) res" where
  "probeRight on sch leftRow [] = Inr (0, None)"
| "probeRight on sch leftRow (r # rs) =
     (case evalWhere (Some on) (combineRows leftRow r) sch of
        Inl err \<Rightarrow> Inl (wrapf ''join condition: %w'' [] err)
      | Inr True \<Rightarrow> Inr (1, Some (combineRows leftRow r))
      | Inr False \<Rightarrow>
          (case probeRight on sch leftRow rs of Inl err \<Rightarrow> Inl err | Inr (n, res) \<Rightarrow> Inr (Suc n, res)))"

text \<open>\<^verbatim>\<open>Next\<close> of the five operators.  A call of another operator's \<^verbatim>\<open>Next\<close>, and the next turn of the
  operator's own loop, go through the argument \<open>nxt\<close>.\<close>

type_synonym ('s, 'i) opStep = "'i operator \<Rightarrow> 's \<Rightarrow> 's \<times> ('i operator \<times> row option) res"

definition ScanOp_Next :: "('s, 'i) storageEngine \<Rightarrow> txnID \<Rightarrow> string \<Rightarrow> 'i \<Rightarrow> qualifiedSchema \<Rightarrow> bool \<Rightarrow> 's \<Rightarrow>
    's \<times> ('i operator \<times> row option) res" where [simp]:
  "ScanOp_Next eng txn table it qs closed s =
     (if closed then (s, Inl (Errorf ''scan is closed'' []))
      else andThen (wrapped ''scan next: %w'' [] (eNext eng it s)) (\<lambda>(it, x) s.
        (s, Inr (ScanOp txn table it qs closed, map_option snd x))))"

definition FilterOp_Next :: "('s, 'i) opStep \<Rightarrow> 'i operator \<Rightarrow> expr \<Rightarrow> schema \<Rightarrow> 's \<Rightarrow> 's \<times> ('i operator \<times> row option) res" where [simp]:
  "FilterOp_Next nxt child predicate sch s =
     andThen (wrapped ''filter next: %w'' [] (nxt child s)) (\<lambda>(child, x) s.
       case x of
         None \<Rightarrow> (s, Inr (FilterOp child predicate sch, None))
       | Some r \<Rightarrow>
           (case evalWhere (Some predicate) r sch of
              Inl err \<Rightarrow> (s, Inl (wrapf ''filter predicate: %w'' [] err))
            | Inr True \<Rightarrow> (s, Inr (FilterOp child predicate sch, Some r))
            | Inr False \<Rightarrow> nxt (FilterOp child predicate sch) s))"

definition ProjectOp_Next :: "('s, 'i) opStep \<Rightarrow> 'i operator \<Rightarrow> expr list \<Rightarrow> schema \<Rightarrow> bool \<Rightarrow> 's \<Rightarrow>
    's \<times> ('i operator \<times> row option) res" where [simp]:
  "ProjectOp_Next nxt child exprs sch isStar s =
     andThen (wrapped ''project next: %w'' [] (nxt child s)) (\<lambda>(child, x) s.
       case x of
         None \<Rightarrow> (s, Inr (ProjectOp child exprs sch isStar, None))
       | Some r \<Rightarrow>
           if isStar then (s, Inr (ProjectOp child exprs sch isStar, Some r))
           else (case projectValues 0 exprs r (opSchema child) of
               Inl err \<Rightarrow> (s, Inl err)
             | Inr vs \<Rightarrow> (s, Inr (ProjectOp child exprs sch isStar, Some \<lparr>Values = vs, Xmin = 0, Xmax = 0\<rparr>))))"

definition NestedLoopJoinOp_Next :: "('s, 'i) opStep \<Rightarrow> ('i operator \<Rightarrow> 's \<Rightarrow> 's \<times> ('i operator \<times> row list) res) \<Rightarrow>
    'i operator \<Rightarrow> 'i operator \<Rightarrow> expr \<Rightarrow> schema \<Rightarrow> row \<Rightarrow> bool \<Rightarrow> row list \<Rightarrow> nat \<Rightarrow> bool \<Rightarrow> 's \<Rightarrow>
    's \<times> ('i operator \<times> row option) res" where [simp]:
  "NestedLoopJoinOp_Next nxt materialize left right on sch leftRow leftOK rightRows rightIndex initialized s =
     (if \<not> initialized then
        andThen (wrapped ''materialize right: %w'' [] (materialize right s)) (\<lambda>(right, rows) s.
          nxt (NestedLoopJoinOp left right on sch leftRow leftOK rows rightIndex True) s)
      else if \<not> leftOK \<or> rightIndex \<ge> length rightRows then
        andThen (wrapped ''left next: %w'' [] (nxt left s)) (\<lambda>(left, x) s.
          case x of
            None \<Rightarrow> (s, Inr (NestedLoopJoinOp left right on sch leftRow leftOK rightRows rightIndex True, None))
          | Some l \<Rightarrow>
              (case probeRight on sch l rightRows of
                 Inl err \<Rightarrow> (s, Inl err)
               | Inr (k, Some r) \<Rightarrow> (s, Inr (NestedLoopJoinOp left right on sch l True rightRows k True, Some r))
               | Inr (k, None) \<Rightarrow> nxt (NestedLoopJoinOp left right on sch l True rightRows k True) s))
      else (case probeRight on sch leftRow (drop rightIndex rightRows) of
          Inl err \<Rightarrow> (s, Inl err)
        | Inr (k, Some r) \<Rightarrow>
            (s, Inr (NestedLoopJoinOp left right on sch leftRow leftOK rightRows (rightIndex + k) True, Some r))
        | Inr (k, None) \<Rightarrow>
            nxt (NestedLoopJoinOp left right on sch leftRow leftOK rightRows (rightIndex + k) True) s))"

definition IndexedNestedLoopJoinOp_Next :: "('s, 'i) storageEngine \<Rightarrow> ('s, 'i) opStep \<Rightarrow>
    'i operator \<Rightarrow> txnID \<Rightarrow> string \<Rightarrow> string \<Rightarrow> string \<Rightarrow> expr \<Rightarrow> schema \<Rightarrow> schema \<Rightarrow> schema \<Rightarrow> row \<Rightarrow> 'i option \<Rightarrow> 's \<Rightarrow>
    's \<times> ('i operator \<times> row option) res" where [simp]:
  "IndexedNestedLoopJoinOp_Next eng nxt left txn rightTable rightColumn leftColumn on leftSchema rightSchema sch leftRow rightIter s =
     (case rightIter of
        None \<Rightarrow>
          andThen (wrapped ''left next: %w'' [] (nxt left s)) (\<lambda>(left, x) s.
            case x of
              None \<Rightarrow> (s, Inr (IndexedNestedLoopJoinOp left txn rightTable rightColumn leftColumn on leftSchema rightSchema sch leftRow None, None))
            | Some l \<Rightarrow>
                (case eval (ColumnRef [] leftColumn) l leftSchema of
                   Inl err \<Rightarrow> (s, Inl (wrapf ''left key: %w'' [] err))
                 | Inr key \<Rightarrow>
                     andThen (wrapped ''seek right index %q.%q: %w'' [ArgStr rightTable, ArgStr rightColumn]
                         (eSeekIndex eng txn rightTable rightColumn key s)) (\<lambda>iter s.
                       nxt (IndexedNestedLoopJoinOp left txn rightTable rightColumn leftColumn on leftSchema rightSchema sch l (Some iter)) s)))
      | Some iter \<Rightarrow>
          andThen (wrapped ''right index next: %w'' [] (eNext eng iter s)) (\<lambda>(iter, x) s.
            case x of
              None \<Rightarrow> nxt (IndexedNestedLoopJoinOp left txn rightTable rightColumn leftColumn on leftSchema rightSchema sch leftRow None) s
            | Some (_, r) \<Rightarrow>
                (case evalWhere (Some on) (combineRows leftRow r) sch of
                   Inl err \<Rightarrow> (s, Inl (wrapf ''join condition: %w'' [] err))
                 | Inr True \<Rightarrow>
                     (s, Inr (IndexedNestedLoopJoinOp left txn rightTable rightColumn leftColumn on leftSchema rightSchema sch leftRow (Some iter),
                        Some (combineRows leftRow r)))
                 | Inr False \<Rightarrow>
                     nxt (IndexedNestedLoopJoinOp left txn rightTable rightColumn leftColumn on leftSchema rightSchema sch leftRow (Some iter)) s)))"

text \<open>The dispatch to the operators, and the loop of \<^verbatim>\<open>materializeRight\<close>.  The fuel bounds the nesting of
  calls and the turns of the loops together.\<close>

fun opNext :: "('s, 'i) storageEngine \<Rightarrow> nat \<Rightarrow> ('s, 'i) opStep"
  and materializeRight :: "('s, 'i) storageEngine \<Rightarrow> nat \<Rightarrow> 'i operator \<Rightarrow> 's \<Rightarrow> 's \<times> ('i operator \<times> row list) res" where
  "opNext eng 0 oper s = (s, Inl Diverges)"
| "opNext eng (Suc n) (ScanOp txn table it qs closed) s = ScanOp_Next eng txn table it qs closed s"
| "opNext eng (Suc n) (FilterOp child predicate sch) s = FilterOp_Next (\<lambda>x s. opNext eng n x s) child predicate sch s"
| "opNext eng (Suc n) (ProjectOp child exprs sch isStar) s = ProjectOp_Next (\<lambda>x s. opNext eng n x s) child exprs sch isStar s"
| "opNext eng (Suc n) (NestedLoopJoinOp left right on sch leftRow leftOK rightRows rightIndex initialized) s =
     NestedLoopJoinOp_Next (\<lambda>x s. opNext eng n x s) (\<lambda>x s. materializeRight eng n x s)
       left right on sch leftRow leftOK rightRows rightIndex initialized s"
| "opNext eng (Suc n) (IndexedNestedLoopJoinOp left txn rightTable rightColumn leftColumn on leftSchema rightSchema sch leftRow rightIter) s =
     IndexedNestedLoopJoinOp_Next eng (\<lambda>x s. opNext eng n x s)
       left txn rightTable rightColumn leftColumn on leftSchema rightSchema sch leftRow rightIter s"
| "materializeRight eng 0 right s = (s, Inl Diverges)"
| "materializeRight eng (Suc n) right s =
     andThen (wrapped ''right scan: %w'' [] (opNext eng n right s)) (\<lambda>(right, x) s.
       case x of
         None \<Rightarrow> (s, Inr (right, []))
       | Some r \<Rightarrow>
           andThen (materializeRight eng n right s) (\<lambda>(right, rows) s. (s, Inr (right, r # rows))))"

section \<open>Statements\<close>

definition emptyResult :: sqlResult where
  "emptyResult = \<lparr>resSchema = \<lparr>Columns = []\<rparr>, resRows = [], RowsAffected = 0\<rparr>"

definition executeCreateTable :: "('s, 'i) storageEngine \<Rightarrow> txnID \<Rightarrow> string \<Rightarrow> column list \<Rightarrow> 's \<Rightarrow> 's \<times> sqlResult res" where
  "executeCreateTable eng txn table columns s =
     andThen (wrapped ''create table %q: %w'' [ArgStr table] (eCreateTable eng txn table \<lparr>Columns = columns\<rparr> s))
       (\<lambda>_ s. (s, Inr emptyResult))"

definition executeCreateIndex :: "('s, 'i) storageEngine \<Rightarrow> txnID \<Rightarrow> string \<Rightarrow> string \<Rightarrow> 's \<Rightarrow> 's \<times> sqlResult res" where
  "executeCreateIndex eng txn table column s =
     andThen (wrapped ''create index on %q.%q: %w'' [ArgStr table, ArgStr column] (eCreateIndex eng txn table column s))
       (\<lambda>_ s. (s, Inr emptyResult))"

text \<open>The loop of \<^verbatim>\<open>executeInsert\<close> over the expressions and the columns.\<close>

fun insertValues :: "string \<Rightarrow> expr list \<Rightarrow> column list \<Rightarrow> val list res" where
  "insertValues table (e # es) (col # cols) =
     (case eval e zeroRow \<lparr>Columns = []\<rparr> of
        Inl err \<Rightarrow> Inl (wrapf ''insert into %q value for column %q: %w'' [ArgStr table, ArgStr (colName col)] err)
      | Inr v \<Rightarrow>
          if \<not> vNull v \<and> vType v \<noteq> colType col then
            Inl (Errorf ''insert into %q column %q expects %s, got %s''
              [ArgStr table, ArgStr (colName col), ArgStr (ColumnType_String (colType col)), ArgStr (ColumnType_String (vType v))])
          else (case insertValues table es cols of Inl err \<Rightarrow> Inl err | Inr vs \<Rightarrow> Inr (v # vs)))"
| "insertValues table _ _ = Inr []"

definition executeInsert :: "('s, 'i) storageEngine \<Rightarrow> txnID \<Rightarrow> string \<Rightarrow> expr list \<Rightarrow> 's \<Rightarrow> 's \<times> sqlResult res" where
  "executeInsert eng txn table exprs s =
     andThen (eGetSchema eng table s) (\<lambda>schema s.
       case schema of
         None \<Rightarrow> (s, Inl (Errorf ''table %q does not exist'' [ArgStr table]))
       | Some sch \<Rightarrow>
           if length exprs \<noteq> length (Columns sch) then
             (s, Inl (Errorf ''insert into %q has %d values for %d columns''
               [ArgStr table, ArgInt (int (length exprs)), ArgInt (int (length (Columns sch)))]))
           else (case insertValues table exprs (Columns sch) of
               Inl err \<Rightarrow> (s, Inl err)
             | Inr values \<Rightarrow>
                 andThen (wrapped ''insert into %q: %w'' [ArgStr table] (eInsert eng txn table \<lparr>Values = values, Xmin = 0, Xmax = 0\<rparr> s))
                   (\<lambda>_ s. (s, Inr (emptyResult\<lparr>RowsAffected := 1\<rparr>)))))"

text \<open>The loop of \<^verbatim>\<open>findIndexedEquality\<close>: terms already passed, terms to come.\<close>

fun findIndexedEquality_loop :: "('s, 'i) storageEngine \<Rightarrow> string \<Rightarrow> expr list \<Rightarrow> expr list \<Rightarrow> 's \<Rightarrow>
    's \<times> (indexedEquality \<times> expr option) option res" where
  "findIndexedEquality_loop eng table earlier [] s = (s, Inr None)"
| "findIndexedEquality_loop eng table earlier (t # ts) s =
     (case equalityColumnLiteral t table of
        None \<Rightarrow> findIndexedEquality_loop eng table (earlier @ [t]) ts s
      | Some equality \<Rightarrow>
          andThen (eHasIndex eng table (ieColumn equality) s) (\<lambda>has s.
            if has then (s, Inr (Some (equality, combineAndTerms (earlier @ ts))))
            else findIndexedEquality_loop eng table (earlier @ [t]) ts s))"

definition findIndexedEquality :: "('s, 'i) storageEngine \<Rightarrow> string \<Rightarrow> expr option \<Rightarrow> 's \<Rightarrow>
    's \<times> (indexedEquality option \<times> expr option) res" where
  "findIndexedEquality eng table w s =
     (case w of
        None \<Rightarrow> (s, Inr (None, None))
      | Some e \<Rightarrow>
          andThen (findIndexedEquality_loop eng table [] (splitAndTerms e) s) (\<lambda>found s.
            case found of
              None \<Rightarrow> (s, Inr (None, w))
            | Some (equality, remaining) \<Rightarrow> (s, Inr (Some equality, remaining))))"

definition buildBaseAccessPath :: "('s, 'i) storageEngine \<Rightarrow> txnID \<Rightarrow> string \<Rightarrow> expr option \<Rightarrow> 's \<Rightarrow>
    's \<times> ('i operator \<times> expr option) res" where
  "buildBaseAccessPath eng txn table w s =
     andThen (findIndexedEquality eng table w s) (\<lambda>(indexed, remaining) s.
       case indexed of
         Some equality \<Rightarrow>
           andThen (NewIndexScanOp eng txn table (ieColumn equality) (ieValue equality) s) (\<lambda>scan s. (s, Inr (scan, remaining)))
       | None \<Rightarrow> andThen (NewScanOp eng txn table s) (\<lambda>scan s. (s, Inr (scan, w))))"

record indexedJoin =
  ijLeftColumn :: string
  ijRightColumn :: string

definition columnBelongsToSchema :: "string \<Rightarrow> string \<Rightarrow> schema \<Rightarrow> string \<Rightarrow> bool" where
  "columnBelongsToSchema colTable name sch table =
     (\<not> (table \<noteq> [] \<and> colTable \<noteq> [] \<and> colTable \<noteq> table) \<and> ColumnIndex sch name \<ge> 0)"

fun joinColumnsForIndex :: "('s, 'i) storageEngine \<Rightarrow> schema \<Rightarrow> schema \<Rightarrow> string \<Rightarrow> expr \<Rightarrow> expr \<Rightarrow> 's \<Rightarrow>
    's \<times> indexedJoin option res" where
  "joinColumnsForIndex eng leftSchema rightSchema rightTable (ColumnRef ltbl lname) (ColumnRef rtbl rname) s =
     (if \<not> columnBelongsToSchema ltbl lname leftSchema [] then (s, Inr None)
      else if \<not> columnBelongsToSchema rtbl rname rightSchema rightTable then (s, Inr None)
      else andThen (eHasIndex eng rightTable rname s) (\<lambda>has s.
        (s, Inr (if has then Some \<lparr>ijLeftColumn = lname, ijRightColumn = rname\<rparr> else None))))"
| "joinColumnsForIndex eng leftSchema rightSchema rightTable _ _ s = (s, Inr None)"

fun indexedJoinEquality :: "('s, 'i) storageEngine \<Rightarrow> schema \<Rightarrow> string \<Rightarrow> expr \<Rightarrow> 's \<Rightarrow> 's \<times> indexedJoin option res" where
  "indexedJoinEquality eng leftSchema rightTable (BinaryExpr OpEq l r) s =
     andThen (eGetSchema eng rightTable s) (\<lambda>schema s.
       case schema of
         None \<Rightarrow> (s, Inr None)
       | Some rightSchema \<Rightarrow>
           andThen (joinColumnsForIndex eng leftSchema rightSchema rightTable l r s) (\<lambda>indexed s.
             case indexed of
               Some ij \<Rightarrow> (s, Inr (Some ij))
             | None \<Rightarrow> joinColumnsForIndex eng leftSchema rightSchema rightTable r l s))"
| "indexedJoinEquality eng leftSchema rightTable _ s = (s, Inr None)"

definition buildJoinPlan :: "('s, 'i) storageEngine \<Rightarrow> txnID \<Rightarrow> 'i operator \<Rightarrow> joinClause \<Rightarrow> 's \<Rightarrow> 's \<times> 'i operator res" where
  "buildJoinPlan eng txn left join s =
     andThen (indexedJoinEquality eng (opSchema left) (joinTable join) (joinOn join) s) (\<lambda>indexed s.
       case indexed of
         Some ij \<Rightarrow>
           wrapped ''create indexed join: %w'' []
             (NewIndexedNestedLoopJoinOp eng left txn (joinTable join) (ijRightColumn ij) (ijLeftColumn ij) (joinOn join) s)
       | None \<Rightarrow>
           andThen (wrapped ''join table %q: %w'' [ArgStr (joinTable join)] (NewScanOp eng txn (joinTable join) s)) (\<lambda>rightScan s.
             (s, Inr (NewNestedLoopJoinOp left rightScan (joinOn join)))))"

fun buildJoins :: "('s, 'i) storageEngine \<Rightarrow> txnID \<Rightarrow> 'i operator \<Rightarrow> joinClause list \<Rightarrow> 's \<Rightarrow> 's \<times> 'i operator res" where
  "buildJoins eng txn root [] s = (s, Inr root)"
| "buildJoins eng txn root (j # js) s =
     andThen (buildJoinPlan eng txn root j s) (\<lambda>root s. buildJoins eng txn root js s)"

definition buildSelectPlan :: "('s, 'i) storageEngine \<Rightarrow> txnID \<Rightarrow> expr list \<Rightarrow> string \<Rightarrow> joinClause list \<Rightarrow> expr option \<Rightarrow> 's \<Rightarrow>
    's \<times> 'i operator res" where
  "buildSelectPlan eng txn projection from joins w s =
     andThen (buildBaseAccessPath eng txn from w s) (\<lambda>(root, remainingWhere) s.
       andThen (buildJoins eng txn root joins s) (\<lambda>root s.
         let root = (case remainingWhere of None \<Rightarrow> root | Some p \<Rightarrow> NewFilterOp root p) in
         case NewProjectOp root projection of
           Inl err \<Rightarrow> (s, Inl (wrapf ''create projection: %w'' [] err))
         | Inr project \<Rightarrow> (s, Inr project)))"

fun drainPlan :: "('s, 'i) storageEngine \<Rightarrow> nat \<Rightarrow> 'i operator \<Rightarrow> 's \<Rightarrow> 's \<times> row list res" where
  "drainPlan eng 0 root s = (s, Inl Diverges)"
| "drainPlan eng (Suc n) root s =
     andThen (wrapped ''execute plan: %w'' [] (opNext eng n root s)) (\<lambda>(root, x) s.
       case x of
         None \<Rightarrow> (s, Inr [])
       | Some r \<Rightarrow> andThen (drainPlan eng n root s) (\<lambda>rows s. (s, Inr (r # rows))))"

definition executeSelect :: "('s, 'i) storageEngine \<Rightarrow> nat \<Rightarrow> txnID \<Rightarrow> expr list \<Rightarrow> string \<Rightarrow> joinClause list \<Rightarrow> expr option \<Rightarrow> 's \<Rightarrow>
    's \<times> sqlResult res" where
  "executeSelect eng n txn projection from joins w s =
     andThen (wrapped ''build plan for %q: %w'' [ArgStr from] (buildSelectPlan eng txn projection from joins w s)) (\<lambda>root s.
       andThen (drainPlan eng n root s) (\<lambda>rows s.
         (s, Inr \<lparr>resSchema = opSchema root, resRows = rows, RowsAffected = 0\<rparr>)))"

text \<open>Phase 1 of \<^verbatim>\<open>executeUpdate\<close> and \<^verbatim>\<open>executeDelete\<close>: the rows of the table that the condition selects.\<close>

fun matchingRows :: "('s, 'i) storageEngine \<Rightarrow> nat \<Rightarrow> 'i \<Rightarrow> expr option \<Rightarrow> schema \<Rightarrow> 's \<Rightarrow> 's \<times> (rowID \<times> row) list res" where
  "matchingRows eng 0 it w sch s = (s, Inl Diverges)"
| "matchingRows eng (Suc n) it w sch s =
     andThen (wrapped ''scan next: %w'' [] (eNext eng it s)) (\<lambda>(it, x) s.
       case x of
         None \<Rightarrow> (s, Inr [])
       | Some (rid, r) \<Rightarrow>
           (case evalWhere w r sch of
              Inl err \<Rightarrow> (s, Inl (wrapf ''where clause: %w'' [] err))
            | Inr True \<Rightarrow> andThen (matchingRows eng n it w sch s) (\<lambda>rows s. (s, Inr ((rid, r) # rows)))
            | Inr False \<Rightarrow> matchingRows eng n it w sch s))"

text \<open>The assignments write into the \<^verbatim>\<open>Values\<close> slice of the row they read from, so that each of them
  sees the ones before it.\<close>

fun applyUpdateAssignments :: "('s, 'i) storageEngine \<Rightarrow> txnID \<Rightarrow> string \<Rightarrow> rowID \<Rightarrow> assignment list \<Rightarrow> row \<Rightarrow> schema \<Rightarrow> 's \<Rightarrow>
    's \<times> row res" where
  "applyUpdateAssignments eng txn table rid [] r sch s = (s, Inr r)"
| "applyUpdateAssignments eng txn table rid (a # as) r sch s =
     (let idx = ColumnIndex sch (asgColumn a) in
      if idx < 0 then (s, Inl (Errorf ''column %q does not exist'' [ArgStr (asgColumn a)]))
      else case eval (asgValue a) r sch of
          Inl err \<Rightarrow> (s, Inl (wrapf ''evaluate assignment for %q: %w'' [ArgStr (asgColumn a)] err))
        | Inr v \<Rightarrow>
            if \<not> vNull v \<and> vType v \<noteq> colType (Columns sch ! nat idx) then
              (s, Inl (Errorf ''type mismatch for column %q: expected %s, got %s''
                [ArgStr (asgColumn a), ArgStr (ColumnType_String (colType (Columns sch ! nat idx))), ArgStr (ColumnType_String (vType v))]))
            else if nat idx \<ge> length (Values r) then (s, Inl (Panic ''index out of range''))
            else applyUpdateAssignments eng txn table rid as (r\<lparr>Values := (Values r)[nat idx := v]\<rparr>) sch
              (eSetValue eng txn table rid (nat idx) v s))"

text \<open>Phase 2; the number is the position in the list of the materialized rows.\<close>

fun updateRows :: "('s, 'i) storageEngine \<Rightarrow> txnID \<Rightarrow> string \<Rightarrow> assignment list \<Rightarrow> schema \<Rightarrow> nat \<Rightarrow> (rowID \<times> row) list \<Rightarrow> 's \<Rightarrow>
    's \<times> unit res" where
  "updateRows eng txn table sets sch i [] s = (s, Inr ())"
| "updateRows eng txn table sets sch i ((rid, r) # rows) s =
     andThen (wrapped ''apply assignments for row %d: %w'' [ArgInt (int i)]
         (applyUpdateAssignments eng txn table rid sets r sch s)) (\<lambda>newRow s.
       andThen (wrapped ''update row %d: %w'' [ArgInt (int i)] (eUpdate eng txn table rid newRow s)) (\<lambda>_ s.
         updateRows eng txn table sets sch (Suc i) rows s))"

definition executeUpdate :: "('s, 'i) storageEngine \<Rightarrow> nat \<Rightarrow> txnID \<Rightarrow> string \<Rightarrow> assignment list \<Rightarrow> expr option \<Rightarrow> 's \<Rightarrow>
    's \<times> sqlResult res" where
  "executeUpdate eng n txn table sets w s =
     andThen (eGetSchema eng table s) (\<lambda>schema s.
       case schema of
         None \<Rightarrow> (s, Inl (Errorf ''table %q does not exist'' [ArgStr table]))
       | Some sch \<Rightarrow>
           andThen (wrapped ''scan table %q: %w'' [ArgStr table] (eScan eng txn table s)) (\<lambda>it s.
             andThen (matchingRows eng n it w sch s) (\<lambda>rows s.
               andThen (updateRows eng txn table sets sch 0 rows s) (\<lambda>_ s.
                 (s, Inr (emptyResult\<lparr>RowsAffected := length rows\<rparr>))))))"

fun deleteRows :: "('s, 'i) storageEngine \<Rightarrow> txnID \<Rightarrow> string \<Rightarrow> rowID list \<Rightarrow> 's \<Rightarrow> 's \<times> unit res" where
  "deleteRows eng txn table [] s = (s, Inr ())"
| "deleteRows eng txn table (rid # rids) s =
     andThen (wrapped ''delete row %d: %w'' [ArgInt (uint rid)] (eDelete eng txn table rid s)) (\<lambda>_ s.
       deleteRows eng txn table rids s)"

definition executeDelete :: "('s, 'i) storageEngine \<Rightarrow> nat \<Rightarrow> txnID \<Rightarrow> string \<Rightarrow> expr option \<Rightarrow> 's \<Rightarrow> 's \<times> sqlResult res" where
  "executeDelete eng n txn table w s =
     andThen (eGetSchema eng table s) (\<lambda>schema s.
       case schema of
         None \<Rightarrow> (s, Inl (Errorf ''table %q does not exist'' [ArgStr table]))
       | Some sch \<Rightarrow>
           andThen (wrapped ''scan table %q: %w'' [ArgStr table] (eScan eng txn table s)) (\<lambda>it s.
             andThen (matchingRows eng n it w sch s) (\<lambda>rows s.
               andThen (deleteRows eng txn table (map fst rows) s) (\<lambda>_ s.
                 (s, Inr (emptyResult\<lparr>RowsAffected := length rows\<rparr>))))))"

text \<open>The Go type of a statement, which the last error message of \<^verbatim>\<open>Execute\<close> prints.\<close>

fun stmt_type :: "stmt \<Rightarrow> string" where
  "stmt_type (CreateTableStmt _ _) = ''*core.CreateTableStmt''"
| "stmt_type (CreateIndexStmt _ _ _) = ''*core.CreateIndexStmt''"
| "stmt_type (InsertStmt _ _) = ''*core.InsertStmt''"
| "stmt_type (SelectStmt _ _ _ _ _) = ''*core.SelectStmt''"
| "stmt_type (UpdateStmt _ _ _) = ''*core.UpdateStmt''"
| "stmt_type (DeleteStmt _ _) = ''*core.DeleteStmt''"
| "stmt_type BeginStmt = ''*core.BeginStmt''"
| "stmt_type CommitStmt = ''*core.CommitStmt''"
| "stmt_type RollbackStmt = ''*core.RollbackStmt''"
| "stmt_type (ExplainStmt _) = ''*core.ExplainStmt''"
| "stmt_type (AnalyzeStmt _) = ''*core.AnalyzeStmt''"

text \<open>A nil engine, transaction or statement is \<open>None\<close>.\<close>

definition Execute :: "nat \<Rightarrow> ('s, 'i) storageEngine option \<Rightarrow> txnID option \<Rightarrow> stmt option \<Rightarrow> 's \<Rightarrow> 's \<times> sqlResult res" where
  "Execute n engo txno stmto s =
     (case engo of None \<Rightarrow> (s, Inl (Errorf ''storage engine is nil'' [])) | Some eng \<Rightarrow>
      case txno of None \<Rightarrow> (s, Inl (Errorf ''transaction is nil'' [])) | Some txn \<Rightarrow>
      case stmto of None \<Rightarrow> (s, Inl (Errorf ''statement is nil'' [])) | Some stmt \<Rightarrow>
      case stmt of
        CreateTableStmt table columns \<Rightarrow> executeCreateTable eng txn table columns s
      | CreateIndexStmt name table column \<Rightarrow> executeCreateIndex eng txn table column s
      | InsertStmt table values \<Rightarrow> executeInsert eng txn table values s
      | SelectStmt projection from alias joins w \<Rightarrow> executeSelect eng n txn projection from joins w s
      | UpdateStmt table sets w \<Rightarrow> executeUpdate eng n txn table sets w s
      | DeleteStmt table w \<Rightarrow> executeDelete eng n txn table w s
      | _ \<Rightarrow> (s, Inl (Errorf ''unsupported statement type %T'' [ArgStr (stmt_type stmt)])))"

end
