(* ===== verification/Plans.thy ===== *)
theory Plans
  imports Executor
begin

text \<open>
  What query plans compute.  Every operator stands for a list of rows and errors (\<open>opStream\<close>), a
  function of the rows that its iterators have still to return.  The locale \<open>storage_reads\<close> states what
  an engine promises to a client that only reads; over any such engine a plan with enough fuel
  delivers its list, element by element, ends, and leaves everything but caches as it was.  A query
  without an index is \<open>selectRows\<close>: joins, filter and projection over the rows of the tables.
\<close>

section \<open>Enough fuel\<close>

definition enough :: "(nat \<Rightarrow> bool) \<Rightarrow> bool" where
  "enough P \<longleftrightarrow> (\<exists>N. \<forall>n\<ge>N. P n)"

lemma enough_const [simp]: "enough (\<lambda>n. P) \<longleftrightarrow> P"
  by (auto simp: enough_def)

lemma enough_conj: "enough P \<Longrightarrow> enough Q \<Longrightarrow> enough (\<lambda>n. P n \<and> Q n)"
  unfolding enough_def by (metis le_trans linorder_linear)

lemma enough_mono: "enough P \<Longrightarrow> (\<And>n. P n \<Longrightarrow> Q n) \<Longrightarrow> enough Q"
  unfolding enough_def by blast

lemma enough_mono2: "enough P \<Longrightarrow> enough Q \<Longrightarrow> (\<And>n. P n \<Longrightarrow> Q n \<Longrightarrow> R n) \<Longrightarrow> enough R"
  using enough_conj [of P Q] enough_mono by (metis (mono_tags, lifting))

lemma enough_Suc: "enough (\<lambda>n. P (Suc n)) \<Longrightarrow> enough P"
  unfolding enough_def by (metis Suc_le_D Suc_le_mono)

lemma enough_SucI: "enough P \<Longrightarrow> (\<And>n. P n \<Longrightarrow> Q (Suc n)) \<Longrightarrow> enough Q"
  by (rule enough_Suc) (rule enough_mono)

section \<open>The rows of a plan\<close>

text \<open>The rows that an operator has still to deliver, with the errors that stop it in their places:
  a client sees the list up to its first error.  \<open>pend\<close> gives the rows that an iterator has still to
  return and \<open>seek\<close> the rows of an index lookup.\<close>

definition filterStream :: "expr \<Rightarrow> schema \<Rightarrow> row res list \<Rightarrow> row res list" where
  "filterStream p sch xs = concat (map (\<lambda>x. case x of
       Inl e \<Rightarrow> [Inl (wrapf ''filter next: %w'' [] e)]
     | Inr r \<Rightarrow> (case evalWhere (Some p) r sch of
         Inl e \<Rightarrow> [Inl (wrapf ''filter predicate: %w'' [] e)]
       | Inr b \<Rightarrow> if b then [Inr r] else [])) xs)"

definition projectStream :: "expr list \<Rightarrow> schema \<Rightarrow> bool \<Rightarrow> row res list \<Rightarrow> row res list" where
  "projectStream exprs sch isStar xs = map (\<lambda>x. case x of
       Inl e \<Rightarrow> Inl (wrapf ''project next: %w'' [] e)
     | Inr r \<Rightarrow> if isStar then Inr r
         else map_sum id (\<lambda>vs. \<lparr>Values = vs, Xmin = 0, Xmax = 0\<rparr>) (projectValues 0 exprs r sch)) xs"

definition joinRow :: "expr \<Rightarrow> schema \<Rightarrow> row \<Rightarrow> row list \<Rightarrow> row res list" where
  "joinRow on sch l rs = concat (map (\<lambda>r. case evalWhere (Some on) (combineRows l r) sch of
       Inl e \<Rightarrow> [Inl (wrapf ''join condition: %w'' [] e)]
     | Inr b \<Rightarrow> if b then [Inr (combineRows l r)] else []) rs)"

definition joinStream :: "(row \<Rightarrow> row res list) \<Rightarrow> row res list \<Rightarrow> row res list" where
  "joinStream f ls = concat (map (\<lambda>x. case x of Inl e \<Rightarrow> [Inl (wrapf ''left next: %w'' [] e)] | Inr l \<Rightarrow> f l) ls)"

definition seekJoin :: "(val \<Rightarrow> row list) \<Rightarrow> string \<Rightarrow> expr \<Rightarrow> schema \<Rightarrow> schema \<Rightarrow> row \<Rightarrow> row res list" where
  "seekJoin seek col on lsch sch l =
     (case eval (ColumnRef [] col) l lsch of
        Inl e \<Rightarrow> [Inl (wrapf ''left key: %w'' [] e)]
      | Inr key \<Rightarrow> joinRow on sch l (seek key))"

definition collect :: "row res list \<Rightarrow> row list res" where
  "collect xs = map_res (\<lambda>x. x) xs"

lemma collect_simps [simp]:
  "collect [] = Inr []" "collect (Inl e # xs) = Inl e"
  "collect (Inr r # xs) = (case collect xs of Inl e \<Rightarrow> Inl e | Inr rs \<Rightarrow> Inr (r # rs))"
  by (simp_all add: collect_def)

primrec opStream :: "('i \<Rightarrow> row list) \<Rightarrow> (txnID \<Rightarrow> string \<Rightarrow> string \<Rightarrow> val \<Rightarrow> row list) \<Rightarrow> 'i operator \<Rightarrow> row res list" where
  "opStream pend seek (ScanOp txn table it qs closed) =
     (if closed then [Inl (Errorf ''scan is closed'' [])] else map Inr (pend it))"
| "opStream pend seek (FilterOp child p sch) = filterStream p sch (opStream pend seek child)"
| "opStream pend seek (ProjectOp child exprs sch isStar) = projectStream exprs (opSchema child) isStar (opStream pend seek child)"
| "opStream pend seek (NestedLoopJoinOp left right on sch leftRow leftOK rightRows i initialized) =
     (case (if initialized then Inr rightRows else collect (opStream pend seek right)) of
        Inl e \<Rightarrow> [Inl (wrapf ''materialize right: %w'' [] (wrapf ''right scan: %w'' [] e))]
      | Inr rows \<Rightarrow>
          (if leftOK then joinRow on sch leftRow (drop i rows) else []) @
          joinStream (\<lambda>l. joinRow on sch l rows) (opStream pend seek left))"
| "opStream pend seek (IndexedNestedLoopJoinOp left txn rt rc lc on lsch rsch sch leftRow iter) =
     (case iter of None \<Rightarrow> [] | Some it \<Rightarrow> joinRow on sch leftRow (pend it)) @
     joinStream (seekJoin (seek txn rt rc) lc on lsch sch) (opStream pend seek left)"

primrec opDepth :: "'i operator \<Rightarrow> nat" where
  "opDepth (ScanOp txn table it qs closed) = 0"
| "opDepth (FilterOp child p sch) = Suc (opDepth child)"
| "opDepth (ProjectOp child exprs sch isStar) = Suc (opDepth child)"
| "opDepth (NestedLoopJoinOp left right on sch leftRow leftOK rightRows i initialized) = Suc (max (opDepth left) (opDepth right))"
| "opDepth (IndexedNestedLoopJoinOp left txn rt rc lc on lsch rsch sch leftRow iter) = Suc (opDepth left)"

primrec opOk :: "('i \<Rightarrow> bool) \<Rightarrow> (txnID \<Rightarrow> string \<Rightarrow> string \<Rightarrow> bool) \<Rightarrow> 'i operator \<Rightarrow> bool" where
  "opOk live seekable (ScanOp txn table it qs closed) = live it"
| "opOk live seekable (FilterOp child p sch) = opOk live seekable child"
| "opOk live seekable (ProjectOp child exprs sch isStar) = opOk live seekable child"
| "opOk live seekable (NestedLoopJoinOp left right on sch leftRow leftOK rightRows i initialized) =
     (opOk live seekable left \<and> opOk live seekable right)"
| "opOk live seekable (IndexedNestedLoopJoinOp left txn rt rc lc on lsch rsch sch leftRow iter) =
     (opOk live seekable left \<and> seekable txn rt rc \<and> (case iter of None \<Rightarrow> True | Some it \<Rightarrow> live it))"

lemma stream_simps [simp]:
  "filterStream p sch [] = []"
  "filterStream p sch (x # xs) = (case x of
       Inl e \<Rightarrow> [Inl (wrapf ''filter next: %w'' [] e)]
     | Inr r \<Rightarrow> (case evalWhere (Some p) r sch of
         Inl e \<Rightarrow> [Inl (wrapf ''filter predicate: %w'' [] e)]
       | Inr b \<Rightarrow> if b then [Inr r] else [])) @ filterStream p sch xs"
  "joinRow on sch l [] = []"
  "joinRow on sch l (r # rs) = (case evalWhere (Some on) (combineRows l r) sch of
       Inl e \<Rightarrow> [Inl (wrapf ''join condition: %w'' [] e)]
     | Inr b \<Rightarrow> if b then [Inr (combineRows l r)] else []) @ joinRow on sch l rs"
  "joinStream f [] = []"
  "joinStream f (x # xs) = (case x of Inl e \<Rightarrow> [Inl (wrapf ''left next: %w'' [] e)] | Inr l \<Rightarrow> f l) @ joinStream f xs"
  by (simp_all add: filterStream_def joinRow_def joinStream_def)

text \<open>What the inner loop of a join finds.\<close>

lemma probeRight_joinRow:
  "case joinRow on sch l rs of
     [] \<Rightarrow> probeRight on sch l rs = Inr (length rs, None)
   | Inl e # _ \<Rightarrow> probeRight on sch l rs = Inl e
   | Inr r # ys \<Rightarrow> \<exists>k. probeRight on sch l rs = Inr (k, Some r) \<and> ys = joinRow on sch l (drop k rs)"
proof (induction rs)
  case (Cons r rs)
  show ?case
  proof (cases "evalWhere (Some on) (combineRows l r) sch")
    case (Inr b)
    show ?thesis
    proof (cases b)
      case False
      with Cons Inr show ?thesis by (auto split: list.splits sum.splits intro: exI [of _ "Suc _"])
    qed (use Inr in \<open>auto intro: exI [of _ "Suc 0"]\<close>)
  qed simp
qed simp

section \<open>Queries over tables\<close>

text \<open>What a query without an index computes: the rows of the first table, joined with the other tables
  one after the other, filtered, and projected.\<close>

fun joinTables :: "(string \<Rightarrow> schema) \<Rightarrow> (string \<Rightarrow> row list) \<Rightarrow> joinClause list \<Rightarrow> schema \<Rightarrow> row res list \<Rightarrow> schema \<times> row res list" where
  "joinTables sch rows [] S xs = (S, xs)"
| "joinTables sch rows (j # js) S xs =
     (let S' = \<lparr>Columns = Columns S @ Columns (sch (joinTable j))\<rparr>
      in joinTables sch rows js S' (joinStream (\<lambda>l. joinRow (joinOn j) S' l (rows (joinTable j))) xs))"

definition whereRows :: "expr option \<Rightarrow> schema \<Rightarrow> row res list \<Rightarrow> row res list" where
  "whereRows w S xs = (case w of None \<Rightarrow> xs | Some p \<Rightarrow> filterStream p S xs)"

definition projectRows :: "string \<Rightarrow> expr list \<Rightarrow> schema \<Rightarrow> row res list \<Rightarrow> sqlResult res" where
  "projectRows from es S xs =
     (case (if es = [Star] then Inr (Columns S) else projectionColumns 0 es S) of
        Inl err \<Rightarrow> Inl (wrapf ''build plan for %q: %w'' [ArgStr from] (wrapf ''create projection: %w'' [] err))
      | Inr cols \<Rightarrow> map_sum (wrapf ''execute plan: %w'' [])
          (\<lambda>rows. \<lparr>resSchema = \<lparr>Columns = cols\<rparr>, resRows = rows, RowsAffected = 0\<rparr>)
          (collect (projectStream es S (es = [Star]) xs)))"

definition selectRows :: "(string \<Rightarrow> schema) \<Rightarrow> (string \<Rightarrow> row list) \<Rightarrow> expr list \<Rightarrow> string \<Rightarrow> joinClause list \<Rightarrow> expr option \<Rightarrow> sqlResult res" where
  "selectRows sch rows es from joins w =
     (case joinTables sch rows joins (sch from) (map Inr (rows from)) of (S, xs) \<Rightarrow> projectRows from es S (whereRows w S xs))"

lemma andThen_map_sum: "andThen (s, map_sum f (\<lambda>x. x) r) (\<lambda>x s. (s, Inr (g x))) = (s, map_sum f g r)"
  by (cases r) simp_all

lemma qualify_core [simp]: "ToCoreSchema (qualify t sch) = sch"
  by (cases sch) (simp add: ToCoreSchema_def qualify_def comp_def map_idI)

lemma collect_Inr [simp]: "collect (map Inr rows) = Inr rows"
  by (induction rows) simp_all

section \<open>Plans over an engine\<close>

text \<open>What a client of an engine relies on while it only reads.  \<open>reads\<close> relates the states between
  which nothing but caches differs; \<open>pend\<close> gives the rows that a live iterator has still to return.\<close>

locale storage_reads =
  fixes eng :: "('s, 'i) storageEngine"
    and inv :: "'s \<Rightarrow> bool"
    and reads :: "'s \<Rightarrow> 's \<Rightarrow> bool"
    and live :: "'s \<Rightarrow> 'i \<Rightarrow> bool"
    and pend :: "'s \<Rightarrow> 'i \<Rightarrow> (rowID \<times> row) list"
    and tables :: "'s \<Rightarrow> string \<Rightarrow> schema option"
    and view :: "'s \<Rightarrow> txnID \<Rightarrow> string \<Rightarrow> (rowID \<times> row) list"
    and indexed :: "'s \<Rightarrow> string \<Rightarrow> string \<Rightarrow> bool"
    and seekable :: "'s \<Rightarrow> txnID \<Rightarrow> string \<Rightarrow> string \<Rightarrow> bool"
    and seekRows :: "'s \<Rightarrow> txnID \<Rightarrow> string \<Rightarrow> string \<Rightarrow> val \<Rightarrow> (rowID \<times> row) list"
  assumes reads_refl: "inv s \<Longrightarrow> reads s s"
    and reads_trans: "reads s s1 \<Longrightarrow> reads s1 s2 \<Longrightarrow> reads s s2"
    and reads_inv: "inv s \<Longrightarrow> reads s s' \<Longrightarrow> inv s'"
    and reads_same: "inv s \<Longrightarrow> reads s s' \<Longrightarrow> tables s' = tables s \<and> view s' = view s \<and> indexed s' = indexed s \<and>
      seekable s' = seekable s \<and> seekRows s' = seekRows s"
    and reads_live: "inv s \<Longrightarrow> reads s s' \<Longrightarrow> live s it \<Longrightarrow> live s' it \<and> pend s' it = pend s it"
    and schema_law: "inv s \<Longrightarrow> \<exists>s'. eGetSchema eng t s = (s', Inr (tables s t)) \<and> reads s s'"
    and index_law: "inv s \<Longrightarrow> \<exists>s'. eHasIndex eng t c s = (s', Inr (indexed s t c)) \<and> reads s s'"
    and scan_law: "inv s \<Longrightarrow> tables s t \<noteq> None \<Longrightarrow>
      \<exists>s' it. eScan eng txn t s = (s', Inr it) \<and> reads s s' \<and> live s' it \<and> pend s' it = view s txn t"
    and seek_law: "inv s \<Longrightarrow> seekable s txn t c \<Longrightarrow>
      \<exists>s' it. eSeekIndex eng txn t c key s = (s', Inr it) \<and> reads s s' \<and> live s' it \<and> pend s' it = seekRows s txn t c key"
    and next_law: "inv s \<Longrightarrow> live s it \<Longrightarrow>
      \<exists>s' it'. eNext eng it s = (s', Inr (it', case pend s it of [] \<Rightarrow> None | x # _ \<Rightarrow> Some x)) \<and> reads s s' \<and>
        live s' it' \<and> pend s' it' = tl (pend s it)"
begin

abbreviation stream :: "'s \<Rightarrow> 'i operator \<Rightarrow> row res list" where
  "stream s \<equiv> opStream (\<lambda>it. map snd (pend s it)) (\<lambda>txn t c k. map snd (seekRows s txn t c k))"

abbreviation ok :: "'s \<Rightarrow> 'i operator \<Rightarrow> bool" where
  "ok s \<equiv> opOk (live s) (seekable s)"

lemma reads_ok:
  assumes "inv s" and "reads s s'"
  shows "ok s oper \<Longrightarrow> ok s' oper \<and> stream s' oper = stream s oper"
proof (induction oper)
  case (NestedLoopJoinOp left right on sch leftRow leftOK rightRows i initialized)
  then show ?case by (auto split: sum.splits)
next
  case (IndexedNestedLoopJoinOp left txn rt rc lc on lsch rsch sch leftRow iter)
  with reads_same [OF assms] reads_live [OF assms] show ?case by (auto split: option.splits)
qed (use reads_same [OF assms] reads_live [OF assms] in auto)

text \<open>A call that delivers the first element of a list of rows and errors.\<close>

inductive yields :: "'s \<Rightarrow> 'i operator \<Rightarrow> row res list \<Rightarrow> (nat \<Rightarrow> 's \<times> ('i operator \<times> row option) res) \<Rightarrow> bool"
  for s oper xs f where
  yields_error: "xs = Inl e # ys \<Longrightarrow> reads s s' \<Longrightarrow> enough (\<lambda>n. f n = (s', Inl e)) \<Longrightarrow> yields s oper xs f"
| yields_end: "xs = [] \<Longrightarrow> reads s s' \<Longrightarrow> enough (\<lambda>n. f n = (s', Inr (oper', None))) \<Longrightarrow> ok s' oper' \<Longrightarrow> stream s' oper' = [] \<Longrightarrow>
    opSchema oper' = opSchema oper \<Longrightarrow> opDepth oper' = opDepth oper \<Longrightarrow> yields s oper xs f"
| yields_row: "xs = Inr r # ys \<Longrightarrow> reads s s' \<Longrightarrow> enough (\<lambda>n. f n = (s', Inr (oper', Some r))) \<Longrightarrow> ok s' oper' \<Longrightarrow>
    stream s' oper' = ys \<Longrightarrow> opSchema oper' = opSchema oper \<Longrightarrow> opDepth oper' = opDepth oper \<Longrightarrow> yields s oper xs f"

text \<open>A call that goes on as another one.\<close>

lemma yields_from:
  assumes "yields s1 oper1 xs f" and "reads s s1" and "opSchema oper1 = opSchema oper" and "opDepth oper1 = opDepth oper"
  shows "yields s oper xs f"
  using assms(1)
proof cases
  case (yields_error e ys s')
  then show ?thesis by (metis assms(2) reads_trans yields.yields_error)
next
  case (yields_end s' oper')
  then show ?thesis by (intro yields.yields_end [of _ _ s' _ oper']) (auto intro: reads_trans [OF assms(2)] simp: assms(3,4))
next
  case (yields_row r ys s' oper')
  then show ?thesis by (intro yields.yields_row [of _ r ys _ s' _ oper']) (auto intro: reads_trans [OF assms(2)] simp: assms(3,4))
qed

lemma yields_step:
  assumes "yields s1 oper1 xs g" and "reads s s1" and "enough (\<lambda>n. f (Suc n) = g n)"
    and "opSchema oper1 = opSchema oper" and "opDepth oper1 = opDepth oper"
  shows "yields s oper xs f"
proof (rule yields_from [OF _ assms(2,4,5)])
  have *: "enough (\<lambda>n. f n = z)" if "enough (\<lambda>n. g n = z)" for z
    by (rule enough_SucI [OF enough_conj [OF assms(3) that]]) simp
  from assms(1) show "yields s1 oper1 xs f"
  proof cases
    case (yields_error e ys s')
    then show ?thesis by (intro yields.yields_error [of _ e ys _ s'] *)
  next
    case (yields_end s' oper')
    then show ?thesis by (intro yields.yields_end [of _ _ s' _ oper'] *)
  next
    case (yields_row r ys s' oper')
    then show ?thesis by (intro yields.yields_row [of _ r ys _ s' _ oper'] *)
  qed
qed

lemma scan_yields:
  assumes "inv s" and "ok s (ScanOp txn table it qs closed)"
  shows "yields s (ScanOp txn table it qs closed) (stream s (ScanOp txn table it qs closed))
    (\<lambda>n. opNext eng n (ScanOp txn table it qs closed) s)"
proof (cases closed)
  case True
  then show ?thesis using reads_refl [OF assms(1)]
    by (intro yields_error [where s' = s]) (auto intro: enough_Suc)
next
  case False
  from next_law [OF assms(1), of it] assms(2) obtain s' it' where
    N: "eNext eng it s = (s', Inr (it', case pend s it of [] \<Rightarrow> None | x # _ \<Rightarrow> Some x))" "reads s s'"
    "live s' it'" "pend s' it' = tl (pend s it)" by auto
  show ?thesis
  proof (cases "pend s it")
    case Nil
    with N False show ?thesis
      by (intro yields_end [where s' = s' and oper' = "ScanOp txn table it' qs closed"]) (auto intro: enough_Suc)
  next
    case (Cons x xs)
    with N False show ?thesis
      by (intro yields_row [where s' = s' and oper' = "ScanOp txn table it' qs closed" and r = "snd x"])
        (auto intro: enough_Suc)
  qed
qed

lemma filter_yields:
  assumes IH: "\<And>s c. inv s \<Longrightarrow> ok s c \<Longrightarrow> opDepth c \<le> d \<Longrightarrow> yields s c (stream s c) (\<lambda>n. opNext eng n c s)"
    and "inv s" and "ok s c" and "opDepth c \<le> d"
  shows "yields s (FilterOp c p sch) (stream s (FilterOp c p sch)) (\<lambda>n. opNext eng n (FilterOp c p sch) s)"
  using assms(2-4)
proof (induction "length (stream s c)" arbitrary: s c rule: less_induct)
  case less
  let ?f = "\<lambda>n. opNext eng n (FilterOp c p sch) s"
  from IH [OF less.prems] show ?case
  proof cases
    case (yields_error e ys s')
    then show ?thesis
      by (intro yields.yields_error [where s' = s']) (auto elim!: enough_SucI)
  next
    case (yields_end s' c')
    then show ?thesis
      by (intro yields.yields_end [where s' = s' and oper' = "FilterOp c' p sch"]) (auto elim!: enough_SucI)
  next
    case (yields_row r ys s' c')
    show ?thesis
    proof (cases "evalWhere (Some p) r sch")
      case (Inl e)
      with yields_row show ?thesis
        by (intro yields.yields_error [where s' = s']) (auto elim!: enough_SucI)
    next
      case (Inr b)
      show ?thesis
      proof (cases b)
        case True
        with yields_row Inr show ?thesis
          by (intro yields.yields_row [where s' = s' and oper' = "FilterOp c' p sch" and r = r])
            (auto elim!: enough_SucI)
      next
        case False
        have "yields s' (FilterOp c' p sch) (stream s' (FilterOp c' p sch)) (\<lambda>n. opNext eng n (FilterOp c' p sch) s')"
          using less yields_row reads_inv by auto
        moreover have "enough (\<lambda>n. ?f (Suc n) = opNext eng n (FilterOp c' p sch) s')"
          using yields_row(3) by (rule enough_mono) (simp add: Inr False)
        moreover have "stream s' (FilterOp c' p sch) = stream s (FilterOp c p sch)"
          using yields_row Inr False by simp
        ultimately show ?thesis using yields_row yields_step by fastforce
      qed
    qed
  qed
qed

lemma project_yields:
  assumes IH: "yields s c (stream s c) (\<lambda>n. opNext eng n c s)"
  shows "yields s (ProjectOp c es sch star) (stream s (ProjectOp c es sch star)) (\<lambda>n. opNext eng n (ProjectOp c es sch star) s)"
  using IH
proof cases
  case (yields_error e ys s')
  then show ?thesis
    by (intro yields.yields_error [where s' = s']) (auto simp: projectStream_def elim!: enough_SucI)
next
  case (yields_end s' c')
  then show ?thesis
    by (intro yields.yields_end [where s' = s' and oper' = "ProjectOp c' es sch star"])
      (auto simp: projectStream_def elim!: enough_SucI)
next
  case (yields_row r ys s' c')
  show ?thesis
  proof (cases "\<not> star \<and> (\<exists>e. projectValues 0 es r (opSchema c) = Inl e)")
    case True
    then obtain e where "\<not> star" "projectValues 0 es r (opSchema c) = Inl e" by blast
    with yields_row show ?thesis
      by (intro yields.yields_error [where s' = s']) (auto simp: projectStream_def elim!: enough_SucI)
  next
    case False
    then obtain vs where "star \<or> projectValues 0 es r (opSchema c) = Inr vs" by (metis sum.exhaust)
    with yields_row show ?thesis
      by (intro yields.yields_row [where s' = s' and oper' = "ProjectOp c' es sch star" and
            r = "if star then r else \<lparr>Values = vs, Xmin = 0, Xmax = 0\<rparr>"])
        (auto simp: projectStream_def elim!: enough_SucI)
  qed
qed

lemma materialize_collect:
  assumes IH: "\<And>s c. inv s \<Longrightarrow> ok s c \<Longrightarrow> opDepth c \<le> d \<Longrightarrow> yields s c (stream s c) (\<lambda>n. opNext eng n c s)"
    and "inv s" and "ok s c" and "opDepth c \<le> d"
  shows "\<exists>s' c'. reads s s' \<and> ok s' c' \<and> opSchema c' = opSchema c \<and> opDepth c' = opDepth c \<and>
    enough (\<lambda>n. materializeRight eng n c s =
      (s', case collect (stream s c) of Inl e \<Rightarrow> Inl (wrapf ''right scan: %w'' [] e) | Inr rows \<Rightarrow> Inr (c', rows)))"
  using assms(2-4)
proof (induction "length (stream s c)" arbitrary: s c rule: less_induct)
  case less
  from IH [OF less.prems] show ?case
  proof cases
    case (yields_error e ys s')
    then show ?thesis using reads_ok [OF less.prems(1)] less.prems(2)
      by (intro exI [of _ s'] exI [of _ c]) (auto elim!: enough_SucI)
  next
    case (yields_end s' c')
    then show ?thesis
      by (intro exI [of _ s'] exI [of _ c']) (auto elim!: enough_SucI)
  next
    case (yields_row r ys s1 c1)
    from less.hyps [of s1 c1] yields_row less.prems reads_inv obtain s2 c2 where
      I: "reads s1 s2" "ok s2 c2" "opSchema c2 = opSchema c1" "opDepth c2 = opDepth c1"
      "enough (\<lambda>n. materializeRight eng n c1 s1 =
        (s2, case collect (stream s1 c1) of Inl e \<Rightarrow> Inl (wrapf ''right scan: %w'' [] e) | Inr rows \<Rightarrow> Inr (c2, rows)))"
      by auto
    have "enough (\<lambda>n. materializeRight eng n c s =
      (s2, case collect (stream s c) of Inl e \<Rightarrow> Inl (wrapf ''right scan: %w'' [] e) | Inr rows \<Rightarrow> Inr (c2, rows)))"
      by (rule enough_SucI [OF enough_conj [OF yields_row(3) I(5)]]) (simp add: yields_row(1,5) split: sum.splits)
    moreover have "reads s s2" using yields_row(2) I(1) by (rule reads_trans)
    moreover have "opSchema c2 = opSchema c" "opDepth c2 = opDepth c" using I yields_row by simp_all
    ultimately show ?thesis using I(2) by (intro exI [of _ s2] exI [of _ c2]) simp
  qed
qed

text \<open>A nested-loop join whose right rows are known: the rest of the right rows for the current left
  row, and what follows when they are used up.\<close>

lemma join_probe:
  fixes on sch rows r
  defines "J \<equiv> \<lambda>l lr lok i. NestedLoopJoinOp l r on sch lr lok rows i True"
  assumes f: "enough (\<lambda>n. f (Suc n) = (case probeRight on sch lr (drop i rows) of
          Inl err \<Rightarrow> (s, Inl err)
        | Inr (m, Some x) \<Rightarrow> (s, Inr (J l lr True (i + m), Some x))
        | Inr (m, None) \<Rightarrow> opNext eng n (J l lr True (i + m)) s))"
    and s: "inv s" "ok s l" "ok s r"
    and go: "\<And>k. k \<ge> length rows \<Longrightarrow> yields s (J l lr True k) (joinStream (\<lambda>l. joinRow on sch l rows) (stream s l))
      (\<lambda>n. opNext eng n (J l lr True k) s)"
  shows "yields s (J l lr True i) (joinRow on sch lr (drop i rows) @ joinStream (\<lambda>l. joinRow on sch l rows) (stream s l)) f"
proof (cases "joinRow on sch lr (drop i rows)")
  case Nil
  with probeRight_joinRow [of on sch lr "drop i rows"]
  have "probeRight on sch lr (drop i rows) = Inr (length (drop i rows), None)" by simp
  with f have "enough (\<lambda>n. f (Suc n) = opNext eng n (J l lr True (i + length (drop i rows))) s)" by simp
  from yields_step [OF go reads_refl [OF s(1)] this, of "J l lr True i"] Nil show ?thesis by (simp add: J_def)
next
  case (Cons x xs)
  show ?thesis
  proof (cases x)
    case (Inl e)
    with Cons probeRight_joinRow [of on sch lr "drop i rows"] f
    have "enough (\<lambda>n. f (Suc n) = (s, Inl e))" by simp
    with Cons Inl show ?thesis using reads_refl [OF s(1)]
      by (intro yields_error [where s' = s]) (auto intro: enough_Suc)
  next
    case (Inr y)
    with Cons probeRight_joinRow [of on sch lr "drop i rows"] obtain m where
      m: "probeRight on sch lr (drop i rows) = Inr (m, Some y)" "xs = joinRow on sch lr (drop m (drop i rows))" by auto
    with f have "enough (\<lambda>n. f (Suc n) = (s, Inr (J l lr True (i + m), Some y)))" by simp
    with Cons Inr m s show ?thesis using reads_refl [OF s(1)]
      by (intro yields_row [where s' = s and oper' = "J l lr True (i + m)"]) (auto simp: J_def add.commute intro: enough_Suc)
  qed
qed

lemma join_exhausted:
  fixes on sch rows r
  defines "J \<equiv> \<lambda>l lr lok i. NestedLoopJoinOp l r on sch lr lok rows i True"
  assumes IH: "\<And>s c. inv s \<Longrightarrow> ok s c \<Longrightarrow> opDepth c \<le> d \<Longrightarrow> yields s c (stream s c) (\<lambda>n. opNext eng n c s)"
    and "inv s" and "ok s l" and "ok s r" and "opDepth l \<le> d" and "\<not> lok \<or> i \<ge> length rows"
  shows "yields s (J l lr lok i) (joinStream (\<lambda>l. joinRow on sch l rows) (stream s l)) (\<lambda>n. opNext eng n (J l lr lok i) s)"
  using assms(3-)
proof (induction "length (stream s l)" arbitrary: s l lr lok i rule: less_induct)
  case less
  note prems = less.prems
  from IH [OF prems(1,2,4)] show ?case
  proof cases
    case (yields_error e ys s')
    with prems show ?thesis
      by (intro yields.yields_error [where s' = s']) (auto simp: J_def elim!: enough_SucI)
  next
    case (yields_end s' l')
    with prems reads_ok [OF prems(1), of s' r] show ?thesis
      by (intro yields.yields_end [where s' = s' and oper' = "J l' lr lok i"]) (auto simp: J_def elim!: enough_SucI)
  next
    case (yields_row x ys s' l')
    have s': "inv s'" "ok s' l'" "ok s' r" "opDepth l' \<le> d" "length (stream s' l') < length (stream s l)"
      using yields_row prems reads_inv reads_ok [OF prems(1), of s' r] by auto
    have "enough (\<lambda>n. opNext eng (Suc n) (J l lr lok i) s = (case probeRight on sch x (drop 0 rows) of
          Inl err \<Rightarrow> (s', Inl err)
        | Inr (m, Some y) \<Rightarrow> (s', Inr (J l' x True (0 + m), Some y))
        | Inr (m, None) \<Rightarrow> opNext eng n (J l' x True (0 + m)) s'))"
      using yields_row(3) by (rule enough_mono) (use prems(5) in \<open>auto simp: J_def split: sum.splits option.splits\<close>)
    from join_probe [OF this [unfolded J_def] s'(1-3)] less.hyps [OF s'(5,1-4)]
    have "yields s' (J l' x True 0) (joinRow on sch x rows @ joinStream (\<lambda>l. joinRow on sch l rows) (stream s' l'))
        (\<lambda>n. opNext eng n (J l lr lok i) s)" by (simp add: J_def)
    from yields_from [OF this \<open>reads s s'\<close>, of "J l lr lok i"] yields_row show ?thesis by (simp add: J_def)
  qed
qed

lemma join_yields:
  fixes on sch rows r
  defines "J \<equiv> \<lambda>l lr lok i. NestedLoopJoinOp l r on sch lr lok rows i True"
  assumes IH: "\<And>s c. inv s \<Longrightarrow> ok s c \<Longrightarrow> opDepth c \<le> d \<Longrightarrow> yields s c (stream s c) (\<lambda>n. opNext eng n c s)"
    and s: "inv s" "ok s l" "ok s r" "opDepth l \<le> d"
  shows "yields s (J l lr lok i) (stream s (J l lr lok i)) (\<lambda>n. opNext eng n (J l lr lok i) s)"
proof (cases "\<not> lok \<or> i \<ge> length rows")
  case True
  from join_exhausted [OF IH s True] True show ?thesis by (auto simp: J_def)
next
  case False
  have "yields s (J l lr True i) (joinRow on sch lr (drop i rows) @ joinStream (\<lambda>l. joinRow on sch l rows) (stream s l))
      (\<lambda>n. opNext eng n (J l lr True i) s)"
    unfolding J_def by (rule join_probe [OF _ s(1-3) join_exhausted [OF IH s]]) (use False in auto)
  with False show ?thesis by (simp add: J_def)
qed

text \<open>An index join: the rest of the rows found for the current left row, and the next left row.\<close>

lemma index_probe:
  fixes on sch lsch rsch txn rt rc lc
  defines "J \<equiv> \<lambda>l lr it. IndexedNestedLoopJoinOp l txn rt rc lc on lsch rsch sch lr it"
    and "rest \<equiv> \<lambda>s l. joinStream (seekJoin (\<lambda>k. map snd (seekRows s txn rt rc k)) lc on lsch sch) (stream s l)"
  assumes "inv s" and "live s it" and "ok s l" and "seekable s txn rt rc"
    and go: "\<And>s'. reads s s' \<Longrightarrow> yields s' (J l lr None) (rest s' l) (\<lambda>n. opNext eng n (J l lr None) s')"
  shows "yields s (J l lr (Some it)) (joinRow on sch lr (map snd (pend s it)) @ rest s l) (\<lambda>n. opNext eng n (J l lr (Some it)) s)"
  using assms(3-)
proof (induction "length (pend s it)" arbitrary: s it rule: less_induct)
  case less
  note prems = less.prems
  from next_law [OF prems(1,2)] obtain s' it' where
    N: "eNext eng it s = (s', Inr (it', case pend s it of [] \<Rightarrow> None | x # _ \<Rightarrow> Some x))" "reads s s'"
    "live s' it'" "pend s' it' = tl (pend s it)" by blast
  have same: "rest s' l = rest s l" "ok s' l" "seekable s' txn rt rc" "inv s'"
    using reads_ok [OF prems(1) N(2) prems(3)] reads_same [OF prems(1) N(2)] prems(4) reads_inv [OF prems(1) N(2)]
    by (simp_all add: rest_def)
  let ?f = "\<lambda>n. opNext eng n (J l lr (Some it)) s"
  show ?case
  proof (cases "pend s it")
    case Nil
    have "yields s (J l lr (Some it)) (rest s' l) ?f"
      by (rule yields_step [OF prems(5) [OF N(2)] N(2)]) (use N Nil in \<open>simp_all add: J_def\<close>)
    with Nil same show ?thesis by simp
  next
    case (Cons x xs)
    obtain rid r where x: "x = (rid, r)" by (cases x)
    show ?thesis
    proof (cases "evalWhere (Some on) (combineRows lr r) sch")
      case (Inl e)
      with N Cons x show ?thesis by (intro yields_error [where s' = s']) (auto simp: J_def intro: enough_Suc)
    next
      case (Inr b)
      show ?thesis
      proof (cases b)
        case True
        with N Cons x Inr same show ?thesis
          by (intro yields_row [where s' = s' and oper' = "J l lr (Some it')"]) (auto simp: J_def rest_def intro: enough_Suc)
      next
        case False
        have "yields s' (J l lr (Some it')) (joinRow on sch lr (map snd (pend s' it')) @ rest s' l)
            (\<lambda>n. opNext eng n (J l lr (Some it')) s')"
          by (rule less.hyps) (use N Cons same prems(5) reads_trans in auto)
        from yields_step [OF this N(2), of ?f "J l lr (Some it)"] N Cons x Inr False same show ?thesis
          by (simp add: J_def)
      qed
    qed
  qed
qed

lemma index_yields:
  fixes on sch lsch rsch txn rt rc lc
  defines "J \<equiv> \<lambda>l lr it. IndexedNestedLoopJoinOp l txn rt rc lc on lsch rsch sch lr it"
    and "rest \<equiv> \<lambda>s l. joinStream (seekJoin (\<lambda>k. map snd (seekRows s txn rt rc k)) lc on lsch sch) (stream s l)"
  assumes IH: "\<And>s c. inv s \<Longrightarrow> ok s c \<Longrightarrow> opDepth c \<le> d \<Longrightarrow> yields s c (stream s c) (\<lambda>n. opNext eng n c s)"
    and "inv s" "ok s l" "seekable s txn rt rc" "opDepth l \<le> d"
  shows "yields s (J l lr None) (rest s l) (\<lambda>n. opNext eng n (J l lr None) s)"
  using assms(4-)
proof (induction "length (stream s l)" arbitrary: s l lr rule: less_induct)
  case less
  note prems = less.prems
  let ?f = "\<lambda>n. opNext eng n (J l lr None) s"
  from IH [OF prems(1,2,4)] show ?case
  proof cases
    case (yields_error e ys s')
    then show ?thesis
      by (intro yields.yields_error [where s' = s']) (auto simp: J_def rest_def elim!: enough_SucI)
  next
    case (yields_end s' l')
    with prems reads_same [OF prems(1), of s'] show ?thesis
      by (intro yields.yields_end [where s' = s' and oper' = "J l' lr None"]) (auto simp: J_def rest_def elim!: enough_SucI)
  next
    case (yields_row x ys s' l')
    have s': "inv s'" "seekable s' txn rt rc" "seekRows s' = seekRows s"
      using yields_row prems reads_inv [OF prems(1)] reads_same [OF prems(1), of s'] by auto
    show ?thesis
    proof (cases "eval (ColumnRef [] lc) x lsch")
      case (Inl e)
      with yields_row show ?thesis
        by (intro yields.yields_error [where s' = s']) (auto simp del: eval.simps simp: J_def rest_def seekJoin_def elim!: enough_SucI)
    next
      case (Inr key)
      from seek_law [OF s'(1,2)] obtain s2 it where
        S: "eSeekIndex eng txn rt rc key s' = (s2, Inr it)" "reads s' s2" "live s2 it" "pend s2 it = seekRows s' txn rt rc key" by blast
      have s2: "inv s2" "ok s2 l'" "stream s2 l' = ys" "seekable s2 txn rt rc" "seekRows s2 = seekRows s"
        using reads_inv [OF s'(1) S(2)] reads_ok [OF s'(1) S(2)] reads_same [OF s'(1) S(2)] s' yields_row by auto
      have "yields s2 (J l' x (Some it)) (joinRow on sch x (map snd (pend s2 it)) @ rest s2 l') (\<lambda>n. opNext eng n (J l' x (Some it)) s2)"
        unfolding J_def rest_def
      proof (rule index_probe [OF s2(1) S(3) s2(2,4)])
        fix s3 assume r: "reads s2 s3"
        have "inv s3" "ok s3 l'" "stream s3 l' = ys" "seekable s3 txn rt rc"
          using reads_inv [OF s2(1) r] reads_ok [OF s2(1) r] reads_same [OF s2(1) r] s2 by auto
        then show "yields s3 (IndexedNestedLoopJoinOp l' txn rt rc lc on lsch rsch sch x None)
            (joinStream (seekJoin (\<lambda>k. map snd (seekRows s3 txn rt rc k)) lc on lsch sch) (stream s3 l'))
            (\<lambda>n. opNext eng n (IndexedNestedLoopJoinOp l' txn rt rc lc on lsch rsch sch x None) s3)"
          using less.hyps [of s3 l' x] yields_row prems(4) by (simp add: J_def rest_def)
      qed
      moreover have "enough (\<lambda>n. ?f (Suc n) = opNext eng n (J l' x (Some it)) s2)"
        using yields_row(3) by (rule enough_mono) (use Inr S(1) in \<open>simp del: eval.simps add: J_def\<close>)
      moreover have "joinRow on sch x (map snd (pend s2 it)) @ rest s2 l' = rest s l"
        using yields_row S(4) s2(3,5) s'(3) Inr by (simp del: eval.simps add: rest_def seekJoin_def)
      ultimately show ?thesis
        using yields_step [of s2 "J l' x (Some it)" "rest s l" _ s ?f "J l lr None"] reads_trans [OF yields_row(2) S(2)] yields_row(7)
        by (simp add: J_def)
    qed
  qed
qed

lemma indexed_yields:
  assumes IH: "\<And>s c. inv s \<Longrightarrow> ok s c \<Longrightarrow> opDepth c \<le> d \<Longrightarrow> yields s c (stream s c) (\<lambda>n. opNext eng n c s)"
    and oper: "oper = IndexedNestedLoopJoinOp l txn rt rc lc on lsch rsch sch lr it" and s: "inv s" "ok s oper" "opDepth l \<le> d"
  shows "yields s oper (stream s oper) (\<lambda>n. opNext eng n oper s)"
proof -
  have go: "yields s' (IndexedNestedLoopJoinOp l txn rt rc lc on lsch rsch sch lr None)
      (joinStream (seekJoin (\<lambda>k. map snd (seekRows s' txn rt rc k)) lc on lsch sch) (stream s' l))
      (\<lambda>n. opNext eng n (IndexedNestedLoopJoinOp l txn rt rc lc on lsch rsch sch lr None) s')" if "reads s s'" for s'
    using index_yields [OF IH, where d = d and s = s' and l = l] s reads_inv [OF s(1) that]
      reads_ok [OF s(1) that] reads_same [OF s(1) that] oper by simp
  show ?thesis
  proof (cases it)
    case None
    with go [OF reads_refl] s oper show ?thesis by simp
  next
    case (Some i)
    with index_probe [where s = s and it = i and l = l, OF _ _ _ _ go] s oper show ?thesis by simp
  qed
qed

lemma nested_yields:
  assumes IH: "\<And>s c. inv s \<Longrightarrow> ok s c \<Longrightarrow> opDepth c \<le> d \<Longrightarrow> yields s c (stream s c) (\<lambda>n. opNext eng n c s)"
    and oper: "oper = NestedLoopJoinOp l r on sch lr lok rows i initialized"
    and s: "inv s" "ok s oper" "opDepth l \<le> d" "opDepth r \<le> d"
  shows "yields s oper (stream s oper) (\<lambda>n. opNext eng n oper s)"
proof -
  let ?J = "\<lambda>r rows init. NestedLoopJoinOp l r on sch lr lok rows i init"
  have known: "yields s (?J r rows True) (stream s (?J r rows True)) (\<lambda>n. opNext eng n (?J r rows True) s)"
    if "inv s" "ok s l" "ok s r" for s r rows
    using join_yields [OF IH, where d = d and s = s and l = l] that s(3) by simp
  show ?thesis
  proof (cases initialized)
    case True
    with known s oper show ?thesis by simp
  next
    case False
    from materialize_collect [OF IH, where d = d and s = s and c = r] s oper obtain s' r' where
      M: "reads s s'" "ok s' r'" "opDepth r' = opDepth r"
      "enough (\<lambda>n. materializeRight eng n r s =
        (s', case collect (stream s r) of Inl e \<Rightarrow> Inl (wrapf ''right scan: %w'' [] e) | Inr rows \<Rightarrow> Inr (r', rows)))" by auto
    show ?thesis
    proof (cases "collect (stream s r)")
      case (Inl e)
      with M False oper show ?thesis
        by (intro yields_error [where s' = s']) (auto elim!: enough_SucI)
    next
      case (Inr rs)
      from reads_ok [OF s(1) M(1), of l] s oper have l: "ok s' l" "stream s' l = stream s l" by auto
      have "enough (\<lambda>n. opNext eng (Suc n) oper s = opNext eng n (?J r' rs True) s')"
        using M(4) by (rule enough_mono) (use Inr False oper in simp)
      then have "yields s oper (stream s' (?J r' rs True)) (\<lambda>n. opNext eng n oper s)"
        by (rule yields_step [OF known [OF reads_inv [OF s(1) M(1)] l(1) M(2)] M(1)]) (simp_all add: oper M(3))
      moreover have "stream s' (?J r' rs True) = stream s oper" using l Inr False oper by simp
      ultimately show ?thesis by simp
    qed
  qed
qed

text \<open>Every operator delivers its rows, in order, and then ends.\<close>

lemma opNext_yields:
  "inv s \<Longrightarrow> ok s oper \<Longrightarrow> yields s oper (stream s oper) (\<lambda>n. opNext eng n oper s)"
proof (induction "opDepth oper" arbitrary: s oper rule: less_induct)
  case less
  have IH: "yields s c (stream s c) (\<lambda>n. opNext eng n c s)" if "inv s" "ok s c" "opDepth c \<le> d" "d < opDepth oper" for s c d
    using less.hyps [of c s] that by simp
  show ?case
  proof (cases oper)
    case (ScanOp txn table it qs closed)
    with scan_yields less.prems show ?thesis by blast
  next
    case (FilterOp c p sch)
    with filter_yields [OF IH, where d = "opDepth c" and s = s and c = c] less.prems show ?thesis by simp
  next
    case (ProjectOp c es sch star)
    with project_yields [OF IH [where d = "opDepth c"], where s = s and c = c] less.prems show ?thesis by simp
  next
    case (IndexedNestedLoopJoinOp l txn rt rc lc on lsch rsch sch lr it)
    with indexed_yields [OF IH IndexedNestedLoopJoinOp, where d = "opDepth l"] less.prems show ?thesis by simp
  next
    case (NestedLoopJoinOp l r on sch lr lok rows i initialized)
    with nested_yields [OF IH NestedLoopJoinOp, where d = "max (opDepth l) (opDepth r)"] less.prems show ?thesis by simp
  qed
qed

lemma drainPlan_collect:
  assumes "inv s" and "ok s root"
  shows "\<exists>s'. reads s s' \<and> enough (\<lambda>n. drainPlan eng n root s =
    (s', map_sum (wrapf ''execute plan: %w'' []) (\<lambda>rows. rows) (collect (stream s root))))"
  using assms
proof (induction "length (stream s root)" arbitrary: s root rule: less_induct)
  case less
  from opNext_yields [OF less.prems] show ?case
  proof cases
    case (yields_error e ys s')
    then show ?thesis by (intro exI [of _ s']) (auto elim!: enough_SucI)
  next
    case (yields_end s' root')
    then show ?thesis by (intro exI [of _ s']) (auto elim!: enough_SucI)
  next
    case (yields_row r ys s1 root1)
    from less.hyps [of s1 root1] yields_row reads_inv less.prems(1) obtain s2 where
      I: "reads s1 s2" "enough (\<lambda>n. drainPlan eng n root1 s1 =
        (s2, map_sum (wrapf ''execute plan: %w'' []) (\<lambda>rows. rows) (collect (stream s1 root1))))" by auto
    have "enough (\<lambda>n. drainPlan eng n root s =
        (s2, map_sum (wrapf ''execute plan: %w'' []) (\<lambda>rows. rows) (collect (stream s root))))"
      by (rule enough_SucI [OF enough_conj [OF yields_row(3) I(2)]]) (simp add: yields_row(1,5) split: sum.splits)
    with reads_trans [OF yields_row(2) I(1)] show ?thesis by blast
  qed
qed

text \<open>Building plans.\<close>

lemma NewScanOp_ok:
  assumes "inv s" and "tables s t = Some sch"
  shows "\<exists>s' root. NewScanOp eng txn t s = (s', Inr root) \<and> reads s s' \<and> ok s' root \<and> opSchema root = sch \<and>
    stream s' root = map Inr (map snd (view s txn t))"
proof -
  from schema_law [OF assms(1), of t] obtain s1 where 1: "eGetSchema eng t s = (s1, Inr (Some sch))" "reads s s1"
    by (auto simp: assms(2))
  note same = reads_same [OF assms(1) 1(2)] reads_inv [OF assms(1) 1(2)]
  from scan_law [OF same(2), of t txn] same(1) assms(2) obtain s2 it where
    2: "eScan eng txn t s1 = (s2, Inr it)" "reads s1 s2" "live s2 it" "pend s2 it = view s txn t" by auto
  show ?thesis using 1 2 reads_trans [OF 1(2) 2(2)] by (auto simp: NewScanOp_def comp_def)
qed

lemma NewIndexScanOp_ok:
  assumes "inv s" and "tables s t = Some sch" and "seekable s txn t c"
  shows "\<exists>s' root. NewIndexScanOp eng txn t c key s = (s', Inr root) \<and> reads s s' \<and> ok s' root \<and> opSchema root = sch \<and>
    stream s' root = map Inr (map snd (seekRows s txn t c key))"
proof -
  from schema_law [OF assms(1), of t] obtain s1 where 1: "eGetSchema eng t s = (s1, Inr (Some sch))" "reads s s1"
    by (auto simp: assms(2))
  note same = reads_same [OF assms(1) 1(2)] reads_inv [OF assms(1) 1(2)]
  from seek_law [OF same(2), of txn t c key] same(1) assms(3) obtain s2 it where
    2: "eSeekIndex eng txn t c key s1 = (s2, Inr it)" "reads s1 s2" "live s2 it" "pend s2 it = seekRows s txn t c key" by auto
  show ?thesis using 1 2 reads_trans [OF 1(2) 2(2)] by (auto simp: NewIndexScanOp_def comp_def)
qed

lemma findIndexedEquality_none:
  assumes "inv s" and "\<And>c. \<not> indexed s t c"
  shows "\<exists>s'. findIndexedEquality_loop eng t us ts s = (s', Inr None) \<and> reads s s'"
  using assms
proof (induction ts arbitrary: us s)
  case Nil
  then show ?case using reads_refl by auto
next
  case (Cons u ts)
  show ?case
  proof (cases "equalityColumnLiteral u t")
    case None
    with Cons show ?thesis by simp
  next
    case (Some eq)
    from index_law [OF Cons.prems(1), of t "ieColumn eq"] Cons.prems(2) obtain s1 where
      1: "eHasIndex eng t (ieColumn eq) s = (s1, Inr False)" "reads s s1" by auto
    note same = reads_same [OF Cons.prems(1) 1(2)] reads_inv [OF Cons.prems(1) 1(2)]
    with Cons.IH [of s1 "us @ [u]"] Cons.prems(2) obtain s2 where
      "findIndexedEquality_loop eng t (us @ [u]) ts s1 = (s2, Inr None)" "reads s1 s2" by auto
    with 1 Some reads_trans show ?thesis by auto
  qed
qed

lemma joinColumnsForIndex_none:
  assumes "inv s" and "\<And>c. \<not> indexed s t c"
  shows "\<exists>s'. joinColumnsForIndex eng ls rs t l r s = (s', Inr None) \<and> reads s s'"
proof (cases "(eng, ls, rs, t, l, r, s)" rule: joinColumnsForIndex.cases)
  case (1 eng' ls' rs' t' ltbl lname rtbl rname s')
  from index_law [OF assms(1), of t rname] assms(2) obtain s1 where "eHasIndex eng t rname s = (s1, Inr False)" "reads s s1" by auto
  with 1 reads_refl [OF assms(1)] show ?thesis by auto
qed (use reads_refl [OF assms(1)] in auto)

lemma indexedJoinEquality_none:
  assumes "inv s" and "tables s t = Some rs" and "\<And>c. \<not> indexed s t c"
  shows "\<exists>s'. indexedJoinEquality eng ls t e s = (s', Inr None) \<and> reads s s'"
proof (cases "\<exists>a b. e = BinaryExpr OpEq a b")
  case True
  then obtain a b where e: "e = BinaryExpr OpEq a b" by blast
  from schema_law [OF assms(1), of t] assms(2) obtain s1 where 1: "eGetSchema eng t s = (s1, Inr (Some rs))" "reads s s1" by auto
  note same1 = reads_same [OF assms(1) 1(2)] reads_inv [OF assms(1) 1(2)]
  with joinColumnsForIndex_none [of s1 t ls rs a b] assms(3) obtain s2 where
    2: "joinColumnsForIndex eng ls rs t a b s1 = (s2, Inr None)" "reads s1 s2" by auto
  note same2 = reads_same [OF same1(2) 2(2)] reads_inv [OF same1(2) 2(2)]
  with joinColumnsForIndex_none [of s2 t ls rs b a] same1 assms(3) obtain s3 where
    3: "joinColumnsForIndex eng ls rs t b a s2 = (s3, Inr None)" "reads s2 s3" by auto
  with e 1 2 show ?thesis by (auto intro: reads_trans [OF reads_trans [OF 1(2) 2(2)]])
next
  case False
  then have "indexedJoinEquality eng ls t e s = (s, Inr None)"
    by (cases "(eng, ls, t, e, s)" rule: indexedJoinEquality.cases) auto
  with reads_refl [OF assms(1)] show ?thesis by blast
qed

lemma buildJoins_ok:
  assumes "inv s" and "ok s root" and "\<And>j. j \<in> set joins \<Longrightarrow> tables s (joinTable j) = Some (sch (joinTable j))"
    and "\<And>t c. \<not> indexed s t c"
  shows "\<exists>s' root'. buildJoins eng txn root joins s = (s', Inr root') \<and> reads s s' \<and> ok s' root' \<and>
    (opSchema root', stream s' root') = joinTables sch (\<lambda>t. map snd (view s txn t)) joins (opSchema root) (stream s root)"
  using assms
proof (induction joins arbitrary: s root)
  case Nil
  then show ?case using reads_refl by auto
next
  case (Cons j js)
  let ?t = "joinTable j" and ?on = "joinOn j"
  from indexedJoinEquality_none [of s ?t "sch ?t" "opSchema root" ?on] Cons.prems obtain s1 where
    1: "indexedJoinEquality eng (opSchema root) ?t ?on s = (s1, Inr None)" "reads s s1" by auto
  note same1 = reads_same [OF Cons.prems(1) 1(2)] reads_inv [OF Cons.prems(1) 1(2)]
  with NewScanOp_ok [of s1 ?t "sch ?t" txn] Cons.prems(3) obtain s2 scan where
    2: "NewScanOp eng txn ?t s1 = (s2, Inr scan)" "reads s1 s2" "ok s2 scan" "opSchema scan = sch ?t"
    "stream s2 scan = map Inr (map snd (view s txn ?t))" by auto
  have r2: "reads s s2" by (rule reads_trans [OF 1(2) 2(2)])
  note same2 = reads_same [OF Cons.prems(1) r2] reads_inv [OF Cons.prems(1) r2] reads_ok [OF Cons.prems(1) r2 Cons.prems(2)]
  let ?r = "NewNestedLoopJoinOp root scan ?on"
  from Cons.IH [of s2 ?r] Cons.prems same2 2 obtain s3 root' where
    3: "buildJoins eng txn ?r js s2 = (s3, Inr root')" "reads s2 s3" "ok s3 root'"
    "(opSchema root', stream s3 root') = joinTables sch (\<lambda>t. map snd (view s txn t)) js (opSchema ?r) (stream s2 ?r)"
    by (auto simp: NewNestedLoopJoinOp_def)
  have "buildJoins eng txn root (j # js) s = (s3, Inr root')" using 1 2 3 by (simp add: buildJoinPlan_def)
  moreover have "(opSchema root', stream s3 root') =
      joinTables sch (\<lambda>t. map snd (view s txn t)) (j # js) (opSchema root) (stream s root)"
    using 3(4) 2(4,5) same2(3) by (simp add: NewNestedLoopJoinOp_def Let_def collect_Inr [where rows = "map snd xs" for xs, simplified])
  ultimately show ?case using 3(3) reads_trans [OF r2 3(2)] by auto
qed

lemma filter_project:
  assumes "inv s" and "ok s root" and "reads s0 s"
  shows "\<exists>s'. reads s0 s' \<and> enough (\<lambda>n. andThen (wrapped ''build plan for %q: %w'' [ArgStr from]
        (case NewProjectOp (case w of None \<Rightarrow> root | Some p \<Rightarrow> NewFilterOp root p) es of
           Inl err \<Rightarrow> (s, Inl (wrapf ''create projection: %w'' [] err)) | Inr project \<Rightarrow> (s, Inr project))) (\<lambda>root s.
      andThen (drainPlan eng n root s) (\<lambda>rows s. (s, Inr \<lparr>resSchema = opSchema root, resRows = rows, RowsAffected = 0\<rparr>))) =
    (s', projectRows from es (opSchema root) (whereRows w (opSchema root) (stream s root))))"
proof -
  let ?r = "case w of None \<Rightarrow> root | Some p \<Rightarrow> NewFilterOp root p"
  have r: "ok s ?r" "opSchema ?r = opSchema root" "stream s ?r = whereRows w (opSchema root) (stream s root)"
    using assms(2) by (simp_all add: NewFilterOp_def whereRows_def split: option.splits)
  show ?thesis
  proof (cases "NewProjectOp ?r es")
    case (Inl err)
    then have "projectRows from es (opSchema root) (whereRows w (opSchema root) (stream s root)) =
        Inl (wrapf ''build plan for %q: %w'' [ArgStr from] (wrapf ''create projection: %w'' [] err))"
      by (auto simp: NewProjectOp_def projectRows_def r split: if_splits sum.splits)
    with Inl assms(3) show ?thesis by (intro exI [of _ s]) simp
  next
    case (Inr P)
    then obtain cols where P: "P = ProjectOp ?r es \<lparr>Columns = cols\<rparr> (es = [Star])"
      "(if es = [Star] then Inr (Columns (opSchema root)) else projectionColumns 0 es (opSchema root)) = Inr cols"
      by (auto simp: NewProjectOp_def r split: if_splits sum.splits)
    have "ok s P" using r P by simp
    from drainPlan_collect [OF assms(1) this] obtain s' where
      D: "reads s s'" "enough (\<lambda>n. drainPlan eng n P s =
        (s', map_sum (wrapf ''execute plan: %w'' []) (\<lambda>rows. rows) (collect (stream s P))))" by blast
    have "enough (\<lambda>n. andThen (drainPlan eng n P s) (\<lambda>rows s. (s, Inr \<lparr>resSchema = opSchema P, resRows = rows, RowsAffected = 0\<rparr>)) =
      (s', projectRows from es (opSchema root) (whereRows w (opSchema root) (stream s root))))"
      using D(2) by (rule enough_mono) (simp add: projectRows_def P r andThen_map_sum)
    with Inr reads_trans [OF assms(3) D(1)] show ?thesis by (intro exI [of _ s']) simp
  qed
qed

lemma executeSelect_selectRows:
  assumes "inv s" and "tables s from = Some (sch from)"
    and "\<And>j. j \<in> set joins \<Longrightarrow> tables s (joinTable j) = Some (sch (joinTable j))" and "\<And>t c. \<not> indexed s t c"
  shows "\<exists>s'. reads s s' \<and> enough (\<lambda>n. executeSelect eng n txn es from joins w s =
    (s', selectRows sch (\<lambda>t. map snd (view s txn t)) es from joins w))"
proof -
  have "\<exists>s'. findIndexedEquality eng from w s = (s', Inr (None, w)) \<and> reads s s'"
  proof (cases w)
    case None
    with reads_refl [OF assms(1)] show ?thesis by (simp add: findIndexedEquality_def)
  next
    case (Some e)
    with findIndexedEquality_none [OF assms(1,4), of "from" "[]" "splitAndTerms e"] show ?thesis by (auto simp: findIndexedEquality_def)
  qed
  then obtain s1 where 1: "findIndexedEquality eng from w s = (s1, Inr (None, w))" "reads s s1" by blast
  note same1 = reads_same [OF assms(1) 1(2)] reads_inv [OF assms(1) 1(2)]
  with NewScanOp_ok [of s1 "from" "sch from" txn] assms(2) obtain s2 scan where
    2: "NewScanOp eng txn from s1 = (s2, Inr scan)" "reads s1 s2" "ok s2 scan" "opSchema scan = sch from"
    "stream s2 scan = map Inr (map snd (view s txn from))" by auto
  have r2: "reads s s2" by (rule reads_trans [OF 1(2) 2(2)])
  note same2 = reads_same [OF assms(1) r2] reads_inv [OF assms(1) r2]
  from buildJoins_ok [of s2 scan joins sch txn] 2(3) same2 assms(3,4) obtain s3 root where
    3: "buildJoins eng txn scan joins s2 = (s3, Inr root)" "reads s2 s3" "ok s3 root"
    "(opSchema root, stream s3 root) = joinTables sch (\<lambda>t. map snd (view s txn t)) joins (sch from) (map Inr (map snd (view s txn from)))"
    using 2(4,5) by auto
  from filter_project [OF reads_inv [OF same2(2) 3(2)] 3(3) reads_trans [OF r2 3(2)], of "from" w es] obtain s4 where
    4: "reads s s4" "enough (\<lambda>n. executeSelect eng n txn es from joins w s =
      (s4, projectRows from es (opSchema root) (whereRows w (opSchema root) (stream s3 root))))"
    using 1 2 3 by (auto simp: executeSelect_def buildSelectPlan_def buildBaseAccessPath_def Let_def)
  have "projectRows from es (opSchema root) (whereRows w (opSchema root) (stream s3 root)) =
      selectRows sch (\<lambda>t. map snd (view s txn t)) es from joins w"
    using 3(4) [symmetric] by (simp add: selectRows_def)
  with 4 show ?thesis by auto
qed

end

end
