(* ===== verification/Statements.thy ===== *)
theory Statements
  imports Plans "HOL-Library.Multiset"
begin

text \<open>
  INSERT, UPDATE and DELETE over any engine that keeps its promises to a writer, the locale
  \<open>storage_writes\<close>: each call changes the writer's own view of the table as its name says and keeps the
  invariant.  Over such an engine the statements change exactly the rows that their condition selects.
\<close>

section \<open>Selecting and assigning\<close>

text \<open>The rows on which a condition is true, or the error of the first row on which it fails.\<close>

fun matchRows :: "expr option \<Rightarrow> schema \<Rightarrow> (rowID \<times> row) list \<Rightarrow> (rowID \<times> row) list res" where
  "matchRows w sch [] = Inr []"
| "matchRows w sch ((rid, r) # xs) =
     (case evalWhere w r sch of
        Inl e \<Rightarrow> Inl (wrapf ''where clause: %w'' [] e)
      | Inr b \<Rightarrow> (case matchRows w sch xs of Inl e \<Rightarrow> Inl e | Inr ys \<Rightarrow> Inr (if b then (rid, r) # ys else ys)))"

lemma matchRows_Inr:
  "matchRows w sch xs = Inr ys \<Longrightarrow> ys = filter (\<lambda>(_, r). evalWhere w r sch = Inr True) xs"
  by (induction xs arbitrary: ys) (auto split: sum.splits if_splits)

text \<open>The writes of an UPDATE to the values of one row: the column and the value of each assignment, where
  every assignment sees the ones before it.\<close>

fun assignWrites :: "assignment list \<Rightarrow> schema \<Rightarrow> row \<Rightarrow> (nat \<times> val) list option" where
  "assignWrites [] sch r = Some []"
| "assignWrites (a # as) sch r =
     (let idx = ColumnIndex sch (asgColumn a) in
      case eval (asgValue a) r sch of
        Inl _ \<Rightarrow> None
      | Inr v \<Rightarrow>
          if idx < 0 \<or> \<not> vNull v \<and> vType v \<noteq> colType (Columns sch ! nat idx) \<or> nat idx \<ge> length (Values r) then None
          else map_option ((#) (nat idx, v)) (assignWrites as sch (r\<lparr>Values := (Values r)[nat idx := v]\<rparr>)))"

definition writeValues :: "(nat \<times> val) list \<Rightarrow> row \<Rightarrow> row" where
  "writeValues ws r = foldl (\<lambda>r (i, v). r\<lparr>Values := (Values r)[i := v]\<rparr>) r ws"

definition writeThrough :: "('s, 'i) storageEngine \<Rightarrow> txnID \<Rightarrow> string \<Rightarrow> rowID \<Rightarrow> (nat \<times> val) list \<Rightarrow> 's \<Rightarrow> 's" where
  "writeThrough eng txn t rid ws s = foldl (\<lambda>s (i, v). eSetValue eng txn t rid i v s) s ws"

lemma applyUpdateAssignments_ok:
  "assignWrites as sch r = Some ws \<Longrightarrow>
   applyUpdateAssignments eng txn t rid as r sch s = (writeThrough eng txn t rid ws s, Inr (writeValues ws r))"
  by (induction as arbitrary: r ws s) (auto simp: Let_def writeThrough_def writeValues_def split: sum.splits if_splits)

definition assigned :: "assignment list \<Rightarrow> schema \<Rightarrow> row \<Rightarrow> row" where
  "assigned as sch r = writeValues (the (assignWrites as sch r)) r"

lemma mset_subset_distinct: "distinct xs \<Longrightarrow> set xs \<subseteq> set_mset M \<Longrightarrow> mset xs \<subseteq># M"
  by (rule mset_subset_eqI) (auto simp: distinct_count_atmost_1 Suc_le_eq)

lemma distinct_fst_other: "distinct (map fst (x # xs)) \<Longrightarrow> y \<in> set xs \<Longrightarrow> fst y \<noteq> fst x"
  by (metis distinct.simps(2) image_eqI list.simps(9) set_map)

section \<open>Engines that can be written to\<close>

text \<open>\<open>ready s txn t k\<close>: the transaction may write to the table, which has room for \<open>k\<close> more rows;
  \<open>writable\<close>: no other transaction stands in the way; \<open>fits\<close>: values that the table can store, as
  \<open>norm\<close> of them.\<close>

locale storage_writes = storage_reads +
  fixes ready :: "'a \<Rightarrow> txnID \<Rightarrow> string \<Rightarrow> nat \<Rightarrow> bool"
    and writable :: "'a \<Rightarrow> txnID \<Rightarrow> string \<Rightarrow> rowID \<times> row \<Rightarrow> bool"
    and fits :: "'a \<Rightarrow> string \<Rightarrow> val list \<Rightarrow> bool"
    and norm :: "val list \<Rightarrow> val list"
  assumes reads_ready: "inv s \<Longrightarrow> reads s s' \<Longrightarrow> ready s' = ready s \<and> writable s' = writable s \<and> fits s' = fits s"
    and distinct_view: "inv s \<Longrightarrow> distinct (map fst (view s txn t))"
    and insert_law: "inv s \<Longrightarrow> ready s txn t (Suc k) \<Longrightarrow> fits s t vs \<Longrightarrow>
      \<exists>s' rid x. eInsert eng txn t \<lparr>Values = vs, Xmin = 0, Xmax = 0\<rparr> s = (s', Inr rid) \<and> inv s' \<and> ready s' txn t k \<and>
        tables s' = tables s \<and> mset (view s' txn t) = add_mset x (mset (view s txn t)) \<and> Values (snd x) = norm vs"
    and delete_law: "inv s \<Longrightarrow> ready s txn t k \<Longrightarrow> x \<in> set (view s txn t) \<Longrightarrow> writable s txn t x \<Longrightarrow>
      \<exists>s'. eDelete eng txn t (fst x) s = (s', Inr ()) \<and> inv s' \<and> ready s' txn t k \<and> tables s' = tables s \<and>
        view s' txn t = filter (\<lambda>y. fst y \<noteq> fst x) (view s txn t) \<and>
        (\<forall>y. fst y \<noteq> fst x \<longrightarrow> writable s txn t y \<longrightarrow> writable s' txn t y)"
    and update_law: "inv s \<Longrightarrow> ready s txn t (Suc k) \<Longrightarrow> x \<in> set (view s txn t) \<Longrightarrow> writable s txn t x \<Longrightarrow>
      fits s t (Values (writeValues ws (snd x))) \<Longrightarrow>
      \<exists>s' y. eUpdate eng txn t (fst x) (writeValues ws (snd x)) (writeThrough eng txn t (fst x) ws s) = (s', Inr ()) \<and>
        inv s' \<and> ready s' txn t k \<and> tables s' = tables s \<and> fits s' = fits s \<and>
        mset (view s' txn t) = add_mset y (mset (view s txn t) - {#x#}) \<and>
        Values (snd y) = norm (Values (writeValues ws (snd x))) \<and>
        (\<forall>z \<in> set (view s txn t). fst z \<noteq> fst x \<longrightarrow> writable s txn t z \<longrightarrow> writable s' txn t z)"
begin

lemma matchingRows_ok:
  assumes "inv s" and "live s it"
  shows "\<exists>s'. reads s s' \<and> enough (\<lambda>n. matchingRows eng n it w sch s = (s', matchRows w sch (pend s it)))"
  using assms
proof (induction "pend s it" arbitrary: s it)
  case Nil
  from next_law [OF Nil.prems] Nil(1) obtain s' it' where
    "eNext eng it s = (s', Inr (it', None))" "reads s s'" by (metis list.case(1))
  with Nil show ?case by (intro exI [of _ s']) (auto intro: enough_Suc)
next
  case (Cons x xs)
  obtain rid r where x: "x = (rid, r)" by force
  from next_law [OF Cons.prems] Cons(2) [symmetric] obtain s1 it1 where
    N: "eNext eng it s = (s1, Inr (it1, Some x))" "reads s s1" "live s1 it1" "pend s1 it1 = xs" by auto
  from Cons(1) [of s1 it1] N reads_inv [OF Cons.prems(1) N(2)] obtain s2 where
    I: "reads s1 s2" "enough (\<lambda>n. matchingRows eng n it1 w sch s1 = (s2, matchRows w sch xs))" by auto
  show ?case
  proof (cases "evalWhere w r sch")
    case (Inl e)
    with N x Cons(2) [symmetric] show ?thesis by (intro exI [of _ s1]) (auto intro: enough_Suc)
  next
    case (Inr b)
    have "enough (\<lambda>n. matchingRows eng n it w sch s = (s2, matchRows w sch (pend s it)))"
      by (rule enough_SucI [OF I(2)]) (use N x Inr Cons(2) [symmetric] in \<open>auto split: sum.splits bool.splits\<close>)
    with reads_trans [OF N(2) I(1)] show ?thesis by blast
  qed
qed

text \<open>Phase 1 of UPDATE and DELETE.\<close>

lemma scan_matching:
  assumes "inv s" and "tables s t = Some sch"
  shows "\<exists>s1 s2 it. eGetSchema eng t s = (s1, Inr (Some sch)) \<and> (\<exists>s3. eScan eng txn t s1 = (s3, Inr it) \<and>
    enough (\<lambda>n. matchingRows eng n it w sch s3 = (s2, matchRows w sch (view s txn t)))) \<and> reads s s2"
proof -
  from schema_law [OF assms(1), of t] assms(2) obtain s1 where 1: "eGetSchema eng t s = (s1, Inr (Some sch))" "reads s s1" by auto
  note same1 = reads_same [OF assms(1) 1(2)] reads_inv [OF assms(1) 1(2)]
  from scan_law [OF same1(2), of t txn] same1(1) assms(2) obtain s3 it where
    3: "eScan eng txn t s1 = (s3, Inr it)" "reads s1 s3" "live s3 it" "pend s3 it = view s txn t" by auto
  from matchingRows_ok [OF reads_inv [OF same1(2) 3(2)] 3(3), of w sch] 3(4) obtain s2 where
    "reads s3 s2" "enough (\<lambda>n. matchingRows eng n it w sch s3 = (s2, matchRows w sch (view s txn t)))" by auto
  with 1 3 reads_trans [OF reads_trans [OF 1(2) 3(2)]] show ?thesis by blast
qed

lemma deleteRows_ok:
  assumes "inv s" and "ready s txn t k" and "set rows \<subseteq> set (view s txn t)" and "distinct (map fst rows)"
    and "\<And>x. x \<in> set rows \<Longrightarrow> writable s txn t x"
  shows "\<exists>s'. deleteRows eng txn t (map fst rows) s = (s', Inr ()) \<and> inv s' \<and> tables s' = tables s \<and>
    view s' txn t = filter (\<lambda>y. fst y \<notin> fst ` set rows) (view s txn t)"
  using assms
proof (induction rows arbitrary: s)
  case (Cons x rows)
  from delete_law [of s txn t k x] Cons.prems obtain s1 where
    D: "eDelete eng txn t (fst x) s = (s1, Inr ())" "inv s1" "ready s1 txn t k" "tables s1 = tables s"
    "view s1 txn t = filter (\<lambda>y. fst y \<noteq> fst x) (view s txn t)"
    "\<forall>y. fst y \<noteq> fst x \<longrightarrow> writable s txn t y \<longrightarrow> writable s1 txn t y" by auto
  have other: "fst y \<noteq> fst x" if "y \<in> set rows" for y by (rule distinct_fst_other [OF Cons.prems(4) that])
  have "set rows \<subseteq> set (view s1 txn t)" unfolding D(5) using Cons.prems(3) other by auto
  moreover have "writable s1 txn t y" if "y \<in> set rows" for y
    using D(6) other [OF that] Cons.prems(5) [of y] that by (metis list.set_intros(2))
  ultimately obtain s2 where
    "deleteRows eng txn t (map fst rows) s1 = (s2, Inr ())" "inv s2" "tables s2 = tables s"
    "view s2 txn t = filter (\<lambda>y. fst y \<notin> fst ` set rows) (view s1 txn t)"
    using Cons.IH [of s1] Cons.prems(4) D by auto
  with D show ?case by (intro exI [of _ s2]) (auto intro: filter_cong)
qed simp

lemma executeDelete_ok:
  assumes "inv s" and "tables s t = Some sch" and "ready s txn t k" and "matchRows w sch (view s txn t) = Inr rows"
    and "\<And>x. x \<in> set rows \<Longrightarrow> writable s txn t x"
  shows "\<exists>s'. enough (\<lambda>n. executeDelete eng n txn t w s = (s', Inr (emptyResult\<lparr>RowsAffected := length rows\<rparr>))) \<and> inv s' \<and>
    tables s' = tables s \<and> view s' txn t = filter (\<lambda>(_, r). evalWhere w r sch \<noteq> Inr True) (view s txn t)"
proof -
  from scan_matching [OF assms(1,2), of txn w] assms(4) obtain s1 s2 s3 it where
    S: "eGetSchema eng t s = (s1, Inr (Some sch))" "eScan eng txn t s1 = (s3, Inr it)"
    "enough (\<lambda>n. matchingRows eng n it w sch s3 = (s2, Inr rows))" "reads s s2" by auto
  note same = reads_same [OF assms(1) S(4)] reads_inv [OF assms(1) S(4)] reads_ready [OF assms(1) S(4)]
  have rows: "rows = filter (\<lambda>(_, r). evalWhere w r sch = Inr True) (view s txn t)" by (rule matchRows_Inr [OF assms(4)])
  have d: "distinct (map fst (view s txn t))" by (rule distinct_view [OF assms(1)])
  then have "distinct (map fst rows)" unfolding rows by (rule distinct_map_filter)
  with deleteRows_ok [of s2 txn t k rows] same assms(3,5) rows obtain s4 where
    D: "deleteRows eng txn t (map fst rows) s2 = (s4, Inr ())" "inv s4" "tables s4 = tables s"
    "view s4 txn t = filter (\<lambda>y. fst y \<notin> fst ` set rows) (view s txn t)" by auto
  have "fst y \<notin> fst ` set rows \<longleftrightarrow> evalWhere w (snd y) sch \<noteq> Inr True" if "y \<in> set (view s txn t)" for y
    using that d unfolding rows by (force simp: distinct_map inj_on_def)
  then have "view s4 txn t = filter (\<lambda>(_, r). evalWhere w r sch \<noteq> Inr True) (view s txn t)"
    unfolding D(4) by (intro filter_cong) (simp_all add: split_beta)
  moreover have "enough (\<lambda>n. executeDelete eng n txn t w s = (s4, Inr (emptyResult\<lparr>RowsAffected := length rows\<rparr>)))"
    using S(3) by (rule enough_mono) (simp add: executeDelete_def S(1,2) D(1))
  ultimately show ?thesis using D by blast
qed

lemma updateRows_ok:
  assumes "inv s" and "ready s txn t (length rows)" and "set rows \<subseteq> set (view s txn t)" and "distinct (map fst rows)"
    and "\<And>x. x \<in> set rows \<Longrightarrow> writable s txn t x \<and> assignWrites as sch (snd x) \<noteq> None \<and> fits s t (Values (assigned as sch (snd x)))"
  shows "\<exists>s' news. updateRows eng txn t as sch i rows s = (s', Inr ()) \<and> inv s' \<and> tables s' = tables s \<and>
    mset (view s' txn t) = mset (view s txn t) - mset rows + mset news \<and>
    map (Values \<circ> snd) news = map (\<lambda>x. norm (Values (assigned as sch (snd x)))) rows"
  using assms
proof (induction rows arbitrary: s i)
  case (Cons x rows)
  obtain ws where ws: "assignWrites as sch (snd x) = Some ws" using Cons.prems(5) [of x] by auto
  then have asg: "assigned as sch (snd x) = writeValues ws (snd x)" by (simp add: assigned_def)
  have "ready s txn t (Suc (length rows))" "x \<in> set (view s txn t)" "writable s txn t x" "fits s t (Values (writeValues ws (snd x)))"
    using Cons.prems(2,3) Cons.prems(5) [of x] asg by simp_all
  from update_law [OF Cons.prems(1) this] obtain s1 y where
    U: "eUpdate eng txn t (fst x) (writeValues ws (snd x)) (writeThrough eng txn t (fst x) ws s) = (s1, Inr ())"
    "inv s1" "ready s1 txn t (length rows)" "tables s1 = tables s" "fits s1 = fits s"
    "mset (view s1 txn t) = add_mset y (mset (view s txn t) - {#x#})" "Values (snd y) = norm (Values (writeValues ws (snd x)))"
    "\<forall>z \<in> set (view s txn t). fst z \<noteq> fst x \<longrightarrow> writable s txn t z \<longrightarrow> writable s1 txn t z" by blast
  have other: "fst z \<noteq> fst x" "z \<in> set (view s txn t)" if "z \<in> set rows" for z
    using distinct_fst_other [OF Cons.prems(4) that] Cons.prems(3) that by auto
  have mem: "z \<in> set (view s1 txn t)" if "z \<in> set rows" for z
  proof -
    have "z \<in># mset (view s txn t) - {#x#}" using other [OF that] by (auto simp: in_diff_count)
    then show ?thesis using U(6) by (metis insert_iff set_mset_add_mset_insert set_mset_mset)
  qed
  have todo: "writable s1 txn t z \<and> assignWrites as sch (snd z) \<noteq> None \<and> fits s1 t (Values (assigned as sch (snd z)))"
    if "z \<in> set rows" for z using U(5,8) other [OF that] Cons.prems(5) [of z] that by (metis list.set_intros(2))
  have "distinct (map fst rows)" using Cons.prems(4) by simp
  from Cons.IH [OF U(2,3) subsetI [OF mem] this todo, of "Suc i"] U(4) obtain s2 news where
    I: "updateRows eng txn t as sch (Suc i) rows s1 = (s2, Inr ())" "inv s2" "tables s2 = tables s"
    "mset (view s2 txn t) = mset (view s1 txn t) - mset rows + mset news"
    "map (Values \<circ> snd) news = map (\<lambda>x. norm (Values (assigned as sch (snd x)))) rows" by metis
  have "mset (view s2 txn t) = mset (view s txn t) - mset (x # rows) + mset (y # news)"
  proof -
    have "mset rows \<subseteq># mset (view s txn t) - {#x#}"
      by (rule mset_subset_distinct) (use other Cons.prems(4) in \<open>auto simp: in_diff_count distinct_map\<close>)
    from multiset_diff_union_assoc [OF this, of "{#y#}"] show ?thesis unfolding I(4) U(6) by simp
  qed
  with I U ws asg show ?case
    by (intro exI [of _ s2] exI [of _ "y # news"]) (cases x, simp add: applyUpdateAssignments_ok comp_def)
qed simp

lemma executeUpdate_ok:
  assumes "inv s" and "tables s t = Some sch" and "matchRows w sch (view s txn t) = Inr rows" and "ready s txn t (length rows)"
    and "\<And>x. x \<in> set rows \<Longrightarrow> writable s txn t x \<and> assignWrites as sch (snd x) \<noteq> None \<and> fits s t (Values (assigned as sch (snd x)))"
  shows "\<exists>s' news. enough (\<lambda>n. executeUpdate eng n txn t as w s = (s', Inr (emptyResult\<lparr>RowsAffected := length rows\<rparr>))) \<and> inv s' \<and>
    tables s' = tables s \<and> mset (view s' txn t) = mset (filter (\<lambda>(_, r). evalWhere w r sch \<noteq> Inr True) (view s txn t)) + mset news \<and>
    map (Values \<circ> snd) news = map (\<lambda>x. norm (Values (assigned as sch (snd x)))) rows"
proof -
  from scan_matching [OF assms(1,2), of txn w] assms(3) obtain s1 s2 s3 it where
    S: "eGetSchema eng t s = (s1, Inr (Some sch))" "eScan eng txn t s1 = (s3, Inr it)"
    "enough (\<lambda>n. matchingRows eng n it w sch s3 = (s2, Inr rows))" "reads s s2" by auto
  note same = reads_same [OF assms(1) S(4)] reads_inv [OF assms(1) S(4)] reads_ready [OF assms(1) S(4)]
  have rows: "rows = filter (\<lambda>(_, r). evalWhere w r sch = Inr True) (view s txn t)" by (rule matchRows_Inr [OF assms(3)])
  have "distinct (map fst rows)" unfolding rows by (rule distinct_map_filter [OF distinct_view [OF assms(1)]])
  with updateRows_ok [of s2 txn t rows as sch 0] same assms(4,5) rows obtain s4 news where
    U: "updateRows eng txn t as sch 0 rows s2 = (s4, Inr ())" "inv s4" "tables s4 = tables s"
    "mset (view s4 txn t) = mset (view s txn t) - mset rows + mset news"
    "map (Values \<circ> snd) news = map (\<lambda>x. norm (Values (assigned as sch (snd x)))) rows" by auto
  have "mset (view s txn t) - mset rows = mset (filter (\<lambda>(_, r). evalWhere w r sch \<noteq> Inr True) (view s txn t))"
    unfolding rows mset_filter by (simp add: multiset_eq_iff split_beta)
  moreover have "enough (\<lambda>n. executeUpdate eng n txn t as w s = (s4, Inr (emptyResult\<lparr>RowsAffected := length rows\<rparr>)))"
    using S(3) by (rule enough_mono) (simp add: executeUpdate_def S(1,2) U(1))
  ultimately show ?thesis using U by metis
qed

lemma executeInsert_ok:
  assumes "inv s" and "tables s t = Some sch" and "length es = length (Columns sch)" and "insertValues t es (Columns sch) = Inr vs"
    and "ready s txn t (Suc k)" and "fits s t vs"
  shows "\<exists>s' x. executeInsert eng txn t es s = (s', Inr (emptyResult\<lparr>RowsAffected := 1\<rparr>)) \<and> inv s' \<and> tables s' = tables s \<and>
    mset (view s' txn t) = add_mset x (mset (view s txn t)) \<and> Values (snd x) = norm vs"
proof -
  from schema_law [OF assms(1), of t] assms(2) obtain s1 where 1: "eGetSchema eng t s = (s1, Inr (Some sch))" "reads s s1" by auto
  note same = reads_same [OF assms(1) 1(2)] reads_inv [OF assms(1) 1(2)] reads_ready [OF assms(1) 1(2)]
  from insert_law [of s1 txn t k vs] same assms(5,6) obtain s2 rid x where
    "eInsert eng txn t \<lparr>Values = vs, Xmin = 0, Xmax = 0\<rparr> s1 = (s2, Inr rid)" "inv s2" "tables s2 = tables s"
    "mset (view s2 txn t) = add_mset x (mset (view s txn t))" "Values (snd x) = norm vs" by auto
  with 1 assms(3,4) show ?thesis by (intro exI [of _ s2] exI [of _ x]) (simp add: executeInsert_def)
qed

end

end
