(* ===== verification/Memstore.thy ===== *)
theory Memstore
  imports Statements "HOL-Library.AList" "HOL-Library.List_Lexorder" "HOL-Library.Char_ord"
begin

text \<open>
  The in-memory engine (\<^verbatim>\<open>src/memstore/memstore.go\<close>).  A row is a struct with a slice of values, and
  rows are handed out and stored without copying the slice: the model has a store of slices, and a row
  in the engine holds the address of its slice.  Address 0 is the nil slice.  Every method holds the
  mutex from beginning to end and calls no other method while it does, so a method is one step.  Go
  maps that are iterated over are association lists without duplicate keys.
\<close>

section \<open>State\<close>

type_synonym slice = nat

record sliceRow =
  srValues :: slice
  srXmin :: txnID
  srXmax :: txnID

record memTable =
  mtSchema :: schema
  mtRows :: "(rowID \<times> sliceRow) list"
  mtRowTxns :: "rowID \<rightharpoonup> txnID"

record pendingChange =
  pcRowID :: rowID
  pcRow :: sliceRow
  pcIsDelete :: bool

record memEngine =
  mTables :: "(string \<times> memTable) list"
  mIndexes :: "string set"
  mNextID :: rowID
  mNextTx :: txnID
  mPending :: "txnID \<rightharpoonup> (string \<times> pendingChange list) list"
  mActiveTxns :: "txnID set"
  mStatsCache :: "string \<rightharpoonup> tableStats"
  slices :: "slice \<Rightarrow> val list"
  nextSlice :: slice

definition mem_New :: memEngine where
  "mem_New = \<lparr>mTables = [], mIndexes = {}, mNextID = 0, mNextTx = 0, mPending = Map.empty, mActiveTxns = {},
     mStatsCache = Map.empty, slices = (\<lambda>_. []), nextSlice = 1\<rparr>"

text \<open>A row as its user sees it, and a new slice.\<close>

definition loadRow :: "memEngine \<Rightarrow> sliceRow \<Rightarrow> row" where
  "loadRow e r = \<lparr>Values = slices e (srValues r), Xmin = srXmin r, Xmax = srXmax r\<rparr>"

definition makeSlice :: "val list \<Rightarrow> memEngine \<Rightarrow> memEngine \<times> slice" where
  "makeSlice vs e = (e\<lparr>slices := (slices e)(nextSlice e := vs), nextSlice := Suc (nextSlice e)\<rparr>, nextSlice e)"

definition updMemTable :: "string \<Rightarrow> (memTable \<Rightarrow> memTable) \<Rightarrow> memEngine \<Rightarrow> memEngine" where
  "updMemTable name f e =
     (case map_of (mTables e) name of
        None \<Rightarrow> e
      | Some t \<Rightarrow> e\<lparr>mTables := AList.update name (f t) (mTables e)\<rparr>)"

section \<open>Transactions\<close>

definition commitChange :: "pendingChange \<Rightarrow> memTable \<Rightarrow> memTable" where
  "commitChange c t =
     (if pcIsDelete c then
        t\<lparr>mtRows := AList.delete (pcRowID c) (mtRows t), mtRowTxns := (mtRowTxns t)(pcRowID c := None)\<rparr>
      else t\<lparr>mtRows := AList.update (pcRowID c) (pcRow c) (mtRows t), mtRowTxns := (mtRowTxns t)(pcRowID c \<mapsto> 0)\<rparr>)"

definition mem_Commit :: "txnID \<Rightarrow> memEngine \<Rightarrow> memEngine \<times> unit res" where
  "mem_Commit tx e =
     (let e1 = (case mPending e tx of
          None \<Rightarrow> e
        | Some pending \<Rightarrow>
            (fold (\<lambda>(name, changes). updMemTable name (fold commitChange changes)) pending e)\<lparr>mPending := (mPending e)(tx := None)\<rparr>)
      in (e1\<lparr>mActiveTxns := mActiveTxns e1 - {tx}\<rparr>, Inr ()))"

definition releaseChange :: "txnID \<Rightarrow> pendingChange \<Rightarrow> memTable \<Rightarrow> memTable" where
  "releaseChange tx c t =
     (if mtRowTxns t (pcRowID c) = Some tx then t\<lparr>mtRowTxns := (mtRowTxns t)(pcRowID c \<mapsto> 0)\<rparr> else t)"

definition mem_Rollback :: "txnID \<Rightarrow> memEngine \<Rightarrow> memEngine \<times> unit res" where
  "mem_Rollback tx e =
     (let e1 = (case mPending e tx of
          None \<Rightarrow> e
        | Some pending \<Rightarrow> fold (\<lambda>(name, changes). updMemTable name (fold (releaseChange tx) changes)) pending e)
      in (e1\<lparr>mPending := (mPending e1)(tx := None), mActiveTxns := mActiveTxns e1 - {tx}\<rparr>, Inr ()))"

definition mem_Begin :: "memEngine \<Rightarrow> memEngine \<times> txnID res" where
  "mem_Begin e =
     (let tx = mNextTx e + 1 in (e\<lparr>mNextTx := tx, mActiveTxns := insert tx (mActiveTxns e)\<rparr>, Inr tx))"

section \<open>Tables\<close>

definition mem_CreateTable :: "string \<Rightarrow> schema \<Rightarrow> memEngine \<Rightarrow> memEngine \<times> unit res" where
  "mem_CreateTable name sch e =
     (if map_of (mTables e) name \<noteq> None then (e, Inl (Errorf ''table %q already exists'' [ArgStr name]))
      else (e\<lparr>mTables := AList.update name \<lparr>mtSchema = sch, mtRows = [], mtRowTxns = Map.empty\<rparr> (mTables e)\<rparr>, Inr ()))"

definition mem_DropTable :: "string \<Rightarrow> memEngine \<Rightarrow> memEngine \<times> unit res" where
  "mem_DropTable name e =
     (if map_of (mTables e) name = None then (e, Inl (Errorf ''table %q does not exist'' [ArgStr name]))
      else (e\<lparr>mTables := AList.delete name (mTables e)\<rparr>, Inr ()))"

definition mem_GetSchema :: "string \<Rightarrow> memEngine \<Rightarrow> memEngine \<times> schema option res" where
  "mem_GetSchema name e = (e, Inr (map_option mtSchema (map_of (mTables e) name)))"

definition mem_ListTables :: "memEngine \<Rightarrow> memEngine \<times> string list res" where
  "mem_ListTables e = (e, Inr (sort (map fst (mTables e))))"

section \<open>Rows\<close>

definition addPending :: "txnID \<Rightarrow> string \<Rightarrow> pendingChange \<Rightarrow> memEngine \<Rightarrow> memEngine" where
  "addPending tx name c e =
     (let pend = (case mPending e tx of None \<Rightarrow> [] | Some p \<Rightarrow> p);
          changes = (case map_of pend name of None \<Rightarrow> [] | Some cs \<Rightarrow> cs)
      in e\<lparr>mPending := (mPending e)(tx \<mapsto> AList.update name (changes @ [c]) pend)\<rparr>)"

text \<open>A nil transaction is \<open>None\<close>.\<close>

definition mem_Insert :: "txnID option \<Rightarrow> string \<Rightarrow> sliceRow \<Rightarrow> memEngine \<Rightarrow> memEngine \<times> rowID res" where
  "mem_Insert txn name r e =
     (case map_of (mTables e) name of
        None \<Rightarrow> (e, Inl (Errorf ''table %q does not exist'' [ArgStr name]))
      | Some t \<Rightarrow>
          if length (slices e (srValues r)) \<noteq> length (Columns (mtSchema t)) then
            (e, Inl (Errorf ''insert has %d values, table has %d columns''
              [ArgInt (int (length (slices e (srValues r)))), ArgInt (int (length (Columns (mtSchema t))))]))
          else let rid = mNextID e + 1; e1 = e\<lparr>mNextID := rid\<rparr> in
            (case txn of
               Some tx \<Rightarrow> (addPending tx name \<lparr>pcRowID = rid, pcRow = r, pcIsDelete = False\<rparr> e1, Inr rid)
             | None \<Rightarrow>
                 (updMemTable name (\<lambda>t. t\<lparr>mtRows := AList.update rid r (mtRows t), mtRowTxns := (mtRowTxns t)(rid \<mapsto> 0)\<rparr>) e1, Inr rid)))"

text \<open>The checks that \<^verbatim>\<open>Update\<close> and \<^verbatim>\<open>Delete\<close> share.\<close>

definition conflicting :: "txnID option \<Rightarrow> memTable \<Rightarrow> rowID \<Rightarrow> memEngine \<Rightarrow> bool" where
  "conflicting txn t rid e \<longleftrightarrow>
     (case (txn, mtRowTxns t rid) of
        (Some tx, Some owner) \<Rightarrow> owner \<noteq> 0 \<and> owner \<noteq> tx \<and> owner \<in> mActiveTxns e
      | _ \<Rightarrow> False)"

definition mem_Update :: "txnID option \<Rightarrow> string \<Rightarrow> rowID \<Rightarrow> sliceRow \<Rightarrow> memEngine \<Rightarrow> memEngine \<times> unit res" where
  "mem_Update txn name rid r e =
     (case map_of (mTables e) name of
        None \<Rightarrow> (e, Inl (Errorf ''table %q does not exist'' [ArgStr name]))
      | Some t \<Rightarrow>
          if map_of (mtRows t) rid = None then (e, Inl (Errorf ''row %d not found in %q'' [ArgInt (uint rid), ArgStr name]))
          else if conflicting txn t rid e then (e, Inl (Sentinel ErrWriteConflict))
          else if length (slices e (srValues r)) \<noteq> length (Columns (mtSchema t)) then
            (e, Inl (Errorf ''update has %d values, table has %d columns''
              [ArgInt (int (length (slices e (srValues r)))), ArgInt (int (length (Columns (mtSchema t))))]))
          else (case txn of
              Some tx \<Rightarrow>
                (updMemTable name (\<lambda>t. t\<lparr>mtRowTxns := (mtRowTxns t)(rid \<mapsto> tx)\<rparr>)
                   (addPending tx name \<lparr>pcRowID = rid, pcRow = r, pcIsDelete = False\<rparr> e), Inr ())
            | None \<Rightarrow>
                (updMemTable name (\<lambda>t. t\<lparr>mtRows := AList.update rid r (mtRows t), mtRowTxns := (mtRowTxns t)(rid \<mapsto> 0)\<rparr>) e, Inr ())))"

definition mem_Delete :: "txnID option \<Rightarrow> string \<Rightarrow> rowID \<Rightarrow> memEngine \<Rightarrow> memEngine \<times> unit res" where
  "mem_Delete txn name rid e =
     (case map_of (mTables e) name of
        None \<Rightarrow> (e, Inl (Errorf ''table %q does not exist'' [ArgStr name]))
      | Some t \<Rightarrow>
          if map_of (mtRows t) rid = None then (e, Inl (Errorf ''row %d not found in %q'' [ArgInt (uint rid), ArgStr name]))
          else if conflicting txn t rid e then (e, Inl (Sentinel ErrWriteConflict))
          else (case txn of
              Some tx \<Rightarrow>
                (updMemTable name (\<lambda>t. t\<lparr>mtRowTxns := (mtRowTxns t)(rid \<mapsto> tx)\<rparr>)
                   (addPending tx name \<lparr>pcRowID = rid, pcRow = \<lparr>srValues = 0, srXmin = 0, srXmax = 0\<rparr>, pcIsDelete = True\<rparr> e), Inr ())
            | None \<Rightarrow>
                (updMemTable name (\<lambda>t. t\<lparr>mtRows := AList.delete rid (mtRows t), mtRowTxns := (mtRowTxns t)(rid := None)\<rparr>) e, Inr ())))"

section \<open>Scans\<close>

record memIterator =
  miIds :: "rowID list"
  miRows :: "(rowID \<times> sliceRow) list"
  miPos :: nat

definition scanChange :: "pendingChange \<Rightarrow> (rowID \<times> sliceRow) list \<Rightarrow> (rowID \<times> sliceRow) list" where
  "scanChange c rows = (if pcIsDelete c then AList.delete (pcRowID c) rows else AList.update (pcRowID c) (pcRow c) rows)"

definition pendingFor :: "txnID option \<Rightarrow> string \<Rightarrow> memEngine \<Rightarrow> pendingChange list" where
  "pendingFor txn name e =
     (case txn of None \<Rightarrow> []
      | Some tx \<Rightarrow> (case mPending e tx of None \<Rightarrow> []
          | Some pend \<Rightarrow> (case map_of pend name of None \<Rightarrow> [] | Some cs \<Rightarrow> cs)))"

definition mem_Scan :: "txnID option \<Rightarrow> string \<Rightarrow> memEngine \<Rightarrow> memEngine \<times> memIterator res" where
  "mem_Scan txn name e =
     (case map_of (mTables e) name of
        None \<Rightarrow> (e, Inl (Errorf ''table %q does not exist'' [ArgStr name]))
      | Some t \<Rightarrow>
          let rowsCopy = fold scanChange (pendingFor txn name e) (mtRows t)
          in (e, Inr \<lparr>miIds = sort (map fst rowsCopy), miRows = rowsCopy, miPos = 0\<rparr>))"

text \<open>\<^verbatim>\<open>it.rows[id]\<close> of a missing key is the zero struct.\<close>

definition rowAt :: "memIterator \<Rightarrow> rowID \<Rightarrow> sliceRow" where
  "rowAt it rid = (case map_of (miRows it) rid of None \<Rightarrow> \<lparr>srValues = 0, srXmin = 0, srXmax = 0\<rparr> | Some r \<Rightarrow> r)"

definition mem_Next :: "memIterator \<Rightarrow> memEngine \<Rightarrow> memIterator \<times> (rowID \<times> row) option" where
  "mem_Next it e =
     (if miPos it \<ge> length (miIds it) then (it, None)
      else let rid = miIds it ! miPos it in (it\<lparr>miPos := Suc (miPos it)\<rparr>, Some (rid, loadRow e (rowAt it rid))))"

section \<open>Indexes\<close>

definition indexKey :: "string \<Rightarrow> string \<Rightarrow> string" where
  "indexKey table column = table @ '':'' @ column"

definition mem_CreateIndex :: "string \<Rightarrow> string \<Rightarrow> memEngine \<Rightarrow> memEngine \<times> unit res" where
  "mem_CreateIndex table column e = (e\<lparr>mIndexes := insert (indexKey table column) (mIndexes e)\<rparr>, Inr ())"

definition mem_HasIndex :: "string \<Rightarrow> string \<Rightarrow> memEngine \<Rightarrow> memEngine \<times> bool res" where
  "mem_HasIndex table column e = (e, Inr (indexKey table column \<in> mIndexes e))"

record memstoreIndexIterator =
  xiBase :: memIterator
  xiColIdx :: nat
  xiTarget :: val

definition mem_SeekIndex :: "txnID option \<Rightarrow> string \<Rightarrow> string \<Rightarrow> val \<Rightarrow> memEngine \<Rightarrow> memEngine \<times> memstoreIndexIterator res" where
  "mem_SeekIndex txn table column key e =
     andThen (mem_GetSchema table e) (\<lambda>schema e.
       case schema of
         None \<Rightarrow> (e, Inl (Errorf ''table %q does not exist'' [ArgStr table]))
       | Some sch \<Rightarrow>
           let colIdx = ColumnIndex sch column in
           if colIdx < 0 then (e, Inl (Errorf ''column %q not found in table %q'' [ArgStr column, ArgStr table]))
           else andThen (mem_Scan txn table e) (\<lambda>iter e. (e, Inr \<lparr>xiBase = iter, xiColIdx = nat colIdx, xiTarget = key\<rparr>)))"

text \<open>The loop of \<^verbatim>\<open>memstoreIndexIterator.Next\<close>; the number of rows left bounds it.\<close>

fun indexNext_loop :: "nat \<Rightarrow> memstoreIndexIterator \<Rightarrow> memEngine \<Rightarrow> (memstoreIndexIterator \<times> (rowID \<times> row) option) res" where
  "indexNext_loop 0 it e = Inl Diverges"
| "indexNext_loop (Suc n) it e =
     (case mem_Next (xiBase it) e of
        (base, None) \<Rightarrow> Inr (it\<lparr>xiBase := base\<rparr>, None)
      | (base, Some (rid, r)) \<Rightarrow>
          if xiColIdx it \<ge> length (Values r) then Inl (Panic ''index out of range'')
          else if Compare (Values r ! xiColIdx it) (xiTarget it) = Inr 0 then Inr (it\<lparr>xiBase := base\<rparr>, Some (rid, r))
          else indexNext_loop n (it\<lparr>xiBase := base\<rparr>) e)"

definition mem_IndexNext :: "memstoreIndexIterator \<Rightarrow> memEngine \<Rightarrow> (memstoreIndexIterator \<times> (rowID \<times> row) option) res" where
  "mem_IndexNext it e = indexNext_loop (Suc (length (miIds (xiBase it)) - miPos (xiBase it))) it e"

section \<open>Statistics\<close>

definition nullColumnStats :: "column \<Rightarrow> columnStats" where
  "nullColumnStats col = \<lparr>DistinctCount = 0, NullCount = 0, statMin = NullValue (colType col), statMax = NullValue (colType col)\<rparr>"

text \<open>One value of a column: the statistics so far, and the texts of the values seen.\<close>

definition memStatValue :: "val \<Rightarrow> columnStats \<times> string list \<Rightarrow> columnStats \<times> string list" where
  "memStatValue v = (\<lambda>(c, seen).
     if vNull v then (c\<lparr>NullCount := NullCount c + 1\<rparr>, seen)
     else
       let c1 = (if vNull (statMin c) then c\<lparr>statMin := v\<rparr>
                 else case Compare v (statMin c) of Inr cmp \<Rightarrow> if cmp < 0 then c\<lparr>statMin := v\<rparr> else c | Inl _ \<Rightarrow> c);
           c2 = (if vNull (statMax c1) then c1\<lparr>statMax := v\<rparr>
                 else case Compare v (statMax c1) of Inr cmp \<Rightarrow> if cmp > 0 then c1\<lparr>statMax := v\<rparr> else c1 | Inl _ \<Rightarrow> c1)
       in (c2, List.insert (Value_String v) seen))"

definition memColumnStats :: "column \<Rightarrow> val list \<Rightarrow> columnStats" where
  "memColumnStats col vs =
     (case fold memStatValue vs (nullColumnStats col, []) of (c, seen) \<Rightarrow> c\<lparr>DistinctCount := length seen\<rparr>)"

text \<open>The statistics of a table; a column name that occurs twice collects the values of both columns.
  A row with fewer values than columns is a run-time panic.\<close>

definition memTableStats :: "memEngine \<Rightarrow> memTable \<Rightarrow> tableStats res" where
  "memTableStats e t =
     (let cols = Columns (mtSchema t); rows = map (\<lambda>(_, r). slices e (srValues r)) (mtRows t) in
      if \<exists>vs \<in> set rows. length vs < length cols then Inl (Panic ''index out of range'')
      else Inr \<lparr>RowCount = length rows,
                statColumns = fold (\<lambda>col m.
                  m(colName col \<mapsto> (if rows = [] then nullColumnStats col
                    else memColumnStats col
                      (concat (map (\<lambda>vs. map snd (filter (\<lambda>(c, v). colName c = colName col) (zip cols vs))) rows)))))
                  cols Map.empty\<rparr>)"

definition mem_Analyze :: "string \<Rightarrow> memEngine \<Rightarrow> memEngine \<times> unit res" where
  "mem_Analyze table e =
     (case map_of (mTables e) table of
        None \<Rightarrow> (e, Inl (Errorf ''table %q does not exist'' [ArgStr table]))
      | Some t \<Rightarrow>
          (case memTableStats e t of
             Inl err \<Rightarrow> (e, Inl err)
           | Inr st \<Rightarrow> (e\<lparr>mStatsCache := (mStatsCache e)(table \<mapsto> st)\<rparr>, Inr ())))"

definition mem_Stats :: "string \<Rightarrow> memEngine \<Rightarrow> memEngine \<times> tableStats option res" where
  "mem_Stats table e =
     (case mStatsCache e table of
        Some st \<Rightarrow> (e, Inr (Some st))
      | None \<Rightarrow>
          (case map_of (mTables e) table of
             None \<Rightarrow> (e, Inr None)
           | Some t \<Rightarrow>
               (case memTableStats e t of
                  Inl err \<Rightarrow> (e, Inl err)
                | Inr st \<Rightarrow> (e\<lparr>mStatsCache := (mStatsCache e)(table \<mapsto> st)\<rparr>, Inr (Some st)))))"

end
