(* ===== verification/MemstoreOps.thy ===== *)
theory MemstoreOps
  imports Memstore
begin

text \<open>
  The in-memory engine behind the executor's interface: the interpretations of \<open>storage_reads\<close> and
  \<open>storage_writes\<close> on it, its invariant, and what sharing slices with the executor means for an UPDATE.
\<close>

section \<open>The interface\<close>

datatype memRowIterator = BaseIter memIterator | IndexIter memstoreIndexIterator

fun memIteratorNext :: "memRowIterator \<Rightarrow> memEngine \<Rightarrow> memEngine \<times> (memRowIterator \<times> (rowID \<times> row) option) res" where
  "memIteratorNext (BaseIter it) e = (case mem_Next it e of (it, x) \<Rightarrow> (e, Inr (BaseIter it, x)))"
| "memIteratorNext (IndexIter it) e =
     (case mem_IndexNext it e of Inl err \<Rightarrow> (e, Inl err) | Inr (it, x) \<Rightarrow> (e, Inr (IndexIter it, x)))"

text \<open>The rows of a table as a transaction's scan collects them.\<close>

definition scanRows :: "memEngine \<Rightarrow> txnID \<Rightarrow> string \<Rightarrow> (rowID \<times> sliceRow) list" where
  "scanRows e txn t = (case map_of (mTables e) t of None \<Rightarrow> [] | Some tab \<Rightarrow> fold scanChange (pendingFor (Some txn) t e) (mtRows tab))"

text \<open>The executor inserts a row with a slice it has just made, and updates a row with the slice that its scan
  returned, into which it has written the new values.\<close>

definition scannedSlice :: "memEngine \<Rightarrow> txnID \<Rightarrow> string \<Rightarrow> rowID \<Rightarrow> slice" where
  "scannedSlice e txn t rid = (case map_of (scanRows e txn t) rid of None \<Rightarrow> 0 | Some r \<Rightarrow> srValues r)"

definition memInsertRow :: "txnID \<Rightarrow> string \<Rightarrow> row \<Rightarrow> memEngine \<Rightarrow> memEngine \<times> rowID res" where
  "memInsertRow txn t r e =
     (case makeSlice (Values r) e of
        (e, a) \<Rightarrow> mem_Insert (Some txn) t \<lparr>srValues = a, srXmin = Xmin r, srXmax = Xmax r\<rparr> e)"

definition memUpdateRow :: "txnID \<Rightarrow> string \<Rightarrow> rowID \<Rightarrow> row \<Rightarrow> memEngine \<Rightarrow> memEngine \<times> unit res" where
  "memUpdateRow txn t rid r e =
     mem_Update (Some txn) t rid \<lparr>srValues = scannedSlice e txn t rid, srXmin = Xmin r, srXmax = Xmax r\<rparr> e"

definition memSetValue :: "txnID \<Rightarrow> string \<Rightarrow> rowID \<Rightarrow> nat \<Rightarrow> val \<Rightarrow> memEngine \<Rightarrow> memEngine" where
  "memSetValue txn t rid i v e =
     (let a = scannedSlice e txn t rid in e\<lparr>slices := (slices e)(a := (slices e a)[i := v])\<rparr>)"

definition memOps :: "(memEngine, memRowIterator) storageEngine" where
  "memOps = \<lparr>
     eBegin = mem_Begin, eCommit = mem_Commit, eRollback = mem_Rollback,
     eCreateTable = (\<lambda>_. mem_CreateTable), eDropTable = (\<lambda>_. mem_DropTable), eGetSchema = mem_GetSchema,
     eListTables = mem_ListTables,
     eInsert = memInsertRow, eUpdate = memUpdateRow, eDelete = (\<lambda>txn. mem_Delete (Some txn)),
     eScan = (\<lambda>txn t e. andThen (mem_Scan (Some txn) t e) (\<lambda>it e. (e, Inr (BaseIter it)))),
     eNext = memIteratorNext,
     eCreateIndex = (\<lambda>_. mem_CreateIndex), eHasIndex = mem_HasIndex,
     eSeekIndex = (\<lambda>txn t c key e. andThen (mem_SeekIndex (Some txn) t c key e) (\<lambda>it e. (e, Inr (IndexIter it)))),
     eAnalyze = (\<lambda>_. mem_Analyze), eStats = mem_Stats,
     eSetValue = memSetValue\<rparr>"

lemma memOps_sel [simp]:
  "eBegin memOps = mem_Begin" "eCommit memOps = mem_Commit" "eRollback memOps = mem_Rollback"
  "eGetSchema memOps = mem_GetSchema" "eHasIndex memOps = mem_HasIndex" "eNext memOps = memIteratorNext"
  "eInsert memOps = memInsertRow" "eUpdate memOps = memUpdateRow" "eDelete memOps = (\<lambda>txn. mem_Delete (Some txn))"
  "eScan memOps = (\<lambda>txn t e. andThen (mem_Scan (Some txn) t e) (\<lambda>it e. (e, Inr (BaseIter it))))"
  "eSeekIndex memOps = (\<lambda>txn t c key e. andThen (mem_SeekIndex (Some txn) t c key e) (\<lambda>it e. (e, Inr (IndexIter it))))"
  "eSetValue memOps = memSetValue"
  by (simp_all add: memOps_def)

section \<open>Invariant\<close>

text \<open>The slices that the engine holds, each with the row it belongs to.\<close>

inductive owned :: "memEngine \<Rightarrow> slice \<Rightarrow> rowID \<Rightarrow> bool" for e where
  owned_row: "map_of (mTables e) t = Some tab \<Longrightarrow> (rid, r) \<in> set (mtRows tab) \<Longrightarrow> owned e (srValues r) rid"
| owned_pending: "c \<in> set (pendingFor (Some tx) t e) \<Longrightarrow> \<not> pcIsDelete c \<Longrightarrow> owned e (srValues (pcRow c)) (pcRowID c)"

text \<open>Row identifiers are keys, slices were made and belong to one row each, and identifiers were given out.\<close>

definition mem_inv :: "memEngine \<Rightarrow> bool" where
  "mem_inv e \<longleftrightarrow>
     (\<forall>t tab. map_of (mTables e) t = Some tab \<longrightarrow> distinct (map fst (mtRows tab))) \<and>
     (\<forall>a rid. owned e a rid \<longrightarrow> a < nextSlice e \<and> rid \<le> mNextID e) \<and>
     (\<forall>a rid rid'. owned e a rid \<longrightarrow> owned e a rid' \<longrightarrow> rid = rid') \<and>
     (\<forall>tx p. mPending e tx = Some p \<longrightarrow> distinct (map fst p))"

definition memSchema :: "memEngine \<Rightarrow> string \<Rightarrow> schema option" where
  "memSchema e t = map_option mtSchema (map_of (mTables e) t)"

definition viewRow :: "memEngine \<Rightarrow> (rowID \<times> sliceRow) list \<Rightarrow> rowID \<Rightarrow> rowID \<times> row" where
  "viewRow e rows rid =
     (rid, loadRow e (case map_of rows rid of None \<Rightarrow> \<lparr>srValues = 0, srXmin = 0, srXmax = 0\<rparr> | Some r \<Rightarrow> r))"

definition memView :: "memEngine \<Rightarrow> txnID \<Rightarrow> string \<Rightarrow> (rowID \<times> row) list" where
  "memView e txn t = (let rows = scanRows e txn t in map (viewRow e rows) (sort (map fst rows)))"

lemma fst_viewRow [simp]: "fst (viewRow e rows rid) = rid"
  by (simp add: viewRow_def)

definition baseRows :: "memEngine \<Rightarrow> memIterator \<Rightarrow> (rowID \<times> row) list" where
  "baseRows e it = map (viewRow e (miRows it)) (drop (miPos it) (miIds it))"

fun memIter_rows :: "memEngine \<Rightarrow> memRowIterator \<Rightarrow> (rowID \<times> row) list" where
  "memIter_rows e (BaseIter it) = baseRows e it"
| "memIter_rows e (IndexIter it) =
     filter (\<lambda>x. Compare (Values (snd x) ! xiColIdx it) (xiTarget it) = Inr 0) (baseRows e (xiBase it))"

fun memIter_live :: "memEngine \<Rightarrow> memRowIterator \<Rightarrow> bool" where
  "memIter_live e (BaseIter it) \<longleftrightarrow> True"
| "memIter_live e (IndexIter it) \<longleftrightarrow> (\<forall>x \<in> set (baseRows e (xiBase it)). xiColIdx it < length (Values (snd x)))"

definition mem_seekable :: "memEngine \<Rightarrow> txnID \<Rightarrow> string \<Rightarrow> string \<Rightarrow> bool" where
  "mem_seekable e txn t c \<longleftrightarrow> (\<exists>sch. memSchema e t = Some sch \<and> 0 \<le> ColumnIndex sch c \<and>
     (\<forall>x \<in> set (memView e txn t). nat (ColumnIndex sch c) < length (Values (snd x))))"

definition mem_seekRows :: "memEngine \<Rightarrow> txnID \<Rightarrow> string \<Rightarrow> string \<Rightarrow> val \<Rightarrow> (rowID \<times> row) list" where
  "mem_seekRows e txn t c key =
     filter (\<lambda>x. Compare (Values (snd x) ! nat (ColumnIndex (the (memSchema e t)) c)) key = Inr 0) (memView e txn t)"

section \<open>Reading\<close>

lemma mem_Next_rows:
  "mem_Next it e = (let xs = baseRows e it in
     (if xs = [] then it else it\<lparr>miPos := Suc (miPos it)\<rparr>, case xs of [] \<Rightarrow> None | x # _ \<Rightarrow> Some x))"
proof (cases "miPos it < length (miIds it)")
  case True
  then show ?thesis by (simp add: mem_Next_def baseRows_def Let_def viewRow_def rowAt_def Cons_nth_drop_Suc [symmetric])
qed (simp add: mem_Next_def baseRows_def)

lemma baseRows_Suc: "baseRows e (it\<lparr>miPos := Suc (miPos it)\<rparr>) = tl (baseRows e it)"
  by (simp add: baseRows_def drop_Suc drop_tl map_tl)

lemma indexNext_loop_ok:
  assumes "memIter_live e (IndexIter it)" and "length (miIds (xiBase it)) - miPos (xiBase it) < n"
  shows "\<exists>it'. indexNext_loop n it e = Inr (it', case memIter_rows e (IndexIter it) of [] \<Rightarrow> None | x # _ \<Rightarrow> Some x) \<and>
    memIter_live e (IndexIter it') \<and> memIter_rows e (IndexIter it') = tl (memIter_rows e (IndexIter it))"
  using assms
proof (induction n arbitrary: it)
  case (Suc n)
  let ?it = "it\<lparr>xiBase := xiBase it\<lparr>miPos := Suc (miPos (xiBase it))\<rparr>\<rparr>"
  show ?case
  proof (cases "baseRows e (xiBase it)")
    case Nil
    then show ?thesis by (intro exI [of _ it]) (simp add: mem_Next_rows)
  next
    case (Cons x xs)
    obtain rid r where x: "x = (rid, r)" by force
    have N: "mem_Next (xiBase it) e = (xiBase ?it, Some (rid, r))" using Cons x by (simp add: mem_Next_rows)
    have xs: "baseRows e (xiBase ?it) = xs" using Cons baseRows_Suc by simp
    have live: "memIter_live e (IndexIter ?it)" "xiColIdx it < length (Values r)"
      using Suc.prems(1) xs Cons x by (simp_all)
    have "miPos (xiBase it) < length (miIds (xiBase it))"
      using Cons by (metis drop_eq_Nil linorder_not_less list.distinct(1) list.map_disc_iff baseRows_def)
    then have "length (miIds (xiBase ?it)) - miPos (xiBase ?it) < n" using Suc.prems(2) by simp
    note IH = Suc.IH [OF live(1) this]
    show ?thesis
    proof (cases "Compare (Values r ! xiColIdx it) (xiTarget it) = Inr 0")
      case True
      then show ?thesis using N xs live Cons x by (intro exI [of _ ?it]) (simp)
    next
      case False
      then have "memIter_rows e (IndexIter it) = memIter_rows e (IndexIter ?it)" using xs Cons x by (simp)
      with IH N False live(2) show ?thesis by (simp del: memIter_rows.simps memIter_live.simps)
    qed
  qed
qed simp

lemma memIteratorNext_ok:
  assumes "memIter_live e it"
  shows "\<exists>it'. memIteratorNext it e = (e, Inr (it', case memIter_rows e it of [] \<Rightarrow> None | x # _ \<Rightarrow> Some x)) \<and>
    memIter_live e it' \<and> memIter_rows e it' = tl (memIter_rows e it)"
proof (cases it)
  case (BaseIter b)
  show ?thesis
    by (intro exI [of _ "BaseIter (if memIter_rows e it = [] then b else b\<lparr>miPos := Suc (miPos b)\<rparr>)"])
      (use baseRows_Suc [of e b] in \<open>simp add: BaseIter mem_Next_rows Let_def\<close>)
next
  case (IndexIter x)
  with indexNext_loop_ok [of e x "Suc (length (miIds (xiBase x)) - miPos (xiBase x))"] assms show ?thesis
    by (auto simp: mem_IndexNext_def simp del: memIter_rows.simps memIter_live.simps indexNext_loop.simps)
qed

lemma mem_Scan_ok:
  assumes "memSchema e t \<noteq> None"
  shows "\<exists>it. mem_Scan (Some txn) t e = (e, Inr it) \<and> baseRows e it = memView e txn t"
  using assms by (auto simp: mem_Scan_def memSchema_def memView_def scanRows_def baseRows_def Let_def)

interpretation me: storage_reads memOps mem_inv "(=)" memIter_live memIter_rows memSchema memView
  "\<lambda>e t c. indexKey t c \<in> mIndexes e" mem_seekable mem_seekRows
proof unfold_locales
  fix e t txn c key
  show "\<exists>s'. eGetSchema memOps t e = (s', Inr (memSchema e t)) \<and> e = s'" by (simp add: mem_GetSchema_def memSchema_def)
  show "\<exists>s'. eHasIndex memOps t c e = (s', Inr (indexKey t c \<in> mIndexes e)) \<and> e = s'" by (simp add: mem_HasIndex_def)
  show "\<exists>s' it. eScan memOps txn t e = (s', Inr it) \<and> e = s' \<and> memIter_live s' it \<and> memIter_rows s' it = memView e txn t"
    if "memSchema e t \<noteq> None" using mem_Scan_ok [OF that, of txn] by auto
  show "\<exists>s' it. eSeekIndex memOps txn t c key e = (s', Inr it) \<and> e = s' \<and> memIter_live s' it \<and>
      memIter_rows s' it = mem_seekRows e txn t c key" if seek: "mem_seekable e txn t c"
  proof -
    from seek obtain sch where sch: "memSchema e t = Some sch" "0 \<le> ColumnIndex sch c"
      "\<forall>x \<in> set (memView e txn t). nat (ColumnIndex sch c) < length (Values (snd x))" by (auto simp: mem_seekable_def)
    from mem_Scan_ok [of e t txn] sch(1) obtain it where
      "mem_Scan (Some txn) t e = (e, Inr it)" "baseRows e it = memView e txn t" by auto
    with sch show ?thesis
      by (auto simp: mem_SeekIndex_def mem_GetSchema_def memSchema_def mem_seekRows_def)
  qed
  show "\<exists>s' it'. eNext memOps it e = (s', Inr (it', case memIter_rows e it of [] \<Rightarrow> None | x # _ \<Rightarrow> Some x)) \<and> e = s' \<and>
      memIter_live s' it' \<and> memIter_rows s' it' = tl (memIter_rows e it)" if "memIter_live e it" for it
    using memIteratorNext_ok [OF that] by simp
qed auto

section \<open>Rows that a transaction sees\<close>

lemma map_of_scanChange:
  "map_of (scanChange c rows) = (map_of rows)(pcRowID c := if pcIsDelete c then None else Some (pcRow c))"
  by (simp add: scanChange_def AList.update_conv' AList.delete_conv')

lemma distinct_scanChanges: "distinct (map fst rows) \<Longrightarrow> distinct (map fst (fold scanChange cs rows))"
  by (induction cs arbitrary: rows) (simp_all add: scanChange_def distinct_update distinct_delete)

lemma map_of_scanChanges:
  "map_of (fold scanChange cs rows) rid = Some r \<Longrightarrow>
   map_of rows rid = Some r \<or> (\<exists>c \<in> set cs. \<not> pcIsDelete c \<and> pcRowID c = rid \<and> pcRow c = r)"
proof (induction cs arbitrary: rows)
  case (Cons c cs)
  from Cons.IH [of "scanChange c rows"] Cons.prems show ?case by (auto simp: map_of_scanChange split: if_splits)
qed simp

lemma scanRows_facts:
  assumes "mem_inv e"
  shows "distinct (map fst (scanRows e txn t))" and "map_of (scanRows e txn t) rid = Some r \<Longrightarrow> owned e (srValues r) rid"
proof -
  show "distinct (map fst (scanRows e txn t))"
    using assms by (auto simp: scanRows_def mem_inv_def intro!: distinct_scanChanges split: option.splits)
  assume "map_of (scanRows e txn t) rid = Some r"
  then obtain tab where tab: "map_of (mTables e) t = Some tab"
    "map_of (fold scanChange (pendingFor (Some txn) t e) (mtRows tab)) rid = Some r" by (auto simp: scanRows_def split: option.splits)
  from map_of_scanChanges [OF tab(2)] tab(1) show "owned e (srValues r) rid"
    by (auto dest: map_of_SomeD intro: owned_row owned_pending)
qed

lemma fst_memView: "map fst (memView e txn t) = sort (map fst (scanRows e txn t))"
  by (simp add: memView_def Let_def comp_def)

lemma memView_mem:
  assumes "mem_inv e"
  shows "x \<in> set (memView e txn t) \<longleftrightarrow> (\<exists>r. map_of (scanRows e txn t) (fst x) = Some r \<and> x = (fst x, loadRow e r))"
proof -
  have "rid \<in> fst ` set rows \<longleftrightarrow> (\<exists>r. map_of rows rid = Some r)" for rid and rows :: "(rowID \<times> sliceRow) list"
    by (metis domIff dom_map_of_conv_image_fst not_None_eq)
  then show ?thesis by (cases x) (auto simp: memView_def Let_def viewRow_def image_iff)
qed

text \<open>One more change of the transaction itself.\<close>

lemma addPending_sel [simp]:
  "mTables (addPending tx t c e) = mTables e" "mNextID (addPending tx t c e) = mNextID e" "slices (addPending tx t c e) = slices e"
  "nextSlice (addPending tx t c e) = nextSlice e" "mActiveTxns (addPending tx t c e) = mActiveTxns e"
  "mIndexes (addPending tx t c e) = mIndexes e"
  by (simp_all add: addPending_def Let_def)

lemma pendingFor_addPending:
  "pendingFor (Some tx') t' (addPending tx t c e) = pendingFor (Some tx') t' e @ (if tx' = tx \<and> t' = t then [c] else [])"
  by (auto simp: pendingFor_def addPending_def Let_def AList.update_conv' split: option.splits)

lemma owned_addPending:
  assumes "owned (addPending tx t c e) a rid"
  shows "owned e a rid \<or> \<not> pcIsDelete c \<and> a = srValues (pcRow c) \<and> rid = pcRowID c"
  using assms
proof cases
  case (owned_pending c' tx' t')
  then show ?thesis by (auto simp: pendingFor_addPending split: if_splits intro: owned.owned_pending)
qed (auto intro: owned_row)

lemma updMemTable_sel [simp]:
  "mPending (updMemTable t f e) = mPending e" "mNextID (updMemTable t f e) = mNextID e" "slices (updMemTable t f e) = slices e"
  "nextSlice (updMemTable t f e) = nextSlice e" "mActiveTxns (updMemTable t f e) = mActiveTxns e"
  "mIndexes (updMemTable t f e) = mIndexes e"
  "map_of (mTables (updMemTable t f e)) = (case map_of (mTables e) t of None \<Rightarrow> map_of (mTables e) | Some tab \<Rightarrow> (map_of (mTables e))(t \<mapsto> f tab))"
  by (simp_all add: updMemTable_def AList.update_conv' split: option.splits)

text \<open>A change that the transaction adds, with the claim on the row if there is one.\<close>

definition claimRow :: "txnID option \<Rightarrow> string \<Rightarrow> rowID \<Rightarrow> memEngine \<Rightarrow> memEngine" where
  "claimRow claim t rid e =
     (case claim of None \<Rightarrow> e | Some tx \<Rightarrow> updMemTable t (\<lambda>tab. tab\<lparr>mtRowTxns := (mtRowTxns tab)(rid \<mapsto> tx)\<rparr>) e)"

lemma claimRow_sel [simp]:
  "mPending (claimRow cl t rid e) = mPending e" "mNextID (claimRow cl t rid e) = mNextID e" "slices (claimRow cl t rid e) = slices e"
  "nextSlice (claimRow cl t rid e) = nextSlice e" "memSchema (claimRow cl t rid e) = memSchema e"
  by (auto simp: claimRow_def memSchema_def fun_eq_iff split: option.splits)

lemma pendingFor_cong: "mPending e' = mPending e \<Longrightarrow> pendingFor txn t e' = pendingFor txn t e"
  by (simp add: pendingFor_def split: option.splits)

lemma claimRow_table:
  assumes "map_of (mTables (claimRow cl t rid e)) t' = Some tab"
  shows "\<exists>tab0. map_of (mTables e) t' = Some tab0 \<and> mtRows tab = mtRows tab0"
  using assms by (auto simp: claimRow_def split: option.splits if_splits)

lemma scanRows_claimRow [simp]: "scanRows (claimRow cl t rid e) txn t' = scanRows e txn t'"
  by (auto simp: scanRows_def claimRow_def pendingFor_def split: option.splits)

lemma scanRows_addPending:
  "map_of (mTables e) t \<noteq> None \<Longrightarrow> scanRows (addPending tx t c e) tx t = scanChange c (scanRows e tx t)"
  by (auto simp: scanRows_def pendingFor_addPending)

lemma mem_inv_addPending:
  assumes "mem_inv e" and "\<not> pcIsDelete c \<Longrightarrow> srValues (pcRow c) < nextSlice e \<and> pcRowID c \<le> mNextID e \<and>
      (\<forall>rid. owned e (srValues (pcRow c)) rid \<longrightarrow> rid = pcRowID c)"
  shows "mem_inv (claimRow cl t rid (addPending tx t c e))"
proof -
  let ?e = "addPending tx t c e"
  have own: "owned (claimRow cl t rid ?e) a i \<Longrightarrow> owned ?e a i" for a i
    by (erule owned.cases)
      (auto dest!: claimRow_table simp: pendingFor_cong [of "claimRow cl t rid ?e" ?e] intro: owned_row owned_pending)
  show ?thesis
    unfolding mem_inv_def
  proof (intro conjI allI impI)
    fix t' tab assume "map_of (mTables (claimRow cl t rid ?e)) t' = Some tab"
    from claimRow_table [OF this] assms(1) show "distinct (map fst (mtRows tab))" by (auto simp: mem_inv_def)
  next
    fix a i assume "owned (claimRow cl t rid ?e) a i"
    from owned_addPending [OF own [OF this]] assms
    show "a < nextSlice (claimRow cl t rid ?e)" "i \<le> mNextID (claimRow cl t rid ?e)" by (auto simp: mem_inv_def)
  next
    fix a i j assume "owned (claimRow cl t rid ?e) a i" "owned (claimRow cl t rid ?e) a j"
    from this [THEN own, THEN owned_addPending] assms show "i = j" by (auto simp: mem_inv_def)
  next
    fix tx' p assume "mPending (claimRow cl t rid ?e) tx' = Some p"
    with assms(1) show "distinct (map fst p)"
      by (auto simp: addPending_def mem_inv_def Let_def distinct_update split: if_splits option.splits)
  qed
qed

lemma loadRow_same: "slices e' (srValues r) = slices e (srValues r) \<Longrightarrow> loadRow e' r = loadRow e r"
  by (simp add: loadRow_def)

section \<open>Writing\<close>

definition mem_ready :: "memEngine \<Rightarrow> txnID \<Rightarrow> string \<Rightarrow> nat \<Rightarrow> bool" where
  "mem_ready e txn t k \<longleftrightarrow> memSchema e t \<noteq> None \<and> unat (mNextID e) + k < 2 ^ 64"

definition mem_writable :: "memEngine \<Rightarrow> txnID \<Rightarrow> string \<Rightarrow> rowID \<times> row \<Rightarrow> bool" where
  "mem_writable e txn t x \<longleftrightarrow> (\<exists>tab. map_of (mTables e) t = Some tab \<and> map_of (mtRows tab) (fst x) \<noteq> None \<and>
     \<not> conflicting (Some txn) tab (fst x) e)"

definition mem_fits :: "memEngine \<Rightarrow> string \<Rightarrow> val list \<Rightarrow> bool" where
  "mem_fits e t vs \<longleftrightarrow> (\<exists>sch. memSchema e t = Some sch \<and> length vs = length (Columns sch))"

lemma memSchema_addPending [simp]: "memSchema (addPending tx t c e) = memSchema e"
  by (simp add: memSchema_def fun_eq_iff)

lemma mem_writable_other:
  assumes "mem_writable e txn t z" and "fst z \<noteq> rid"
  shows "mem_writable (claimRow (Some txn) t rid (addPending txn t c e)) txn t z"
  using assms by (auto simp: mem_writable_def claimRow_def conflicting_def split: option.splits)

lemma mset_memView:
  "mset (memView e txn t) = image_mset (viewRow e (scanRows e txn t)) (mset (map fst (scanRows e txn t)))"
  by (simp add: memView_def Let_def)

lemma viewRow_cong:
  "map_of rows' rid = map_of rows rid \<Longrightarrow> (\<And>r. map_of rows rid = Some r \<Longrightarrow> slices e' (srValues r) = slices e (srValues r)) \<Longrightarrow>
   rid \<in> fst ` set rows \<Longrightarrow> viewRow e' rows' rid = viewRow e rows rid"
  by (auto simp: viewRow_def loadRow_def map_of_eq_None_iff split: option.splits)

lemma mem_insert:
  assumes "mem_inv e" and "mem_ready e txn t (Suc k)" and "mem_fits e t vs"
  shows "\<exists>e' rid x. memInsertRow txn t \<lparr>Values = vs, Xmin = 0, Xmax = 0\<rparr> e = (e', Inr rid) \<and> mem_inv e' \<and> mem_ready e' txn t k \<and>
    memSchema e' = memSchema e \<and> mset (memView e' txn t) = add_mset x (mset (memView e txn t)) \<and> Values (snd x) = vs"
proof -
  define e1 where "e1 = (fst (makeSlice vs e))\<lparr>mNextID := mNextID e + 1\<rparr>"
  let ?r = "\<lparr>srValues = nextSlice e, srXmin = 0, srXmax = 0\<rparr>" and ?rid = "mNextID e + 1"
  let ?c = "\<lparr>pcRowID = ?rid, pcRow = ?r, pcIsDelete = False\<rparr>"
  define e' where "e' = addPending txn t ?c e1"
  from assms(3) obtain tab where tab: "map_of (mTables e) t = Some tab" "length vs = length (Columns (mtSchema tab))"
    by (auto simp: mem_fits_def memSchema_def)
  have sel: "mTables e1 = mTables e" "mPending e1 = mPending e" "nextSlice e1 = Suc (nextSlice e)" "mNextID e1 = ?rid"
    "slices e1 = (slices e)(nextSlice e := vs)" by (simp_all add: e1_def makeSlice_def)
  have own: "owned e1 = owned e" using sel by (auto simp: fun_eq_iff owned.simps pendingFor_cong [OF sel(2)])
  have "unat ?rid = Suc (unat (mNextID e))" using assms(2) by (simp add: mem_ready_def unat_word_ariths)
  then have fresh: "mNextID e < ?rid" by (simp add: word_less_nat_alt)
  have bounds: "a < nextSlice e" "rid \<le> mNextID e" if "owned e a rid" for a rid using assms(1) that by (auto simp: mem_inv_def)
  have "mem_inv e1"
    using assms(1) bounds(2) [THEN order_trans, OF _ less_imp_le [OF fresh]] unfolding mem_inv_def own sel by (auto intro: less_SucI)
  moreover have "\<not> owned e (nextSlice e) rid" for rid using bounds(1) by blast
  ultimately have inv: "mem_inv e'"
    using mem_inv_addPending [of e1 ?c None t 0 txn] own sel by (simp add: e'_def claimRow_def)
  have rows: "scanRows e1 txn t = scanRows e txn t" using sel by (simp add: scanRows_def pendingFor_cong [OF sel(2)] split: option.splits)
  have new: "?rid \<notin> fst ` set (scanRows e txn t)"
  proof
    assume "?rid \<in> fst ` set (scanRows e txn t)"
    then obtain r where "map_of (scanRows e txn t) ?rid = Some r" by (metis map_of_eq_None_iff not_None_eq)
    from bounds(2) [OF scanRows_facts(2) [OF assms(1) this]] fresh show False by simp
  qed
  have rows': "scanRows e' txn t = AList.update ?rid ?r (scanRows e txn t)"
    using tab(1) sel by (simp add: e'_def scanRows_addPending rows) (simp add: scanChange_def)
  have keys: "map fst (scanRows e' txn t) = map fst (scanRows e txn t) @ [?rid]"
    using new by (simp add: rows' update_keys)
  have old: "viewRow e' (scanRows e' txn t) rid = viewRow e (scanRows e txn t) rid" if "rid \<in> fst ` set (scanRows e txn t)" for rid
  proof (rule viewRow_cong [OF _ _ that])
    have "rid \<noteq> ?rid" using that new by metis
    then show "map_of (scanRows e' txn t) rid = map_of (scanRows e txn t) rid" by (simp add: rows' AList.update_conv')
    show "slices e' (srValues r) = slices e (srValues r)" if "map_of (scanRows e txn t) rid = Some r" for r
      using bounds(1) [OF scanRows_facts(2) [OF assms(1) that]] by (simp add: e'_def sel)
  qed
  have "mset (memView e' txn t) = add_mset (viewRow e' (scanRows e' txn t) ?rid) (mset (memView e txn t))"
    unfolding mset_memView keys using old by (auto intro!: image_mset_cong)
  moreover have "Values (snd (viewRow e' (scanRows e' txn t) ?rid)) = vs"
  proof -
    have "slices e' = slices e1" by (simp add: e'_def)
    then show ?thesis by (simp add: viewRow_def rows' AList.update_conv' loadRow_def sel)
  qed
  moreover have "memInsertRow txn t \<lparr>Values = vs, Xmin = 0, Xmax = 0\<rparr> e = (e', Inr ?rid)"
    using tab by (simp add: memInsertRow_def mem_Insert_def makeSlice_def Let_def e'_def e1_def)
  moreover have "memSchema e' = memSchema e" by (simp add: e'_def memSchema_def fun_eq_iff sel)
  moreover have "mem_ready e' txn t k"
    using assms(2) \<open>unat ?rid = _\<close> tab(1) by (auto simp: mem_ready_def e'_def sel memSchema_def)
  ultimately show ?thesis using inv by blast
qed

lemma mem_delete:
  assumes "mem_inv e" and "mem_ready e txn t k" and "mem_writable e txn t x"
  shows "\<exists>e'. mem_Delete (Some txn) t (fst x) e = (e', Inr ()) \<and> mem_inv e' \<and> mem_ready e' txn t k \<and> memSchema e' = memSchema e \<and>
    memView e' txn t = filter (\<lambda>y. fst y \<noteq> fst x) (memView e txn t) \<and>
    (\<forall>y. fst y \<noteq> fst x \<longrightarrow> mem_writable e txn t y \<longrightarrow> mem_writable e' txn t y)"
proof -
  let ?c = "\<lparr>pcRowID = fst x, pcRow = \<lparr>srValues = 0, srXmin = 0, srXmax = 0\<rparr>, pcIsDelete = True\<rparr>"
  define e' where "e' = claimRow (Some txn) t (fst x) (addPending txn t ?c e)"
  from assms(3) obtain tab where tab: "map_of (mTables e) t = Some tab" "map_of (mtRows tab) (fst x) \<noteq> None"
    "\<not> conflicting (Some txn) tab (fst x) e" by (auto simp: mem_writable_def)
  have rows: "scanRows e' txn t = AList.delete (fst x) (scanRows e txn t)"
    using tab(1) by (simp add: e'_def scanRows_addPending scanChange_def)
  have "viewRow e' (scanRows e' txn t) rid = viewRow e (scanRows e txn t) rid" if "rid \<noteq> fst x" for rid
  proof -
    have "slices e' = slices e" by (simp add: e'_def)
    with that show ?thesis by (simp add: viewRow_def rows loadRow_def)
  qed
  moreover have "sort (map fst (scanRows e' txn t)) = filter (\<lambda>rid. rid \<noteq> fst x) (sort (map fst (scanRows e txn t)))"
  proof -
    have "(\<noteq>) (fst x) = (\<lambda>rid. rid \<noteq> fst x)" by auto
    then show ?thesis by (simp add: rows AList.delete_keys removeAll_filter_not_eq filter_sort)
  qed
  ultimately have "memView e' txn t = filter (\<lambda>y. fst y \<noteq> fst x) (memView e txn t)"
    by (auto simp: memView_def Let_def filter_map comp_def)
  moreover have "mem_Delete (Some txn) t (fst x) e = (e', Inr ())"
    using tab by (simp add: mem_Delete_def e'_def claimRow_def)
  moreover have "mem_inv e'" unfolding e'_def by (rule mem_inv_addPending [OF assms(1)]) simp
  moreover have "memSchema e' = memSchema e" "mem_ready e' txn t k" using assms(2) by (simp_all add: e'_def mem_ready_def)
  moreover have "\<forall>y. fst y \<noteq> fst x \<longrightarrow> mem_writable e txn t y \<longrightarrow> mem_writable e' txn t y"
    unfolding e'_def using mem_writable_other by blast
  ultimately show ?thesis by blast
qed

text \<open>The writes of an UPDATE to the slice of one row.\<close>

definition writeList :: "(nat \<times> val) list \<Rightarrow> val list \<Rightarrow> val list" where
  "writeList ws vs = foldl (\<lambda>vs (i, v). vs[i := v]) vs ws"

lemma writeValues_sel [simp]:
  "Values (writeValues ws r) = writeList ws (Values r)" "Xmin (writeValues ws r) = Xmin r" "Xmax (writeValues ws r) = Xmax r"
  by (induction ws rule: rev_induct) (auto simp: writeValues_def writeList_def)

definition overwrite :: "slice \<Rightarrow> val list \<Rightarrow> memEngine \<Rightarrow> memEngine" where
  "overwrite a vs e = e\<lparr>slices := (slices e)(a := vs)\<rparr>"

lemma overwrite_sel [simp]:
  "mTables (overwrite a vs e) = mTables e" "mPending (overwrite a vs e) = mPending e" "mNextID (overwrite a vs e) = mNextID e"
  "nextSlice (overwrite a vs e) = nextSlice e" "mActiveTxns (overwrite a vs e) = mActiveTxns e"
  "slices (overwrite a vs e) = (slices e)(a := vs)" "scanRows (overwrite a vs e) = scanRows e"
  "pendingFor txn t (overwrite a vs e) = pendingFor txn t e" "conflicting txn tab rid (overwrite a vs e) = conflicting txn tab rid e"
  by (auto simp: overwrite_def conflicting_def scanRows_def pendingFor_def fun_eq_iff split: option.splits)

lemma overwrite_same [simp]:
  "memSchema (overwrite a vs e) = memSchema e" "owned (overwrite a vs e) = owned e" "mem_inv (overwrite a vs e) = mem_inv e"
  "mem_ready (overwrite a vs e) = mem_ready e" "mem_writable (overwrite a vs e) = mem_writable e"
proof -
  show own: "owned (overwrite a vs e) = owned e" by (simp add: fun_eq_iff owned.simps)
  show "memSchema (overwrite a vs e) = memSchema e" by (simp add: memSchema_def fun_eq_iff)
  then show "mem_ready (overwrite a vs e) = mem_ready e" by (simp add: mem_ready_def fun_eq_iff)
  show "mem_inv (overwrite a vs e) = mem_inv e" by (simp add: mem_inv_def own)
  show "mem_writable (overwrite a vs e) = mem_writable e" by (simp add: mem_writable_def fun_eq_iff)
qed

lemma writeThrough_mem:
  "writeThrough memOps txn t rid ws e =
     overwrite (scannedSlice e txn t rid) (writeList ws (slices e (scannedSlice e txn t rid))) e"
proof (induction ws rule: rev_induct)
  case (snoc w ws)
  then show ?case
    by (cases w) (simp add: writeThrough_def writeList_def memSetValue_def scannedSlice_def Let_def, simp add: overwrite_def)
qed (simp add: writeThrough_def writeList_def overwrite_def)

lemma mset_map_change:
  assumes "distinct ids" and "i \<in> set ids" and "\<And>j. j \<in> set ids \<Longrightarrow> j \<noteq> i \<Longrightarrow> g j = f j"
  shows "mset (map g ids) = add_mset (g i) (mset (map f ids) - {#f i#})"
proof -
  from split_list [OF assms(2)] obtain us vs where ids: "ids = us @ i # vs" by blast
  with assms have "map g us = map f us" "map g vs = map f vs" by (auto intro!: map_cong)
  then have "map g ids = map f us @ g i # map f vs" by (simp only: ids map_append list.map)
  then show ?thesis unfolding ids by (simp only: mset_append mset.simps map_append list.map) simp
qed

text \<open>The state after the executor's writes and the engine's \<^verbatim>\<open>Update\<close>.\<close>

definition afterUpdate :: "txnID \<Rightarrow> string \<Rightarrow> rowID \<Rightarrow> sliceRow \<Rightarrow> val list \<Rightarrow> memEngine \<Rightarrow> memEngine" where
  "afterUpdate txn t rid r vs e =
     claimRow (Some txn) t rid (addPending txn t \<lparr>pcRowID = rid, pcRow = r, pcIsDelete = False\<rparr> (overwrite (srValues r) vs e))"

lemma memUpdateRow_ok:
  assumes "map_of (scanRows e txn t) rid = Some r" and "mem_writable e txn t (rid, loadRow e r)"
    and "mem_fits e t (writeList ws (slices e (srValues r)))"
  shows "memUpdateRow txn t rid (writeValues ws (loadRow e r)) (writeThrough memOps txn t rid ws e) =
    (afterUpdate txn t rid r (writeList ws (slices e (srValues r))) e, Inr ())"
proof -
  from assms(2) obtain tab where tab: "map_of (mTables e) t = Some tab" "map_of (mtRows tab) rid \<noteq> None"
    "\<not> conflicting (Some txn) tab rid e" by (auto simp: mem_writable_def)
  have "scannedSlice (overwrite a vs e) txn t rid = srValues r" "scannedSlice e txn t rid = srValues r" for a vs
    using assms(1) by (simp_all add: scannedSlice_def)
  moreover have "length (writeList ws (slices e (srValues r))) = length (Columns (mtSchema tab))"
    using assms(3) tab(1) by (simp add: mem_fits_def memSchema_def)
  moreover have "\<lparr>srValues = srValues r, srXmin = Xmin (loadRow e r), srXmax = Xmax (loadRow e r)\<rparr> = r"
    by (simp add: loadRow_def)
  ultimately show ?thesis
    using tab by (simp add: memUpdateRow_def mem_Update_def writeThrough_mem afterUpdate_def claimRow_def)
qed

lemma afterUpdate_sel [simp]:
  "mNextID (afterUpdate txn t rid r vs e) = mNextID e" "memSchema (afterUpdate txn t rid r vs e) = memSchema e"
  "slices (afterUpdate txn t rid r vs e) = (slices e)(srValues r := vs)"
  by (simp_all add: afterUpdate_def)

lemma afterUpdate_ok:
  assumes "mem_inv e" and "map_of (scanRows e txn t) rid = Some r"
  shows "mem_inv (afterUpdate txn t rid r vs e)" and "scanRows (afterUpdate txn t rid r vs e) txn t = scanRows e txn t"
    and "mem_writable e txn t z \<Longrightarrow> fst z \<noteq> rid \<Longrightarrow> mem_writable (afterUpdate txn t rid r vs e) txn t z"
proof -
  show "mem_inv (afterUpdate txn t rid r vs e)"
    unfolding afterUpdate_def
    by (rule mem_inv_addPending) (use assms(1) scanRows_facts(2) [OF assms] in \<open>auto simp: mem_inv_def\<close>)
  have "map_of (mTables e) t \<noteq> None" using assms(2) by (auto simp: scanRows_def split: option.splits)
  then have "scanRows (afterUpdate txn t rid r vs e) txn t = AList.update rid r (scanRows e txn t)"
    by (simp add: afterUpdate_def scanRows_addPending scanChange_def)
  with assms(2) show "scanRows (afterUpdate txn t rid r vs e) txn t = scanRows e txn t" by (simp add: AList.update_triv)
  show "mem_writable e txn t z \<Longrightarrow> fst z \<noteq> rid \<Longrightarrow> mem_writable (afterUpdate txn t rid r vs e) txn t z"
    unfolding afterUpdate_def by (rule mem_writable_other) simp_all
qed

lemma other_slice:
  assumes "mem_inv e" and "map_of (scanRows e txn t) rid = Some r" and "map_of (scanRows e txn t) rid' = Some r'" and "rid' \<noteq> rid"
  shows "srValues r' \<noteq> srValues r"
  using scanRows_facts(2) [OF assms(1,2)] scanRows_facts(2) [OF assms(1,3)] assms(1,4) by (auto simp: mem_inv_def)

lemma mem_update:
  assumes "mem_inv e" and "mem_ready e txn t (Suc k)" and "x \<in> set (memView e txn t)" and "mem_writable e txn t x"
    and "mem_fits e t (Values (writeValues ws (snd x)))"
  shows "\<exists>e' y. memUpdateRow txn t (fst x) (writeValues ws (snd x)) (writeThrough memOps txn t (fst x) ws e) = (e', Inr ()) \<and>
    mem_inv e' \<and> mem_ready e' txn t k \<and> memSchema e' = memSchema e \<and> mem_fits e' = mem_fits e \<and>
    mset (memView e' txn t) = add_mset y (mset (memView e txn t) - {#x#}) \<and>
    Values (snd y) = Values (writeValues ws (snd x)) \<and>
    (\<forall>z \<in> set (memView e txn t). fst z \<noteq> fst x \<longrightarrow> mem_writable e txn t z \<longrightarrow> mem_writable e' txn t z)"
proof -
  let ?rid = "fst x"
  from assms(3) memView_mem [OF assms(1)] obtain r where
    r: "map_of (scanRows e txn t) ?rid = Some r" "x = (?rid, loadRow e r)" by metis
  have snd: "snd x = loadRow e r" using r(2) by (metis snd_conv)
  then have vals: "Values (snd x) = slices e (srValues r)" by (simp add: loadRow_def)
  let ?e' = "afterUpdate txn t ?rid r (writeList ws (slices e (srValues r))) e"
  have call: "memUpdateRow txn t ?rid (writeValues ws (snd x)) (writeThrough memOps txn t ?rid ws e) = (?e', Inr ())"
    unfolding snd by (rule memUpdateRow_ok [OF r(1)]) (use assms(4,5) r(2) vals in simp_all)
  note U = afterUpdate_ok [OF assms(1) r(1), where vs = "writeList ws (slices e (srValues r))"]
  let ?f = "viewRow e (scanRows e txn t)" and ?g = "viewRow ?e' (scanRows e txn t)" and ?ids = "sort (map fst (scanRows e txn t))"
  have "?g j = ?f j" if "j \<in> set ?ids" "j \<noteq> ?rid" for j
  proof (rule viewRow_cong)
    show "slices ?e' (srValues r') = slices e (srValues r')" if "map_of (scanRows e txn t) j = Some r'" for r'
      using other_slice [OF assms(1) r(1) that \<open>j \<noteq> ?rid\<close>] by simp
  qed (use that in auto)
  from mset_map_change [of ?ids ?rid ?g ?f, OF _ _ this] scanRows_facts(1) [OF assms(1)] r(1)
  have "mset (map ?g ?ids) = add_mset (?g ?rid) (mset (map ?f ?ids) - {#?f ?rid#})"
    by (force dest: map_of_SomeD)
  then have "mset (memView ?e' txn t) = add_mset (?g ?rid) (mset (memView e txn t) - {#x#})"
    using r U(2) by (simp add: memView_def Let_def viewRow_def [of e])
  moreover have "Values (snd (?g ?rid)) = Values (writeValues ws (snd x))" using r(1) vals by (simp add: viewRow_def loadRow_def)
  moreover have "mem_ready ?e' txn t k" "mem_fits ?e' = mem_fits e" using assms(2) by (simp_all add: mem_ready_def mem_fits_def fun_eq_iff)
  ultimately show ?thesis using call U(1,3) by (intro exI [of _ ?e'] exI [of _ "?g ?rid"]) simp
qed

interpretation mw: storage_writes memOps mem_inv "(=)" memIter_live memIter_rows memSchema memView
  "\<lambda>e t c. indexKey t c \<in> mIndexes e" mem_seekable mem_seekRows mem_ready mem_writable mem_fits "\<lambda>vs. vs"
proof unfold_locales
  fix e txn t k vs x ws
  assume inv: "mem_inv e"
  show "distinct (map fst (memView e txn t))" using scanRows_facts(1) [OF inv] by (simp add: fst_memView)
  show "mem_ready e txn t (Suc k) \<Longrightarrow> mem_fits e t vs \<Longrightarrow> \<exists>s' rid x. eInsert memOps txn t \<lparr>Values = vs, Xmin = 0, Xmax = 0\<rparr> e = (s', Inr rid) \<and>
      mem_inv s' \<and> mem_ready s' txn t k \<and> memSchema s' = memSchema e \<and>
      mset (memView s' txn t) = add_mset x (mset (memView e txn t)) \<and> Values (snd x) = vs"
    using mem_insert [OF inv] by simp
  show "mem_ready e txn t k \<Longrightarrow> mem_writable e txn t x \<Longrightarrow> \<exists>s'. eDelete memOps txn t (fst x) e = (s', Inr ()) \<and> mem_inv s' \<and>
      mem_ready s' txn t k \<and> memSchema s' = memSchema e \<and> memView s' txn t = filter (\<lambda>y. fst y \<noteq> fst x) (memView e txn t) \<and>
      (\<forall>y. fst y \<noteq> fst x \<longrightarrow> mem_writable e txn t y \<longrightarrow> mem_writable s' txn t y)"
    using mem_delete [OF inv] by simp
  show "mem_ready e txn t (Suc k) \<Longrightarrow> x \<in> set (memView e txn t) \<Longrightarrow> mem_writable e txn t x \<Longrightarrow>
      mem_fits e t (Values (writeValues ws (snd x))) \<Longrightarrow>
      \<exists>s' y. eUpdate memOps txn t (fst x) (writeValues ws (snd x)) (writeThrough memOps txn t (fst x) ws e) = (s', Inr ()) \<and>
        mem_inv s' \<and> mem_ready s' txn t k \<and> memSchema s' = memSchema e \<and> mem_fits s' = mem_fits e \<and>
        mset (memView s' txn t) = add_mset y (mset (memView e txn t) - {#x#}) \<and>
        Values (snd y) = Values (writeValues ws (snd x)) \<and>
        (\<forall>z \<in> set (memView e txn t). fst z \<noteq> fst x \<longrightarrow> mem_writable e txn t z \<longrightarrow> mem_writable s' txn t z)"
    using mem_update [OF inv] by simp
qed simp_all

end
