(* ===== verification/Seeks.thy ===== *)
theory Seeks
  imports Statements
begin

text \<open>
  Queries that use an index.  Over an engine whose seeks return the rows of the table that compare equal
  to the key, a query on one table computes the same result as without the index.
\<close>

text \<open>Filtering by the rest of the condition after the seek.\<close>

lemma filterStream_map_Inr:
  assumes "\<And>r. r \<in> set rows \<Longrightarrow> evalWhere (Some p) r sch = Inr (P r)"
  shows "filterStream p sch (map Inr rows) = map Inr (filter P rows)"
  using assms by (induction rows) auto

lemma whereRows_map_Inr:
  assumes "\<And>r. r \<in> set rows \<Longrightarrow> evalWhere w r sch = Inr (P r)"
  shows "whereRows w sch (map Inr rows) = map Inr (filter P rows)"
proof (cases w)
  case None
  with assms have "\<And>r. r \<in> set rows \<Longrightarrow> P r" by (auto simp: evalWhere_def)
  with None show ?thesis by (simp add: whereRows_def)
next
  case (Some p)
  with assms show ?thesis by (simp add: whereRows_def filterStream_map_Inr)
qed

lemma equality_column:
  assumes "equalityColumnLiteral t table = Some eq" and "condition sch t"
  shows "0 \<le> ColumnIndex sch (ieColumn eq)"
proof (rule equality_holds(1) [OF assms(1) _ assms(2)])
  show "row_typed sch \<lparr>Values = map (NullValue \<circ> colType) (Columns sch), Xmin = 0, Xmax = 0\<rparr>"
    by (simp add: row_typed_def list_all2_map1 list_all2_same)
qed

lemma seek_where:
  assumes "\<And>x. x \<in> set xs \<Longrightarrow> row_typed sch (snd x)" and "condition sch e" and "splitAndTerms e = us @ u # vs"
    and "equalityColumnLiteral u t = Some eq" and "w = combineAndTerms (us @ vs)"
    and "ys = filter (\<lambda>x. Compare (Values (snd x) ! nat (ColumnIndex sch (ieColumn eq))) (ieValue eq) = Inr 0) xs"
  shows "whereRows w sch (map Inr (map snd ys)) = whereRows (Some e) sch (map Inr (map snd xs))"
proof -
  let ?C = "\<lambda>r. Compare (Values r ! nat (ColumnIndex sch (ieColumn eq))) (ieValue eq) = Inr 0" and ?B = "\<lambda>r. evalWhere w r sch = Inr True"
  have split: "evalWhere w r sch = Inr (?B r) \<and> evalWhere (Some e) r sch = Inr (?C r \<and> ?B r)" if "r \<in> snd ` set xs" for r
    using split_condition [OF _ assms(2-4), of r] assms(1,5) that by auto
  have "whereRows w sch (map Inr (map snd ys)) = map Inr (filter ?B (map snd ys))"
    by (rule whereRows_map_Inr) (use split assms(6) in auto)
  moreover have "whereRows (Some e) sch (map Inr (map snd xs)) = map Inr (filter (\<lambda>r. ?C r \<and> ?B r) (map snd xs))"
    by (rule whereRows_map_Inr) (use split in auto)
  ultimately show ?thesis by (simp add: assms(6) filter_map comp_def conj_commute)
qed

text \<open>Engines whose seeks find what a scan would find.\<close>

locale storage_seeks = storage_reads +
  assumes seek_spec: "inv s \<Longrightarrow> tables s t = Some sch \<Longrightarrow> indexed s t c \<Longrightarrow> 0 \<le> ColumnIndex sch c \<Longrightarrow>
    (\<And>x. x \<in> set (view s txn t) \<Longrightarrow> row_typed sch (snd x)) \<Longrightarrow>
    seekable s txn t c \<and>
    seekRows s txn t c key = filter (\<lambda>x. Compare (Values (snd x) ! nat (ColumnIndex sch c)) key = Inr 0) (view s txn t)"
begin

text \<open>What the search for an indexed equality returns.\<close>

lemma findIndexedEquality_loop_ok:
  assumes "inv s"
  shows "\<exists>s' res. findIndexedEquality_loop eng t us ts s = (s', Inr res) \<and> reads s s' \<and>
    (\<forall>eq w. res = Some (eq, w) \<longrightarrow> indexed s t (ieColumn eq) \<and>
      (\<exists>vs u ws. ts = vs @ u # ws \<and> equalityColumnLiteral u t = Some eq \<and> w = combineAndTerms (us @ vs @ ws)))"
  using assms
proof (induction ts arbitrary: us s)
  case Nil
  then show ?case using reads_refl by auto
next
  case (Cons u ts)
  have skip: "\<exists>s' res. findIndexedEquality_loop eng t (us @ [u]) ts s1 = (s', Inr res) \<and> reads s s' \<and>
      (\<forall>eq w. res = Some (eq, w) \<longrightarrow> indexed s t (ieColumn eq) \<and>
        (\<exists>vs v ws. u # ts = vs @ v # ws \<and> equalityColumnLiteral v t = Some eq \<and> w = combineAndTerms (us @ vs @ ws)))"
    if r: "reads s s1" for s1
  proof -
    note same = reads_same [OF Cons.prems r] reads_inv [OF Cons.prems r]
    from Cons.IH [OF same(2), of "us @ [u]"] obtain s' res where
      I: "findIndexedEquality_loop eng t (us @ [u]) ts s1 = (s', Inr res)" "reads s1 s'"
      "\<forall>eq w. res = Some (eq, w) \<longrightarrow> indexed s1 t (ieColumn eq) \<and>
        (\<exists>vs v ws. ts = vs @ v # ws \<and> equalityColumnLiteral v t = Some eq \<and> w = combineAndTerms ((us @ [u]) @ vs @ ws))" by blast
    have "\<exists>vs v ws. u # ts = vs @ v # ws \<and> equalityColumnLiteral v t = Some eq \<and> w = combineAndTerms (us @ vs @ ws)"
      if "res = Some (eq, w)" for eq w
    proof -
      from I(3) that obtain vs v ws where "ts = vs @ v # ws" "equalityColumnLiteral v t = Some eq"
        "w = combineAndTerms ((us @ [u]) @ vs @ ws)" by blast
      then show ?thesis by (intro exI [of _ "u # vs"] exI [of _ v] exI [of _ ws]) simp
    qed
    with I same(1) reads_trans [OF r I(2)] show ?thesis by auto
  qed
  show ?case
  proof (cases "equalityColumnLiteral u t")
    case None
    with skip [OF reads_refl [OF Cons.prems]] show ?thesis by simp
  next
    case (Some eq)
    from index_law [OF Cons.prems, of t "ieColumn eq"] obtain s1 where
      1: "eHasIndex eng t (ieColumn eq) s = (s1, Inr (indexed s t (ieColumn eq)))" "reads s s1" by auto
    show ?thesis
    proof (cases "indexed s t (ieColumn eq)")
      case True
      with 1 Some have "findIndexedEquality_loop eng t us (u # ts) s = (s1, Inr (Some (eq, combineAndTerms (us @ ts))))" by simp
      with 1(2) True Some show ?thesis
        by (intro exI [of _ s1] exI [of _ "Some (eq, combineAndTerms (us @ ts))"]) (auto intro: exI [of _ "[]"])
    next
      case False
      with 1 Some skip [OF 1(2)] show ?thesis by simp
    qed
  qed
qed

text \<open>The base access path: its rows, filtered by what remains of the condition, are the rows that the condition selects.\<close>

lemma buildBaseAccessPath_ok:
  assumes "inv s" and "tables s t = Some sch" and "\<And>e. w = Some e \<Longrightarrow> condition sch e"
    and typed: "\<And>x. x \<in> set (view s txn t) \<Longrightarrow> row_typed sch (snd x)"
  shows "\<exists>s' root w'. buildBaseAccessPath eng txn t w s = (s', Inr (root, w')) \<and> reads s s' \<and> ok s' root \<and> opSchema root = sch \<and>
    whereRows w' sch (stream s' root) = whereRows w sch (map Inr (map snd (view s txn t)))"
proof -
  have scan: ?thesis if "findIndexedEquality eng t w s = (s1, Inr (None, w1))" "reads s s1" for s1 w1
  proof -
    note same = reads_same [OF assms(1) that(2)] reads_inv [OF assms(1) that(2)]
    from NewScanOp_ok [of s1 t sch txn] same assms(2) obtain s2 root where
      "NewScanOp eng txn t s1 = (s2, Inr root)" "reads s1 s2" "ok s2 root" "opSchema root = sch"
      "stream s2 root = map Inr (map snd (view s txn t))" by auto
    with that reads_trans [OF that(2)] show ?thesis by (simp add: buildBaseAccessPath_def)
  qed
  show ?thesis
  proof (cases w)
    case None
    then show ?thesis by (intro scan [of s w]) (simp_all add: findIndexedEquality_def reads_refl [OF assms(1)])
  next
    case (Some e)
    from findIndexedEquality_loop_ok [OF assms(1), of t "[]" "splitAndTerms e"] obtain s1 res where
      1: "findIndexedEquality_loop eng t [] (splitAndTerms e) s = (s1, Inr res)" "reads s s1"
      "\<forall>eq w. res = Some (eq, w) \<longrightarrow> indexed s t (ieColumn eq) \<and>
        (\<exists>vs u ws. splitAndTerms e = vs @ u # ws \<and> equalityColumnLiteral u t = Some eq \<and> w = combineAndTerms ([] @ vs @ ws))" by blast
    show ?thesis
    proof (cases res)
      case None
      with 1 Some show ?thesis by (intro scan [of s1 w]) (simp_all add: findIndexedEquality_def)
    next
      case res: (Some p)
      obtain eq w' where p: "p = (eq, w')" by force
      with 1(3) res obtain vs u ws where
        idx: "indexed s t (ieColumn eq)" and sp: "splitAndTerms e = vs @ u # ws" "equalityColumnLiteral u t = Some eq"
        "w' = combineAndTerms (vs @ ws)" by auto
      have e: "condition sch e" using assms(3) Some by simp
      then have u: "condition sch u" using splitAndTerms_condition [OF e, of u] sp(1) by simp
      note same = reads_same [OF assms(1) 1(2)] reads_inv [OF assms(1) 1(2)]
      note seek = seek_spec [OF assms(1,2) idx equality_column [OF sp(2) u] typed]
      from NewIndexScanOp_ok [of s1 t sch txn "ieColumn eq" "ieValue eq"] same assms(2) seek obtain s2 root where
        2: "NewIndexScanOp eng txn t (ieColumn eq) (ieValue eq) s1 = (s2, Inr root)" "reads s1 s2" "ok s2 root" "opSchema root = sch"
        "stream s2 root = map Inr (map snd (seekRows s txn t (ieColumn eq) (ieValue eq)))" by auto
      have "buildBaseAccessPath eng txn t w s = (s2, Inr (root, w'))"
        using 1(1) 2(1) res p Some by (simp add: buildBaseAccessPath_def findIndexedEquality_def)
      moreover have "whereRows w' sch (stream s2 root) = whereRows w sch (map Inr (map snd (view s txn t)))"
        unfolding 2(5) Some by (rule seek_where [OF typed e sp]) (simp_all add: seek)
      ultimately show ?thesis using 2 reads_trans [OF 1(2) 2(2)] by auto
    qed
  qed
qed

lemma executeSelect_indexed:
  assumes "inv s" and "tables s t = Some sch" and "\<And>e. w = Some e \<Longrightarrow> condition sch e"
    and "\<And>x. x \<in> set (view s txn t) \<Longrightarrow> row_typed sch (snd x)"
  shows "\<exists>s'. reads s s' \<and> enough (\<lambda>n. executeSelect eng n txn es t [] w s =
    (s', selectRows (\<lambda>_. sch) (\<lambda>_. map snd (view s txn t)) es t [] w))"
proof -
  from buildBaseAccessPath_ok [OF assms] obtain s1 root w' where
    1: "buildBaseAccessPath eng txn t w s = (s1, Inr (root, w'))" "reads s s1" "ok s1 root" "opSchema root = sch"
    "whereRows w' sch (stream s1 root) = whereRows w sch (map Inr (map snd (view s txn t)))" by blast
  from filter_project [OF reads_inv [OF assms(1) 1(2)] 1(3) 1(2), of t w' es] obtain s2 where
    "reads s s2" "enough (\<lambda>n. executeSelect eng n txn es t [] w s =
      (s2, projectRows t es (opSchema root) (whereRows w' (opSchema root) (stream s1 root))))"
    using 1(1) by (auto simp: executeSelect_def buildSelectPlan_def Let_def)
  with 1(4,5) show ?thesis by (auto simp: selectRows_def)
qed

end

end
