(* ===== verification/MemstoreProps.thy ===== *)
theory MemstoreProps
  imports MemstoreOps Seeks
begin

text \<open>
  Properties of the in-memory engine: its invariant over every history of calls, the row identifiers it
  gives out, what commit and rollback publish, queries through its indexes, and the UPDATE that does not wait for its commit.
\<close>

section \<open>Commit and rollback\<close>

lemma commitChanges_sel:
  "mtRows (fold commitChange cs tab) = fold scanChange cs (mtRows tab)" "mtSchema (fold commitChange cs tab) = mtSchema tab"
  by (induction cs arbitrary: tab) (simp_all add: commitChange_def scanChange_def)

lemma releaseChanges_sel:
  "mtRows (fold (releaseChange tx) cs tab) = mtRows tab" "mtSchema (fold (releaseChange tx) cs tab) = mtSchema tab"
  by (induction cs arbitrary: tab) (simp_all add: releaseChange_def)

lemma fold_updMemTable_sel [simp]:
  "mPending (fold (\<lambda>(t, cs). updMemTable t (F cs)) p e) = mPending e" "mNextID (fold (\<lambda>(t, cs). updMemTable t (F cs)) p e) = mNextID e"
  "slices (fold (\<lambda>(t, cs). updMemTable t (F cs)) p e) = slices e" "nextSlice (fold (\<lambda>(t, cs). updMemTable t (F cs)) p e) = nextSlice e"
  by (induction p arbitrary: e) auto

lemma fold_updMemTable:
  assumes "distinct (map fst p)"
  shows "map_of (mTables (fold (\<lambda>(t, cs). updMemTable t (F cs)) p e)) t =
    map_option (\<lambda>tab. case map_of p t of None \<Rightarrow> tab | Some cs \<Rightarrow> F cs tab) (map_of (mTables e) t)"
  using assms
proof (induction p arbitrary: e)
  case (Cons x p)
  obtain t' cs where x: "x = (t', cs)" by force
  with Cons.prems have "map_of p t' = None" by (simp add: map_of_eq_None_iff)
  with Cons x show ?case by (auto simp: option.map_comp comp_def split: option.splits)
qed (simp add: option.map_ident)

lemma Commit_tables:
  assumes "\<And>p. mPending e tx = Some p \<Longrightarrow> distinct (map fst p)"
  shows "map_of (mTables (fst (mem_Commit tx e))) t =
    map_option (fold commitChange (pendingFor (Some tx) t e)) (map_of (mTables e) t)"
proof (cases "mPending e tx")
  case (Some p)
  with assms have "distinct (map fst p)" by simp
  from fold_updMemTable [OF this, of "fold commitChange" e t] Some show ?thesis
    by (cases "map_of p t") (simp_all add: mem_Commit_def Let_def pendingFor_def option.map_id option.map_ident)
qed (simp add: mem_Commit_def pendingFor_def option.map_id)

lemma Rollback_tables:
  assumes "\<And>p. mPending e tx = Some p \<Longrightarrow> distinct (map fst p)"
  shows "map_of (mTables (fst (mem_Rollback tx e))) t =
    map_option (fold (releaseChange tx) (pendingFor (Some tx) t e)) (map_of (mTables e) t)"
proof (cases "mPending e tx")
  case (Some p)
  with assms have "distinct (map fst p)" by simp
  from fold_updMemTable [OF this, of "fold (releaseChange tx)" e t] Some show ?thesis
    by (cases "map_of p t") (simp_all add: mem_Rollback_def Let_def pendingFor_def option.map_id option.map_ident)
qed (simp add: mem_Rollback_def pendingFor_def option.map_id)

lemma mem_inv_pending: "mem_inv e \<Longrightarrow> mPending e tx = Some p \<Longrightarrow> distinct (map fst p)"
  by (simp add: mem_inv_def)

text \<open>The end of a transaction drops its changes and keeps the slices.\<close>

lemma end_sel [simp]:
  "mPending (fst (mem_Commit tx e)) = (mPending e)(tx := None)" "mPending (fst (mem_Rollback tx e)) = (mPending e)(tx := None)"
  "slices (fst (mem_Commit tx e)) = slices e" "slices (fst (mem_Rollback tx e)) = slices e"
  "nextSlice (fst (mem_Commit tx e)) = nextSlice e" "nextSlice (fst (mem_Rollback tx e)) = nextSlice e"
  "mNextID (fst (mem_Commit tx e)) = mNextID e" "mNextID (fst (mem_Rollback tx e)) = mNextID e"
  by (auto simp: mem_Commit_def mem_Rollback_def Let_def fun_eq_iff split: option.splits)

lemma pendingFor_end:
  assumes "mPending e' = (mPending e)(tx := None)"
  shows "pendingFor (Some tx') t e' = (if tx' = tx then [] else pendingFor (Some tx') t e)"
  using assms by (simp add: pendingFor_def)

lemma mem_inv_transfer:
  assumes "mem_inv e" and own: "\<And>a rid. owned e' a rid \<Longrightarrow> owned e a rid"
    and "nextSlice e \<le> nextSlice e'" and "mNextID e \<le> mNextID e'"
    and "\<And>t tab. map_of (mTables e') t = Some tab \<Longrightarrow> distinct (map fst (mtRows tab))"
    and "\<And>tx p. mPending e' tx = Some p \<Longrightarrow> distinct (map fst p)"
  shows "mem_inv e'"
proof -
  have "a < nextSlice e' \<and> rid \<le> mNextID e'" if "owned e' a rid" for a rid
  proof -
    from own [OF that] assms(1) have "a < nextSlice e" "rid \<le> mNextID e" by (auto simp: mem_inv_def)
    with assms(3,4) show ?thesis by auto
  qed
  moreover have "rid = rid'" if "owned e' a rid" "owned e' a rid'" for a rid rid'
    using that [THEN own] assms(1) by (auto simp: mem_inv_def)
  ultimately show ?thesis unfolding mem_inv_def using assms(5,6) by blast
qed

lemma mem_inv_end:
  assumes "mem_inv e" and p: "mPending e' = (mPending e)(tx := None)" and "nextSlice e' = nextSlice e" and "mNextID e' = mNextID e"
    and tab: "\<And>t tab'. map_of (mTables e') t = Some tab' \<Longrightarrow> \<exists>tab. map_of (mTables e) t = Some tab \<and>
      (mtRows tab' = mtRows tab \<or> mtRows tab' = fold scanChange (pendingFor (Some tx) t e) (mtRows tab))"
  shows "mem_inv e'"
proof -
  have dist: "distinct (map fst (mtRows tab'))" if "map_of (mTables e') t = Some tab'" for t tab'
    using tab [OF that] assms(1) unfolding mem_inv_def by (metis distinct_scanChanges)
  have own: "owned e a rid" if "owned e' a rid" for a rid
    using that
  proof cases
    case (owned_row t tab' r)
    from tab [OF owned_row(2)] obtain tab where tab0: "map_of (mTables e) t = Some tab"
      "mtRows tab' = mtRows tab \<or> mtRows tab' = fold scanChange (pendingFor (Some tx) t e) (mtRows tab)" by blast
    from dist [OF owned_row(2)] owned_row(3) have "map_of (mtRows tab') rid = Some r" by simp
    with tab0 map_of_scanChanges [of "pendingFor (Some tx) t e" "mtRows tab" rid r] show ?thesis
      unfolding owned_row(1) by (auto intro: owned_pending owned.owned_row [OF tab0(1) map_of_SomeD])
  next
    case (owned_pending c tx' t)
    then show ?thesis by (auto simp: pendingFor_end [OF p] split: if_splits intro: owned.owned_pending)
  qed
  show ?thesis
    by (rule mem_inv_transfer [OF assms(1) own]) (use assms(1,3,4) dist p in \<open>auto simp: mem_inv_def split: if_splits\<close>)
qed

lemma mem_inv_Commit: "mem_inv e \<Longrightarrow> mem_inv (fst (mem_Commit tx e))"
  by (rule mem_inv_end [where tx = tx]) (auto simp: Commit_tables mem_inv_pending commitChanges_sel)

lemma mem_inv_Rollback: "mem_inv e \<Longrightarrow> mem_inv (fst (mem_Rollback tx e))"
  by (rule mem_inv_end [where tx = tx]) (auto simp: Rollback_tables mem_inv_pending releaseChanges_sel)

lemma memView_cong: "scanRows e' txn' t = scanRows e txn t \<Longrightarrow> slices e' = slices e \<Longrightarrow> memView e' txn' t = memView e txn t"
  by (simp add: memView_def viewRow_def loadRow_def Let_def)

lemma Commit_view:
  assumes "mem_inv e" and "pendingFor (Some tx') t (fst (mem_Commit tx e)) = []"
  shows "memView (fst (mem_Commit tx e)) tx' t = memView e tx t"
  by (rule memView_cong)
    (use assms(2) in \<open>auto simp: scanRows_def Commit_tables [OF mem_inv_pending [OF assms(1)]] commitChanges_sel split: option.splits\<close>)

lemma Rollback_view:
  assumes "mem_inv e"
  shows "memView (fst (mem_Rollback tx e)) tx t = memView (e\<lparr>mPending := (mPending e)(tx := None)\<rparr>) tx t"
    and "tx' \<noteq> tx \<Longrightarrow> memView (fst (mem_Rollback tx e)) tx' t = memView e tx' t"
  by (rule memView_cong;
      auto simp: scanRows_def Rollback_tables [OF mem_inv_pending [OF assms]] releaseChanges_sel pendingFor_end [of "fst (mem_Rollback tx e)" e tx]
        pendingFor_end [of "e\<lparr>mPending := (mPending e)(tx := None)\<rparr>" e tx] split: option.splits)+

section \<open>An engine with one row\<close>

definition demoMemSchema :: schema where
  "demoMemSchema = \<lparr>Columns = [\<lparr>colName = ''id'', colType = TypeInt\<rparr>]\<rparr>"

definition demoMem :: memEngine where
  "demoMem = \<lparr>mTables = [(''t'', \<lparr>mtSchema = demoMemSchema, mtRows = [(1, \<lparr>srValues = 1, srXmin = 0, srXmax = 0\<rparr>)],
       mtRowTxns = [1 \<mapsto> 0]\<rparr>)], mIndexes = {''t:id''}, mNextID = 1, mNextTx = 3, mPending = Map.empty, mActiveTxns = {2, 3},
     mStatsCache = Map.empty, slices = (\<lambda>_. [])(1 := [NewInt 7]), nextSlice = 2\<rparr>"

lemma demoMem_ok:
  "mem_inv demoMem" "memSchema demoMem ''t'' = Some demoMemSchema" "pendingFor (Some tx) t demoMem = []"
  "memView demoMem tx ''t'' = [(1, \<lparr>Values = [NewInt 7], Xmin = 0, Xmax = 0\<rparr>)]"
  by (auto simp: mem_inv_def demoMem_def owned.simps pendingFor_def memSchema_def memView_def scanRows_def viewRow_def loadRow_def
      split: if_splits)

lemma demoMem_writable: "mem_writable demoMem 2 ''t'' (1, r)"
  by (simp add: mem_writable_def conflicting_def demoMem_def)

section \<open>Isolation of insertions and deletions\<close>

lemma pendingFor_other: "tx' \<noteq> tx \<Longrightarrow> pendingFor (Some tx') t' (addPending tx t c e) = pendingFor (Some tx') t' e"
  by (simp add: pendingFor_addPending)

lemma scanRows_addPending_other [simp]: "tx' \<noteq> tx \<Longrightarrow> scanRows (addPending tx t c e) tx' t' = scanRows e tx' t'"
  by (simp add: scanRows_def pendingFor_addPending split: option.splits)

lemma scanRows_bound: "mem_inv e \<Longrightarrow> map_of (scanRows e txn t) rid = Some r \<Longrightarrow> srValues r \<noteq> nextSlice e"
  using scanRows_facts(2) [of e txn t rid r] unfolding mem_inv_def by (metis order_less_irrefl)

lemma Insert_other:
  assumes "mem_inv e" and "tx' \<noteq> tx"
  shows "memView (fst (memInsertRow tx t r e)) tx' t' = memView e tx' t'"
proof -
  let ?e = "fst (memInsertRow tx t r e)"
  have rows: "scanRows ?e tx' t' = scanRows e tx' t'"
    using assms(2) by (auto simp: memInsertRow_def makeSlice_def mem_Insert_def Let_def split: option.splits)
      (auto simp: scanRows_def pendingFor_def split: option.splits)
  have "slices ?e = (slices e)(nextSlice e := Values r)"
    by (auto simp: memInsertRow_def makeSlice_def mem_Insert_def Let_def split: option.splits)
  then have "viewRow ?e (scanRows e tx' t') rid = viewRow e (scanRows e tx' t') rid" if "rid \<in> fst ` set (scanRows e tx' t')" for rid
    using scanRows_bound [OF assms(1)] that by (intro viewRow_cong) auto
  then show ?thesis by (simp add: memView_def rows Let_def)
qed

lemma Delete_state:
  "fst (mem_Delete (Some tx) t rid e) = e \<or> fst (mem_Delete (Some tx) t rid e) = claimRow (Some tx) t rid
     (addPending tx t \<lparr>pcRowID = rid, pcRow = \<lparr>srValues = 0, srXmin = 0, srXmax = 0\<rparr>, pcIsDelete = True\<rparr> e)"
  by (auto simp: mem_Delete_def claimRow_def split: option.splits)

lemma Delete_other:
  assumes "tx' \<noteq> tx"
  shows "memView (fst (mem_Delete (Some tx) t rid e)) tx' t' = memView e tx' t'"
proof -
  show ?thesis using Delete_state [of tx t rid e] assms by (auto intro!: memView_cong)
qed

text \<open>C26: Transactions of the in-memory engine.  An insertion or a deletion, whether it succeeds or not, changes
  nothing that another transaction sees.  When a transaction commits, every transaction without changes
  of its own to a table sees the table as the committing one saw it; when it rolls back, the others see
  no difference.\<close>

theorem mem_transactions:
  assumes "mem_inv e" and "tx' \<noteq> tx"
  shows "memView (fst (memInsertRow tx t r e)) tx' t' = memView e tx' t' \<and>
    memView (fst (mem_Delete (Some tx) t rid e)) tx' t' = memView e tx' t' \<and>
    memView (fst (mem_Rollback tx e)) tx' t' = memView e tx' t' \<and>
    (pendingFor (Some tx') t' e = [] \<longrightarrow> memView (fst (mem_Commit tx e)) tx' t' = memView e tx t')"
  using Insert_other [OF assms] Delete_other [OF assms(2)] Rollback_view(2) [OF assms]
    Commit_view [OF assms(1), of tx' t' tx] assms(2) by (simp add: pendingFor_end [of "fst (mem_Commit tx e)" e tx])

theorem mem_transactions_witness:
  "memView (fst (memInsertRow 2 ''t'' \<lparr>Values = [NewInt 8], Xmin = 0, Xmax = 0\<rparr> demoMem)) 3 ''t'' =
     [(1, \<lparr>Values = [NewInt 7], Xmin = 0, Xmax = 0\<rparr>)]"
  using mem_transactions [OF demoMem_ok(1), of 3 2 "''t''" "\<lparr>Values = [NewInt 8], Xmin = 0, Xmax = 0\<rparr>" "''t''"]
  by (simp add: demoMem_ok)

section \<open>The invariant\<close>

text \<open>The calls that sessions make: a row that is updated is one that the transaction's scan returned.\<close>

inductive mem_step :: "memEngine \<Rightarrow> memEngine \<Rightarrow> bool" where
  "mem_step e (fst (mem_Begin e))"
| "mem_step e (fst (mem_Commit tx e))"
| "mem_step e (fst (mem_Rollback tx e))"
| "mem_step e (fst (mem_CreateTable t sch e))"
| "mem_step e (fst (mem_DropTable t e))"
| "unat (mNextID e) + 1 < 2 ^ 64 \<Longrightarrow> mem_step e (fst (memInsertRow tx t \<lparr>Values = vs, Xmin = 0, Xmax = 0\<rparr> e))"
| "x \<in> set (memView e tx t) \<Longrightarrow>
   mem_step e (fst (memUpdateRow tx t (fst x) (writeValues ws (snd x)) (writeThrough memOps tx t (fst x) ws e)))"
| "mem_step e (fst (mem_Delete (Some tx) t rid e))"
| "mem_step e (fst (mem_CreateIndex t c e))"
| "mem_step e (fst (mem_Analyze t e))"
| "mem_step e (fst (mem_Stats t e))"

lemma mem_inv_cong:
  assumes "mem_inv e" and "\<And>t tab. map_of (mTables e') t = Some tab \<Longrightarrow> map_of (mTables e) t = Some tab \<or> mtRows tab = []"
    and "mPending e' = mPending e" and "nextSlice e' \<ge> nextSlice e" and "mNextID e' \<ge> mNextID e"
  shows "mem_inv e'"
proof -
  have own: "owned e a rid" if "owned e' a rid" for a rid
    using that by cases (auto dest: assms(2) simp: pendingFor_cong [OF assms(3)] intro: owned.intros)
  show ?thesis
  proof (rule mem_inv_transfer [OF assms(1) own assms(4,5)])
    show "distinct (map fst (mtRows tab))" if "map_of (mTables e') t = Some tab" for t tab
      using assms(1) assms(2) [OF that] by (auto simp: mem_inv_def)
    show "distinct (map fst p)" if "mPending e' tx = Some p" for tx p using that assms(1,3) by (auto simp: mem_inv_def)
  qed
qed

lemma mem_inv_InsertRow:
  assumes "mem_inv e" and "unat (mNextID e) + 1 < 2 ^ 64"
  shows "mem_inv (fst (memInsertRow tx t \<lparr>Values = vs, Xmin = 0, Xmax = 0\<rparr> e))"
proof (cases "mem_fits e t vs")
  case True
  then have "mem_ready e tx t (Suc 0)" using assms(2) by (auto simp: mem_ready_def mem_fits_def)
  from mem_insert [OF assms(1) this True] show ?thesis by auto
next
  case False
  then have "fst (memInsertRow tx t \<lparr>Values = vs, Xmin = 0, Xmax = 0\<rparr> e) = fst (makeSlice vs e)"
    by (auto simp: memInsertRow_def mem_Insert_def makeSlice_def mem_fits_def memSchema_def split: option.splits)
  then show ?thesis by (auto intro: mem_inv_cong [OF assms(1)] simp: makeSlice_def)
qed

lemma mem_inv_UpdateRow:
  assumes "mem_inv e" and "x \<in> set (memView e tx t)"
  shows "mem_inv (fst (memUpdateRow tx t (fst x) (writeValues ws (snd x)) (writeThrough memOps tx t (fst x) ws e)))"
proof -
  from assms(2) memView_mem [OF assms(1)] obtain r where
    r: "map_of (scanRows e tx t) (fst x) = Some r" "x = (fst x, loadRow e r)" by metis
  show ?thesis
  proof (cases "mem_writable e tx t x \<and> mem_fits e t (writeList ws (slices e (srValues r)))")
    case True
    with memUpdateRow_ok [OF r(1), of ws] r(2) afterUpdate_ok(1) [OF assms(1) r(1)] show ?thesis by (metis fst_conv snd_conv)
  next
    case False
    have "fst (memUpdateRow tx t (fst x) (writeValues ws (snd x)) (writeThrough memOps tx t (fst x) ws e)) =
        writeThrough memOps tx t (fst x) ws e"
      using False r(1) by (auto simp: memUpdateRow_def mem_Update_def writeThrough_mem mem_writable_def mem_fits_def memSchema_def
          scannedSlice_def split: option.splits)
    with assms(1) show ?thesis by (simp add: writeThrough_mem)
  qed
qed

lemma mem_inv_Delete: "mem_inv e \<Longrightarrow> mem_inv (fst (mem_Delete (Some tx) t rid e))"
  using Delete_state [of tx t rid e] by (auto intro!: mem_inv_addPending)

lemma mem_inv_step: "mem_step e e' \<Longrightarrow> mem_inv e \<Longrightarrow> mem_inv e'"
proof (induction rule: mem_step.induct)
  case (1 e)
  then show ?case by (rule mem_inv_cong) (simp_all add: mem_Begin_def Let_def)
next
  case (4 e t sch)
  then show ?case by (rule mem_inv_cong) (auto simp: mem_CreateTable_def AList.update_conv' split: if_splits)
next
  case (5 e t)
  then show ?case by (rule mem_inv_cong) (auto simp: mem_DropTable_def AList.delete_conv' split: if_splits)
next
  case (9 e t c)
  then show ?case by (rule mem_inv_cong) (simp_all add: mem_CreateIndex_def)
next
  case (10 e t)
  then show ?case by (rule mem_inv_cong) (auto simp: mem_Analyze_def split: option.splits sum.splits)
next
  case (11 e t)
  then show ?case by (rule mem_inv_cong) (auto simp: mem_Stats_def split: option.splits sum.splits)
qed (auto intro: mem_inv_Commit mem_inv_Rollback mem_inv_InsertRow mem_inv_UpdateRow mem_inv_Delete)

lemma mem_inv_New: "mem_inv mem_New"
  by (auto simp: mem_inv_def mem_New_def owned.simps pendingFor_def)

text \<open>Whatever statements were executed on a new engine, the hypothesis of the other properties holds.\<close>

lemma mem_reachable_inv: "mem_step\<^sup>*\<^sup>* mem_New e \<Longrightarrow> mem_inv e"
  by (induction rule: rtranclp_induct) (auto intro: mem_inv_New mem_inv_step)

section \<open>Row identifiers\<close>

text \<open>Histories of an engine with the identifiers that its insertions returned, each with its table, the last one
  first.  The other calls come with any arguments, from several goroutines or outside any transaction,
  and users write into the slices as they like.\<close>

inductive mem_call :: "memEngine \<Rightarrow> memEngine \<Rightarrow> bool" where
  "mem_call e (fst (mem_Begin e))"
| "mem_call e (fst (mem_Commit tx e))"
| "mem_call e (fst (mem_Rollback tx e))"
| "mem_call e (fst (mem_CreateTable t sch e))"
| "mem_call e (fst (mem_DropTable t e))"
| "snd (mem_Insert txn t r e) = Inl err \<Longrightarrow> mem_call e (fst (mem_Insert txn t r e))"
| "mem_call e (fst (mem_Update txn t rid r e))"
| "mem_call e (fst (mem_Delete txn t rid e))"
| "mem_call e (fst (mem_CreateIndex t c e))"
| "mem_call e (fst (mem_Analyze t e))"
| "mem_call e (fst (mem_Stats t e))"
| "mem_call e (e\<lparr>slices := sl, nextSlice := k\<rparr>)"

inductive mem_history :: "memEngine \<Rightarrow> (rowID \<times> string) list \<Rightarrow> bool" where
  history_New: "mem_history mem_New []"
| history_Insert: "mem_history e ids \<Longrightarrow> mem_Insert txn t r e = (e', Inr rid) \<Longrightarrow> mem_history e' ((rid, t) # ids)"
| history_call: "mem_history e ids \<Longrightarrow> mem_call e e' \<Longrightarrow> mem_history e' ids"

text \<open>Identifiers count the insertions; stored rows and pending changes have identifiers of their own table.\<close>

definition ids_inv :: "memEngine \<Rightarrow> (rowID \<times> string) list \<Rightarrow> bool" where
  "ids_inv e ids \<longleftrightarrow>
     mNextID e = of_nat (length ids) \<and> map fst ids = rev (map of_nat [1..<Suc (length ids)]) \<and>
     (\<forall>t tab. map_of (mTables e) t = Some tab \<longrightarrow> (\<forall>rid \<in> fst ` set (mtRows tab). (rid, t) \<in> set ids)) \<and>
     (\<forall>tx t. \<forall>c \<in> set (pendingFor (Some tx) t e). (pcRowID c, t) \<in> set ids) \<and>
     (\<forall>tx p. mPending e tx = Some p \<longrightarrow> distinct (map fst p))"

lemma ids_inv_pending: "ids_inv e ids \<Longrightarrow> mPending e tx = Some p \<Longrightarrow> distinct (map fst p)"
  by (simp add: ids_inv_def)

lemma ids_invD:
  assumes "ids_inv e ids"
  shows "map_of (mTables e) t = Some tab \<Longrightarrow> rid \<in> fst ` set (mtRows tab) \<Longrightarrow> (rid, t) \<in> set ids"
    and "c \<in> set (pendingFor (Some tx) t e) \<Longrightarrow> (pcRowID c, t) \<in> set ids"
  using assms by (auto simp: ids_inv_def)

lemma ids_inv_transfer:
  assumes "ids_inv e ids" and "mNextID e' = mNextID e"
    and "\<And>t tab rid. map_of (mTables e') t = Some tab \<Longrightarrow> rid \<in> fst ` set (mtRows tab) \<Longrightarrow> (rid, t) \<in> set ids"
    and "\<And>tx t c. c \<in> set (pendingFor (Some tx) t e') \<Longrightarrow> (pcRowID c, t) \<in> set ids"
    and "\<And>tx p. mPending e' tx = Some p \<Longrightarrow> distinct (map fst p)"
  shows "ids_inv e' ids"
  using assms by (simp add: ids_inv_def)

text \<open>Calls that leave the pending changes alone and add no row to a table.\<close>

lemma ids_inv_cong:
  assumes "ids_inv e ids" and "mNextID e' = mNextID e" and "mPending e' = mPending e"
    and "\<And>t tab. map_of (mTables e') t = Some tab \<Longrightarrow> mtRows tab = [] \<or>
      (\<exists>tab0. map_of (mTables e) t = Some tab0 \<and> fst ` set (mtRows tab) \<subseteq> fst ` set (mtRows tab0))"
  shows "ids_inv e' ids"
proof (rule ids_inv_transfer [OF assms(1,2)])
  show "(rid, t) \<in> set ids" if "map_of (mTables e') t = Some tab" "rid \<in> fst ` set (mtRows tab)" for t tab rid
    using assms(4) [OF that(1)]
  proof (elim disjE exE conjE)
    fix tab0 assume tab0: "map_of (mTables e) t = Some tab0" "fst ` set (mtRows tab) \<subseteq> fst ` set (mtRows tab0)"
    show ?thesis by (rule ids_invD(1) [OF assms(1) tab0(1) subsetD [OF tab0(2) that(2)]])
  qed (use that(2) in simp)
  show "(pcRowID c, t) \<in> set ids" if "c \<in> set (pendingFor (Some tx) t e')" for tx t c
    using that ids_invD(2) [OF assms(1)] by (simp add: pendingFor_cong [OF assms(3)])
  show "distinct (map fst p)" if "mPending e' tx = Some p" for tx p
    using that ids_inv_pending [OF assms(1)] by (simp add: assms(3))
qed

lemma keys_scanChanges: "fst ` set (fold scanChange cs rows) \<subseteq> fst ` set rows \<union> pcRowID ` set cs"
proof (induction cs arbitrary: rows)
  case (Cons c cs)
  have "fst ` set (scanChange c rows) \<subseteq> insert (pcRowID c) (fst ` set rows)"
    using dom_delete_subset [of "pcRowID c" rows] by (simp add: scanChange_def dom_update subset_insertI2)
  with Cons.IH [of "scanChange c rows"] show ?case by (simp add: subset_iff) blast
qed simp

lemma ids_inv_end:
  assumes "ids_inv e ids" and "mNextID e' = mNextID e" and p: "mPending e' = (mPending e)(tx := None)"
    and tab: "\<And>t tab'. map_of (mTables e') t = Some tab' \<Longrightarrow> \<exists>tab. map_of (mTables e) t = Some tab \<and>
      (mtRows tab' = mtRows tab \<or> mtRows tab' = fold scanChange (pendingFor (Some tx) t e) (mtRows tab))"
  shows "ids_inv e' ids"
proof (rule ids_inv_transfer [OF assms(1,2)])
  fix t tab' rid assume t: "map_of (mTables e') t = Some tab'" "rid \<in> fst ` set (mtRows tab')"
  from tab [OF t(1)] obtain tab where "map_of (mTables e) t = Some tab"
    "mtRows tab' = mtRows tab \<or> mtRows tab' = fold scanChange (pendingFor (Some tx) t e) (mtRows tab)" by blast
  with t(2) have "map_of (mTables e) t = Some tab" "rid \<in> fst ` set (mtRows tab) \<or> rid \<in> pcRowID ` set (pendingFor (Some tx) t e)"
    using subsetD [OF keys_scanChanges [of "pendingFor (Some tx) t e" "mtRows tab"], of rid] by (metis Un_iff)+
  then show "(rid, t) \<in> set ids" using ids_invD [OF assms(1)] by auto
next
  show "(pcRowID c, t) \<in> set ids" if "c \<in> set (pendingFor (Some tx') t e')" for tx' t c
    using that ids_invD(2) [OF assms(1)] by (simp add: pendingFor_end [OF p] split: if_splits)
  show "distinct (map fst q)" if "mPending e' tx' = Some q" for tx' q
    using that ids_inv_pending [OF assms(1)] by (simp add: p split: if_splits)
qed

text \<open>A pending change to a row whose identifier was given out for the table.\<close>

lemma pending_addPending:
  assumes "\<And>p. mPending e tx = Some p \<Longrightarrow> distinct (map fst p)" and "mPending (addPending tx' t c e) tx = Some q"
  shows "distinct (map fst q)"
  using assms by (auto simp: addPending_def Let_def distinct_update split: if_splits option.splits)

lemma ids_inv_addPending:
  assumes "ids_inv e ids" and "(pcRowID c, t) \<in> set ids"
  shows "ids_inv (addPending tx t c e) ids"
proof (rule ids_inv_transfer [OF assms(1)])
  show "distinct (map fst q)" if "mPending (addPending tx t c e) tx' = Some q" for tx' q
    by (rule pending_addPending [OF ids_inv_pending [OF assms(1)] that])
qed (use assms(2) ids_invD [OF assms(1)] in \<open>auto simp: pendingFor_addPending split: if_splits\<close>)

lemma ids_inv_updMemTable:
  assumes "ids_inv e ids" and "\<And>tab. map_of (mTables e) t = Some tab \<Longrightarrow> \<forall>rid \<in> fst ` set (mtRows (f tab)). (rid, t) \<in> set ids"
  shows "ids_inv (updMemTable t f e) ids"
  by (rule ids_inv_transfer [OF assms(1)])
    (use assms(2) ids_invD [OF assms(1)] ids_inv_pending [OF assms(1)] in
      \<open>auto simp: pendingFor_cong [of "updMemTable t f e" e] split: option.splits if_splits\<close>)

lemma ids_inv_ext: "ids_inv (e\<lparr>slices := sl, nextSlice := k\<rparr>) ids = ids_inv e ids"
  by (simp add: ids_inv_def pendingFor_def)

lemma ids_inv_next:
  assumes "ids_inv e ids"
  shows "ids_inv (e\<lparr>mNextID := mNextID e + 1\<rparr>) ((mNextID e + 1, t) # ids)"
  using assms by (simp add: ids_inv_def pendingFor_def)

lemma ids_inv_Insert:
  assumes "ids_inv e ids" and "mem_Insert txn t r e = (e', Inr rid)"
  shows "ids_inv e' ((rid, t) # ids)"
proof -
  let ?e = "e\<lparr>mNextID := mNextID e + 1\<rparr>"
  from assms(2) have rid: "rid = mNextID e + 1"
    by (auto simp: mem_Insert_def Let_def split: option.splits if_splits)
  have inv: "ids_inv ?e ((rid, t) # ids)" using ids_inv_next [OF assms(1)] by (simp add: rid)
  show ?thesis
  proof (cases txn)
    case (Some tx)
    with assms(2) rid have "e' = addPending tx t \<lparr>pcRowID = rid, pcRow = r, pcIsDelete = False\<rparr> ?e"
      by (auto simp: mem_Insert_def Let_def split: option.splits if_splits)
    with ids_inv_addPending [OF inv] show ?thesis by simp
  next
    case None
    let ?f = "\<lambda>t. t\<lparr>mtRows := AList.update rid r (mtRows t), mtRowTxns := (mtRowTxns t)(rid \<mapsto> 0)\<rparr>"
    from None assms(2) rid have "e' = updMemTable t ?f ?e"
      by (auto simp: mem_Insert_def Let_def split: option.splits if_splits)
    moreover have "\<forall>i \<in> fst ` set (mtRows (?f tab)). (i, t) \<in> set ((rid, t) # ids)" if "map_of (mTables ?e) t = Some tab" for tab
      using ids_invD(1) [OF inv that] by (simp add: dom_update)
    ultimately show ?thesis using ids_inv_updMemTable [OF inv] by simp
  qed
qed

lemma ids_inv_Update:
  assumes "ids_inv e ids"
  shows "ids_inv (fst (mem_Update txn t rid r e)) ids"
proof (cases "\<exists>tab. map_of (mTables e) t = Some tab \<and> rid \<in> fst ` set (mtRows tab)")
  case True
  then obtain tab where tab: "map_of (mTables e) t = Some tab" "rid \<in> fst ` set (mtRows tab)" by blast
  note rid = ids_invD(1) [OF assms tab]
  let ?f = "\<lambda>t. t\<lparr>mtRows := AList.update rid r (mtRows t), mtRowTxns := (mtRowTxns t)(rid \<mapsto> 0)\<rparr>"
  have direct: "ids_inv (updMemTable t ?f e) ids"
    by (rule ids_inv_updMemTable [OF assms]) (use rid ids_invD(1) [OF assms] in \<open>simp add: dom_update\<close>)
  have claim: "ids_inv (updMemTable t (\<lambda>tab. tab\<lparr>mtRowTxns := g tab\<rparr>)
      (addPending tx t \<lparr>pcRowID = rid, pcRow = r, pcIsDelete = False\<rparr> e)) ids" for g tx
    by (rule ids_inv_updMemTable [OF ids_inv_addPending [OF assms]]) (use rid ids_invD(1) [OF assms] in simp_all)
  show ?thesis using assms direct claim by (simp add: mem_Update_def split: option.splits)
next
  case False
  then have "fst (mem_Update txn t rid r e) = e"
    by (auto simp: mem_Update_def map_of_eq_None_iff split: option.splits)
  with assms show ?thesis by simp
qed

lemma ids_inv_Delete:
  assumes "ids_inv e ids"
  shows "ids_inv (fst (mem_Delete txn t rid e)) ids"
proof (cases "\<exists>tab. map_of (mTables e) t = Some tab \<and> rid \<in> fst ` set (mtRows tab)")
  case True
  then obtain tab where tab: "map_of (mTables e) t = Some tab" "rid \<in> fst ` set (mtRows tab)" by blast
  note rid = ids_invD(1) [OF assms tab]
  let ?f = "\<lambda>t. t\<lparr>mtRows := AList.delete rid (mtRows t), mtRowTxns := (mtRowTxns t)(rid := None)\<rparr>"
  have direct: "ids_inv (updMemTable t ?f e) ids"
    by (rule ids_inv_updMemTable [OF assms])
      (use ids_invD(1) [OF assms] in \<open>auto dest!: subsetD [OF dom_delete_subset, OF imageI]\<close>)
  have claim: "ids_inv (updMemTable t (\<lambda>tab. tab\<lparr>mtRowTxns := g tab\<rparr>)
      (addPending tx t \<lparr>pcRowID = rid, pcRow = \<lparr>srValues = 0, srXmin = 0, srXmax = 0\<rparr>, pcIsDelete = True\<rparr> e)) ids" for g tx
    by (rule ids_inv_updMemTable [OF ids_inv_addPending [OF assms]]) (use rid ids_invD(1) [OF assms] in simp_all)
  show ?thesis using assms direct claim by (simp add: mem_Delete_def split: option.splits)
next
  case False
  then have "fst (mem_Delete txn t rid e) = e"
    by (auto simp: mem_Delete_def map_of_eq_None_iff split: option.splits)
  with assms show ?thesis by simp
qed

lemma ids_inv_call: "mem_call e e' \<Longrightarrow> ids_inv e ids \<Longrightarrow> ids_inv e' ids"
proof (induction rule: mem_call.induct)
  case (1 e)
  then show ?case by (rule ids_inv_cong) (simp_all add: mem_Begin_def Let_def)
next
  case (2 e tx)
  show ?case by (rule ids_inv_end [OF 2, where tx = tx]) (auto simp: Commit_tables [OF ids_inv_pending [OF 2]] commitChanges_sel)
next
  case (3 e tx)
  show ?case by (rule ids_inv_end [OF 3, where tx = tx]) (auto simp: Rollback_tables [OF ids_inv_pending [OF 3]] releaseChanges_sel)
next
  case (4 e t sch)
  then show ?case by (rule ids_inv_cong) (auto simp: mem_CreateTable_def AList.update_conv' split: if_splits)
next
  case (5 e t)
  then show ?case by (rule ids_inv_cong) (auto simp: mem_DropTable_def AList.delete_conv' split: if_splits)
next
  case (6 txn t r e err)
  then have "fst (mem_Insert txn t r e) = e" by (auto simp: mem_Insert_def Let_def split: option.splits if_splits)
  with 6 show ?case by simp
next
  case (9 e t c)
  then show ?case by (rule ids_inv_cong) (simp_all add: mem_CreateIndex_def)
next
  case (10 e t)
  then show ?case by (rule ids_inv_cong) (auto simp: mem_Analyze_def split: option.splits sum.splits)
next
  case (11 e t)
  then show ?case by (rule ids_inv_cong) (auto simp: mem_Stats_def split: option.splits sum.splits)
qed (simp_all add: ids_inv_Update ids_inv_Delete ids_inv_ext)

lemma ids_inv_history: "mem_history e ids \<Longrightarrow> ids_inv e ids"
  by (induction rule: mem_history.induct)
    (simp_all add: ids_inv_Insert ids_inv_call, simp add: ids_inv_def mem_New_def pendingFor_def)

lemma distinct_counters: "n < 2 ^ 64 \<Longrightarrow> distinct (map (of_nat :: nat \<Rightarrow> 64 word) [1..<Suc n])"
  by (auto simp: distinct_map intro!: inj_onI dest!: arg_cong [where f = unat] simp: unat_of_nat)

lemma set_memView: "fst ` set (memView e tx t) = fst ` set (scanRows e tx t)"
  using fst_memView [of e tx t] by (metis list.set_map set_sort)

text \<open>C27: Row identifiers of the in-memory engine.  In any history of calls from an empty engine, from any number of
  transactions or none, with fewer than \<open>2\<^sup>64\<close> insertions, no identifier is returned by two insertions, into
  the same or into different tables, also after rollbacks and after dropping and recreating a table; and every row
  that is stored in a table, or that a transaction sees there, carries the identifier of an insertion into a
  table of that name.\<close>

theorem mem_history_ids:
  assumes "mem_history e ids" and "length ids < 2 ^ 64"
  shows "distinct (map fst ids) \<and>
    (\<forall>t tab rid. map_of (mTables e) t = Some tab \<longrightarrow> rid \<in> fst ` set (mtRows tab) \<longrightarrow> (rid, t) \<in> set ids) \<and>
    (\<forall>tx t x. x \<in> set (memView e tx t) \<longrightarrow> (fst x, t) \<in> set ids)"
proof -
  note inv = ids_inv_history [OF assms(1)]
  from inv have "map fst ids = rev (map of_nat [1..<Suc (length ids)])" by (simp add: ids_inv_def)
  with distinct_counters [OF assms(2)] have "distinct (map fst ids)" by (metis distinct_rev)
  moreover have "(fst x, t) \<in> set ids" if x: "x \<in> set (memView e tx t)" for tx t x
  proof -
    from x set_memView [of e tx t] have "fst x \<in> fst ` set (scanRows e tx t)" by blast
    then obtain tab where tab: "map_of (mTables e) t = Some tab"
      "fst x \<in> fst ` set (fold scanChange (pendingFor (Some tx) t e) (mtRows tab))" by (cases "map_of (mTables e) t") (simp_all add: scanRows_def)
    from subsetD [OF keys_scanChanges tab(2)] show ?thesis using ids_invD [OF inv] tab(1) by auto
  qed
  ultimately show ?thesis using ids_invD(1) [OF inv] by blast
qed

definition demoHistory :: memEngine where
  "demoHistory =
     (let e0 = fst (mem_CreateTable ''t'' demoMemSchema (fst (mem_Begin mem_New)));
          e1 = e0\<lparr>slices := (slices e0)(1 := [NewInt 7], 2 := [NewInt 8]), nextSlice := 3\<rparr>;
          e2 = fst (mem_Rollback 1 (fst (mem_Insert (Some 1) ''t'' \<lparr>srValues = 1, srXmin = 0, srXmax = 0\<rparr> e1)))
      in fst (mem_Insert None ''t'' \<lparr>srValues = 2, srXmin = 0, srXmax = 0\<rparr> e2))"

text \<open>A row of a transaction that rolled back, and a row outside any transaction.\<close>

lemma demo_history: "mem_history demoHistory [(2, ''t''), (1, ''t'')]"
proof -
  let ?e0 = "fst (mem_CreateTable ''t'' demoMemSchema (fst (mem_Begin mem_New)))"
  let ?e1 = "?e0\<lparr>slices := (slices ?e0)(1 := [NewInt 7], 2 := [NewInt 8]), nextSlice := 3\<rparr>"
  let ?i1 = "mem_Insert (Some 1) ''t'' \<lparr>srValues = 1, srXmin = 0, srXmax = 0\<rparr> ?e1"
  let ?e2 = "fst (mem_Rollback 1 (fst ?i1))"
  let ?i2 = "mem_Insert None ''t'' \<lparr>srValues = 2, srXmin = 0, srXmax = 0\<rparr> ?e2"
  have 1: "mem_history ?e1 []"
    by (rule history_call [OF history_call [OF history_call [OF history_New]]]) (rule mem_call.intros)+
  have "snd ?i1 = Inr 1" "snd ?i2 = Inr 2"
    by (simp_all add: mem_Insert_def mem_CreateTable_def mem_Begin_def mem_New_def demoMemSchema_def Let_def mem_Rollback_def
        addPending_def updMemTable_def releaseChange_def)
  then have i: "?i1 = (fst ?i1, Inr 1)" "?i2 = (fst ?i2, Inr 2)" by (metis prod.collapse)+
  have "mem_history ?e2 [(1, ''t'')]" by (rule history_call [OF history_Insert [OF 1 i(1)]]) (rule mem_call.intros)
  from history_Insert [OF this i(2)] show ?thesis by (simp add: demoHistory_def Let_def)
qed

theorem mem_history_ids_witness:
  "distinct (map fst [(2 :: rowID, ''t''), (1, ''t'')]) \<and> fst ` set (memView demoHistory 3 ''t'') \<subseteq> {1, 2}"
  using mem_history_ids [OF demo_history] by (fastforce simp del: distinct.simps)

section \<open>Queries\<close>

interpretation ms: storage_seeks memOps mem_inv "(=)" memIter_live memIter_rows memSchema memView
  "\<lambda>e t c. indexKey t c \<in> mIndexes e" mem_seekable mem_seekRows
proof unfold_locales
  fix e t sch c txn key
  assume sch: "memSchema e t = Some sch" "0 \<le> ColumnIndex sch c" "\<And>x. x \<in> set (memView e txn t) \<Longrightarrow> row_typed sch (snd x)"
  have "nat (ColumnIndex sch c) < length (Columns sch)" using ColumnIndex_first(1) [of sch c] sch(2) by simp
  then have "nat (ColumnIndex sch c) < length (Values (snd x))" if "x \<in> set (memView e txn t)" for x
    using sch(3) [OF that] by (simp add: row_typed_def list_all2_lengthD)
  with sch(1,2) show "mem_seekable e txn t c \<and> mem_seekRows e txn t c key =
      filter (\<lambda>x. Compare (Values (snd x) ! nat (ColumnIndex sch c)) key = Inr 0) (memView e txn t)"
    by (simp add: mem_seekable_def mem_seekRows_def)
qed

text \<open>C24: Indexes change no result.  On the in-memory engine, whatever indexes exist, a SELECT from one table with
  a well-typed condition over well-typed rows ends, leaves the engine as it is and returns the projection
  of the rows that the condition selects.\<close>

theorem mem_select:
  assumes "mem_inv e" and "memSchema e t = Some sch" and "\<And>p. w = Some p \<Longrightarrow> condition sch p"
    and "\<And>x. x \<in> set (memView e txn t) \<Longrightarrow> row_typed sch (snd x)"
  shows "enough (\<lambda>n. Execute n (Some memOps) (Some txn) (Some (SelectStmt es t alias [] w)) e =
    (e, selectRows (\<lambda>_. sch) (\<lambda>_. map snd (memView e txn t)) es t [] w))"
  using ms.executeSelect_indexed [OF assms(1,2,3), where txn = txn and es = es] assms(4) by (simp add: Execute_def)

theorem mem_select_witness:
  "enough (\<lambda>n. Execute n (Some memOps) (Some 2)
      (Some (SelectStmt [ColumnRef [] ''id''] ''t'' [] [] (Some (BinaryExpr OpEq (ColumnRef [] ''id'') (Literal (NewInt 7)))))) demoMem =
    (demoMem, Inr \<lparr>resSchema = demoMemSchema, resRows = [\<lparr>Values = [NewInt 7], Xmin = 0, Xmax = 0\<rparr>], RowsAffected = 0\<rparr>))"
  using mem_select [OF demoMem_ok(1,2), of "Some (BinaryExpr OpEq (ColumnRef [] ''id'') (Literal (NewInt 7)))" 2
      "[ColumnRef [] ''id'']" "[]"]
  by (simp add: demoMem_ok demoMemSchema_def row_typed_def selectRows_def whereRows_def projectRows_def ColumnIndex_def
      evalWhere_def evalBinary_vals_def evalComparison_def Compare_def NewInt_def NewBool_def has_type_def projectStream_def)

section \<open>Updates\<close>

lemma pendingFor_claimRow [simp]: "pendingFor txn t' (claimRow cl t rid e) = pendingFor txn t' e"
  by (rule pendingFor_cong) simp

lemma scanRows_afterUpdate_other:
  "tx' \<noteq> tx \<Longrightarrow> scanRows (afterUpdate tx t rid r vs e) tx' t' = scanRows e tx' t'"
  by (simp add: afterUpdate_def)

text \<open>The second phase of an UPDATE: the slices of the selected rows change, at once and for every transaction.\<close>

lemma updateRows_slices:
  assumes "mem_inv e" and "\<And>x. x \<in> set rows \<Longrightarrow> x \<in> set (memView e tx t) \<and> mem_writable e tx t x \<and>
      assignWrites as sch (snd x) \<noteq> None \<and> mem_fits e t (Values (assigned as sch (snd x)))"
    and "distinct (map fst rows)"
  shows "\<exists>e'. updateRows memOps tx t as sch i rows e = (e', Inr ()) \<and> mem_inv e' \<and>
    (\<forall>tx' t'. tx' \<noteq> tx \<longrightarrow> scanRows e' tx' t' = scanRows e tx' t') \<and> scanRows e' tx t = scanRows e tx t \<and>
    (\<forall>rid r. map_of (scanRows e tx t) rid = Some r \<longrightarrow> slices e' (srValues r) =
      (if rid \<in> fst ` set rows then Values (assigned as sch (loadRow e r)) else slices e (srValues r)))"
  using assms
proof (induction rows arbitrary: e i)
  case (Cons x rows)
  have x: "x \<in> set (memView e tx t)" "mem_writable e tx t x" "assignWrites as sch (snd x) \<noteq> None"
    "mem_fits e t (Values (assigned as sch (snd x)))" using Cons.prems(2) [of x] by simp_all
  from x(1) memView_mem [OF Cons.prems(1)] obtain r where
    r: "map_of (scanRows e tx t) (fst x) = Some r" "x = (fst x, loadRow e r)" by metis
  then have sx: "snd x = loadRow e r" by (metis snd_conv)
  from x(3) obtain ws where ws: "assignWrites as sch (snd x) = Some ws" by auto
  define vs where "vs = writeList ws (slices e (srValues r))"
  have asg: "assigned as sch (snd x) = writeValues ws (loadRow e r)" "Values (assigned as sch (snd x)) = vs"
    using ws sx by (simp_all add: assigned_def vs_def) (simp add: loadRow_def)
  let ?e = "afterUpdate tx t (fst x) r vs e"
  note U = afterUpdate_ok [OF Cons.prems(1) r(1), where vs = vs]
  have call: "memUpdateRow tx t (fst x) (writeValues ws (loadRow e r)) (writeThrough memOps tx t (fst x) ws e) = (?e, Inr ())"
    unfolding vs_def by (rule memUpdateRow_ok [OF r(1)]) (use x r(2) asg vs_def in simp_all)
  have load: "loadRow ?e r' = loadRow e r'" if "map_of (scanRows e tx t) rid = Some r'" "rid \<noteq> fst x" for rid r'
    using other_slice [OF Cons.prems(1) r(1) that] by (simp add: loadRow_def)
  have step: "z \<in> set (memView ?e tx t) \<and> mem_writable ?e tx t z \<and> assignWrites as sch (snd z) \<noteq> None \<and>
      mem_fits ?e t (Values (assigned as sch (snd z)))" if "z \<in> set rows" for z
  proof -
    have ne: "fst z \<noteq> fst x" by (rule distinct_fst_other [OF Cons.prems(3) that])
    from Cons.prems(2) [of z] that have z: "z \<in> set (memView e tx t)" "mem_writable e tx t z"
      "assignWrites as sch (snd z) \<noteq> None" "mem_fits e t (Values (assigned as sch (snd z)))" by simp_all
    from z(1) memView_mem [OF Cons.prems(1)] obtain r' where
      "map_of (scanRows e tx t) (fst z) = Some r'" "z = (fst z, loadRow e r')" by metis
    with load [OF _ ne] memView_mem [OF U(1)] U(2) have "z \<in> set (memView ?e tx t)" by metis
    with U(3) [OF z(2) ne] z(3,4) show ?thesis by (simp add: mem_fits_def)
  qed
  from Cons.prems(3) have "distinct (map fst rows)" by simp
  from Cons.IH [OF U(1) step this, of "Suc i"] obtain e' where
    I: "updateRows memOps tx t as sch (Suc i) rows ?e = (e', Inr ())" "mem_inv e'"
    "\<forall>tx' t'. tx' \<noteq> tx \<longrightarrow> scanRows e' tx' t' = scanRows ?e tx' t'" "scanRows e' tx t = scanRows ?e tx t"
    "\<forall>rid r. map_of (scanRows ?e tx t) rid = Some r \<longrightarrow> slices e' (srValues r) =
      (if rid \<in> fst ` set rows then Values (assigned as sch (loadRow ?e r)) else slices ?e (srValues r))" by blast
  have "updateRows memOps tx t as sch i (x # rows) e = (e', Inr ())"
    using I(1) call ws sx r(2) by (cases x) (simp add: applyUpdateAssignments_ok)
  moreover have "slices e' (srValues r') = (if rid \<in> fst ` set (x # rows) then Values (assigned as sch (loadRow e r')) else slices e (srValues r'))"
    if r': "map_of (scanRows e tx t) rid = Some r'" for rid r'
  proof (cases "rid = fst x")
    case True
    with Cons.prems(3) have "rid \<notin> fst ` set rows" by auto
    with I(5) r' U(2) True r(1) asg(2) sx show ?thesis by auto
  next
    case False
    with I(5) r' U(2) load [OF r' False] other_slice [OF Cons.prems(1) r(1) r' False] show ?thesis by auto
  qed
  ultimately show ?case using I(2-4) U(2) scanRows_afterUpdate_other by auto
qed simp

text \<open>A new transaction and any other transaction without changes see the same rows.\<close>

lemma scanRows_unchanged: "pendingFor (Some tx) t e = [] \<Longrightarrow> pendingFor (Some tx') t e = [] \<Longrightarrow> scanRows e tx t = scanRows e tx' t"
  by (simp add: scanRows_def split: option.splits)

lemma row_eqI: "Values r = Values r' \<Longrightarrow> Xmin r = Xmin r' \<Longrightarrow> Xmax r = Xmax r' \<Longrightarrow> r = (r' :: row)"
  by simp

text \<open>What the table holds for everybody after an UPDATE, before its transaction has ended.\<close>

lemma memView_updated:
  assumes "mem_inv e" and "rows = filter (\<lambda>(_, r). evalWhere w r sch = Inr True) (memView e tx t)"
    and "scanRows e' tx' t = scanRows e tx t"
    and "\<And>rid r. map_of (scanRows e tx t) rid = Some r \<Longrightarrow> slices e' (srValues r) =
      (if rid \<in> fst ` set rows then Values (assigned as sch (loadRow e r)) else slices e (srValues r))"
  shows "memView e' tx' t = map (\<lambda>(rid, r). (rid, if evalWhere w r sch = Inr True then assigned as sch r else r)) (memView e tx t)"
proof -
  let ?rows = "scanRows e tx t"
  have "viewRow e' ?rows rid = (case viewRow e ?rows rid of (rid, r) \<Rightarrow> (rid, if evalWhere w r sch = Inr True then assigned as sch r else r))"
    if "rid \<in> fst ` set ?rows" for rid
  proof -
    from that obtain r where r: "map_of ?rows rid = Some r" by (metis map_of_eq_None_iff not_None_eq)
    have "(rid, r') \<in> set (memView e tx t) \<longleftrightarrow> r' = loadRow e r" for r'
      using memView_mem [OF assms(1), of "(rid, r')"] r by auto
    then have mem: "rid \<in> fst ` set rows \<longleftrightarrow> evalWhere w (loadRow e r) sch = Inr True"
      unfolding assms(2) by (auto simp: image_iff)
    have "loadRow e' r = (if evalWhere w (loadRow e r) sch = Inr True then assigned as sch (loadRow e r) else loadRow e r)"
    proof (cases "evalWhere w (loadRow e r) sch = Inr True")
      case True
      with assms(4) [OF r] mem have "Values (loadRow e' r) = Values (assigned as sch (loadRow e r))" by (simp add: loadRow_def)
      moreover have "Xmin (loadRow e' r) = Xmin (assigned as sch (loadRow e r))" "Xmax (loadRow e' r) = Xmax (assigned as sch (loadRow e r))"
        by (simp_all add: assigned_def) (simp_all add: loadRow_def)
      ultimately have "loadRow e' r = assigned as sch (loadRow e r)" by (rule row_eqI)
      then show ?thesis using True by simp
    next
      case False
      with assms(4) [OF r] mem show ?thesis by (simp add: loadRow_def)
    qed
    then show ?thesis using r by (simp add: viewRow_def)
  qed
  then show ?thesis by (simp add: memView_def Let_def assms(3))
qed

text \<open>C25: An UPDATE does not wait for its commit.  On the in-memory engine the executor writes the new values into
  the slices of the stored rows: as soon as an UPDATE has returned, and also after its transaction has
  rolled back, every other transaction without changes of its own sees the new values.\<close>

theorem mem_update_not_isolated:
  assumes "mem_inv e" and "memSchema e t = Some sch" and "matchRows w sch (memView e tx t) = Inr rows"
    and "\<And>x. x \<in> set rows \<Longrightarrow> mem_writable e tx t x \<and> assignWrites as sch (snd x) \<noteq> None \<and>
      mem_fits e t (Values (assigned as sch (snd x)))"
    and "tx' \<noteq> tx" and "pendingFor (Some tx) t e = []" and "pendingFor (Some tx') t e = []"
  shows "\<exists>e'. enough (\<lambda>n. Execute n (Some memOps) (Some tx) (Some (UpdateStmt t as w)) e =
        (e', Inr (emptyResult\<lparr>RowsAffected := length rows\<rparr>))) \<and>
    memView e' tx' t = map (\<lambda>(rid, r). (rid, if evalWhere w r sch = Inr True then assigned as sch r else r)) (memView e tx' t) \<and>
    memView (fst (mem_Rollback tx e')) tx' t = memView e' tx' t"
proof -
  have rows: "rows = filter (\<lambda>(_, r). evalWhere w r sch = Inr True) (memView e tx t)" by (rule matchRows_Inr [OF assms(3)])
  have "distinct (map fst (memView e tx t))" using scanRows_facts(1) [OF assms(1)] by (simp add: fst_memView)
  then have "distinct (map fst rows)" unfolding rows by (rule distinct_map_filter)
  from updateRows_slices [OF assms(1) _ this, of tx t as sch 0] assms(4) rows obtain e' where
    U: "updateRows memOps tx t as sch 0 rows e = (e', Inr ())" "mem_inv e'"
    "\<forall>tx' t'. tx' \<noteq> tx \<longrightarrow> scanRows e' tx' t' = scanRows e tx' t'"
    "\<forall>rid r. map_of (scanRows e tx t) rid = Some r \<longrightarrow> slices e' (srValues r) =
      (if rid \<in> fst ` set rows then Values (assigned as sch (loadRow e r)) else slices e (srValues r))" by auto
  from mw.scan_matching [OF assms(1,2), of tx w] assms(3) obtain s1 s3 it where
    S: "eGetSchema memOps t e = (s1, Inr (Some sch))" "eScan memOps tx t s1 = (s3, Inr it)"
    "enough (\<lambda>n. matchingRows memOps n it w sch s3 = (e, Inr rows))" by metis
  have "enough (\<lambda>n. Execute n (Some memOps) (Some tx) (Some (UpdateStmt t as w)) e =
      (e', Inr (emptyResult\<lparr>RowsAffected := length rows\<rparr>)))"
    using S(3) by (rule enough_mono) (simp add: Execute_def executeUpdate_def S(1,2) U(1) del: memOps_sel)
  moreover have "scanRows e tx' t = scanRows e tx t" by (rule scanRows_unchanged [OF assms(7,6)])
  moreover from this have "memView e tx' t = memView e tx t" by (simp add: memView_def)
  ultimately show ?thesis
    using memView_updated [OF assms(1) rows, of e' tx' as] U(3,4) assms(5) Rollback_view(2) [OF U(2) assms(5)] by auto
qed

theorem mem_update_not_isolated_witness:
  "\<exists>e'. enough (\<lambda>n. Execute n (Some memOps) (Some 2)
        (Some (UpdateStmt ''t'' [\<lparr>asgColumn = ''id'', asgValue = Literal (NewInt 9)\<rparr>] None)) demoMem =
      (e', Inr (emptyResult\<lparr>RowsAffected := 1\<rparr>))) \<and>
    memView (fst (mem_Rollback 2 e')) 3 ''t'' = [(1, \<lparr>Values = [NewInt 9], Xmin = 0, Xmax = 0\<rparr>)]"
  using mem_update_not_isolated [OF demoMem_ok(1,2), of None 2 "[(1, \<lparr>Values = [NewInt 7], Xmin = 0, Xmax = 0\<rparr>)]"
      "[\<lparr>asgColumn = ''id'', asgValue = Literal (NewInt 9)\<rparr>]" 3]
  by (auto simp: demoMem_ok demoMem_writable evalWhere_def mem_fits_def assigned_def ColumnIndex_def demoMemSchema_def NewInt_def
      writeList_def writeValues_def)

end
