(* ===== verification/Format.thy ===== *)
theory Format
  imports Core
begin

text \<open>
  The texts of errors: what \<^verbatim>\<open>fmt\<close> and \<^verbatim>\<open>strconv\<close> make of a format string and its arguments.
\<close>

text \<open>\<^verbatim>\<open>strconv.Quote\<close>, the verb \<^verbatim>\<open>%q\<close>, on bytes: quotes, backslashes and control characters are
  escaped; bytes from 128 on are taken to belong to printable characters.\<close>

definition hex_digit :: "nat \<Rightarrow> char" where
  "hex_digit d = char_of (if d < 10 then 48 + d else 87 + d)"

definition quote_char :: "char \<Rightarrow> string" where
  "quote_char c =
     (let n = of_char c :: nat; bs = CHR 0x5C in
      case map_of [(7, CHR ''a''), (8, CHR ''b''), (9, CHR ''t''), (10, CHR ''n''), (11, CHR ''v''), (12, CHR ''f''), (13, CHR ''r''),
          (34, c), (92, c)] n of
        Some d \<Rightarrow> [bs, d]
      | None \<Rightarrow> if n < 32 \<or> n = 127 then [bs, CHR ''x'', hex_digit (n div 16), hex_digit (n mod 16)] else [c])"

definition quote :: "string \<Rightarrow> string" where
  "quote s = [CHR 0x22] @ concat (map quote_char s) @ [CHR 0x22]"

fun show_arg :: "char \<Rightarrow> go_arg \<Rightarrow> string" where
  "show_arg verb (ArgStr s) = (if verb = CHR ''q'' then quote s else s)"
| "show_arg verb (ArgInt i) = dec_int i"

text \<open>\<^verbatim>\<open>fmt.Sprintf\<close> for the verbs that the program uses; \<open>w\<close> is the text of the wrapped error.\<close>

fun format :: "string \<Rightarrow> go_arg list \<Rightarrow> string \<Rightarrow> string" where
  "format (c # verb # cs) args w =
     (if c \<noteq> CHR ''%'' then c # format (verb # cs) args w
      else if verb = CHR ''w'' then w @ format cs args w
      else case args of
          [] \<Rightarrow> ''%!'' @ [verb] @ ''(MISSING)'' @ format cs args w
        | a # as \<Rightarrow> show_arg verb a @ format cs as w)"
| "format cs args w = cs"

fun sentinel_text :: "sentinel \<Rightarrow> string" where
  "sentinel_text ErrWriteConflict = ''write conflict: row modified by a concurrent transaction''"
| "sentinel_text ErrSerializationConflict = ''serialization conflict: cannot serialize concurrent transactions''"
| "sentinel_text ErrAlreadyInTxn = ''already in a transaction''"
| "sentinel_text ErrNoTxn = ''no active transaction''"

text \<open>\<^verbatim>\<open>err.Error()\<close>.  The last three constructors are no error values.\<close>

fun Error :: "go_error \<Rightarrow> string" where
  "Error (Sentinel s) = sentinel_text s"
| "Error (Errorf fmt args) = format fmt args []"
| "Error (Wrapf fmt args e) = format fmt args (Error e)"
| "Error (Panic msg) = msg"
| "Error Deadlock = []"
| "Error Diverges = []"

end
