(* ===== verification/Lexer.thy ===== *)
theory Lexer
  imports Format
begin

text \<open>
  The lexer (\<^verbatim>\<open>src/parser/lexer.go\<close>).  It works on the runes of the input.  What the package
  \<^verbatim>\<open>unicode\<close> knows of runes beyond ASCII is a parameter of the model; on ASCII it is written out.
\<close>

section \<open>Runes\<close>

type_synonym rune = nat

abbreviation rn :: "char \<Rightarrow> rune" where
  "rn c \<equiv> of_char c"

text \<open>\<^verbatim>\<open>utf8.DecodeRune\<close> on the bytes of a string: a rune and its width, U+FFFD of width 1 for bytes
  that are no valid encoding.\<close>

definition decodeRune :: "nat list \<Rightarrow> rune \<times> nat" where
  "decodeRune bs =
     (case bs of
        [] \<Rightarrow> (65533, 0)
      | a # bs1 \<Rightarrow>
          if a < 128 then (a, 1)
          else (case bs1 of
            [] \<Rightarrow> (65533, 1)
          | b # bs2 \<Rightarrow>
              if 194 \<le> a \<and> a \<le> 223 \<and> 128 \<le> b \<and> b \<le> 191 then ((a - 192) * 64 + (b - 128), 2)
              else (case bs2 of
                [] \<Rightarrow> (65533, 1)
              | c # bs3 \<Rightarrow>
                  if 224 \<le> a \<and> a \<le> 239 \<and> (if a = 224 then 160 else 128) \<le> b \<and> b \<le> (if a = 237 then 159 else 191) \<and>
                      128 \<le> c \<and> c \<le> 191
                  then ((a - 224) * 4096 + (b - 128) * 64 + (c - 128), 3)
                  else (case bs3 of
                    [] \<Rightarrow> (65533, 1)
                  | d # _ \<Rightarrow>
                      if 240 \<le> a \<and> a \<le> 244 \<and> (if a = 240 then 144 else 128) \<le> b \<and> b \<le> (if a = 244 then 143 else 191) \<and>
                          128 \<le> c \<and> c \<le> 191 \<and> 128 \<le> d \<and> d \<le> 191
                      then ((a - 240) * 262144 + (b - 128) * 4096 + (c - 128) * 64 + (d - 128), 4)
                      else (65533, 1)))))"

function decodeRunes :: "nat list \<Rightarrow> rune list" where
  "decodeRunes [] = []"
| "decodeRunes (b # bs) = (case decodeRune (b # bs) of (r, n) \<Rightarrow> r # decodeRunes (drop (n - 1) bs))"
  by pat_completeness auto
termination by (relation "measure length") auto

text \<open>\<^verbatim>\<open>utf8.EncodeRune\<close>.\<close>

definition encodeRune :: "rune \<Rightarrow> nat list" where
  "encodeRune r =
     (if r < 128 then [r]
      else if r < 2048 then [192 + r div 64, 128 + r mod 64]
      else if 55296 \<le> r \<and> r \<le> 57343 \<or> r > 1114111 then [239, 191, 189]
      else if r < 65536 then [224 + r div 4096, 128 + r div 64 mod 64, 128 + r mod 64]
      else [240 + r div 262144, 128 + r div 4096 mod 64, 128 + r div 64 mod 64, 128 + r mod 64])"

text \<open>\<^verbatim>\<open>[]rune(s)\<close> and \<^verbatim>\<open>string(rs)\<close>.\<close>

definition runesOf :: "string \<Rightarrow> rune list" where
  "runesOf s = decodeRunes (map of_char s)"

definition stringOf :: "rune list \<Rightarrow> string" where
  "stringOf rs = map char_of (concat (map encodeRune rs))"

text \<open>The package \<^verbatim>\<open>unicode\<close>: its tables for the runes from 128 on.\<close>

record unicode =
  uSpace :: "rune \<Rightarrow> bool"
  uDigit :: "rune \<Rightarrow> bool"
  uLetter :: "rune \<Rightarrow> bool"
  uUpper :: "rune \<Rightarrow> rune"

definition IsSpace :: "unicode \<Rightarrow> rune \<Rightarrow> bool" where
  "IsSpace u r = (if r < 128 then 9 \<le> r \<and> r \<le> 13 \<or> r = 32 else uSpace u r)"

definition IsDigit :: "unicode \<Rightarrow> rune \<Rightarrow> bool" where
  "IsDigit u r = (if r < 128 then 48 \<le> r \<and> r \<le> 57 else uDigit u r)"

definition IsLetter :: "unicode \<Rightarrow> rune \<Rightarrow> bool" where
  "IsLetter u r = (if r < 128 then 65 \<le> r \<and> r \<le> 90 \<or> 97 \<le> r \<and> r \<le> 122 else uLetter u r)"

definition ToUpper :: "unicode \<Rightarrow> rune \<Rightarrow> rune" where
  "ToUpper u r = (if r < 128 then if 97 \<le> r \<and> r \<le> 122 then r - 32 else r else uUpper u r)"

section \<open>Tokens\<close>

datatype tokenType =
  TokenError | TokenEOF
| TokenSelect | TokenFrom | TokenWhere | TokenCreate | TokenTable | TokenInsert | TokenInto | TokenValues | TokenAnalyze
| TokenExplain | TokenAnd | TokenOr | TokenIntType | TokenTextType | TokenBoolType | TokenTrue | TokenFalse | TokenDelete
| TokenUpdate | TokenSet | TokenJoin | TokenOn | TokenIndex
| TokenBegin | TokenCommit | TokenRollback | TokenTransaction | TokenStart | TokenEnd
| TokenIdentifier | TokenIntLiteral | TokenTextLiteral
| TokenOpenParen | TokenCloseParen | TokenComma | TokenStar | TokenEq | TokenNe | TokenLt | TokenLe | TokenGt | TokenGe
| TokenDot | TokenPlus | TokenMinus

fun TokenType_String :: "tokenType \<Rightarrow> string" where
  "TokenType_String TokenError = ''ERROR''"
| "TokenType_String TokenEOF = ''EOF''"
| "TokenType_String TokenSelect = ''SELECT''"
| "TokenType_String TokenFrom = ''FROM''"
| "TokenType_String TokenWhere = ''WHERE''"
| "TokenType_String TokenCreate = ''CREATE''"
| "TokenType_String TokenTable = ''TABLE''"
| "TokenType_String TokenInsert = ''INSERT''"
| "TokenType_String TokenInto = ''INTO''"
| "TokenType_String TokenValues = ''VALUES''"
| "TokenType_String TokenDelete = ''DELETE''"
| "TokenType_String TokenUpdate = ''UPDATE''"
| "TokenType_String TokenSet = ''SET''"
| "TokenType_String TokenJoin = ''JOIN''"
| "TokenType_String TokenOn = ''ON''"
| "TokenType_String TokenIndex = ''INDEX''"
| "TokenType_String TokenAnd = ''AND''"
| "TokenType_String TokenOr = ''OR''"
| "TokenType_String TokenIntType = ''INT''"
| "TokenType_String TokenTextType = ''TEXT''"
| "TokenType_String TokenBoolType = ''BOOL''"
| "TokenType_String TokenTrue = ''true''"
| "TokenType_String TokenFalse = ''false''"
| "TokenType_String TokenBegin = ''BEGIN''"
| "TokenType_String TokenCommit = ''COMMIT''"
| "TokenType_String TokenRollback = ''ROLLBACK''"
| "TokenType_String TokenTransaction = ''TRANSACTION''"
| "TokenType_String TokenStart = ''START''"
| "TokenType_String TokenEnd = ''END''"
| "TokenType_String TokenIdentifier = ''IDENTIFIER''"
| "TokenType_String TokenIntLiteral = ''INT_LITERAL''"
| "TokenType_String TokenTextLiteral = ''TEXT_LITERAL''"
| "TokenType_String TokenOpenParen = ''(''"
| "TokenType_String TokenCloseParen = '')''"
| "TokenType_String TokenComma = '',''"
| "TokenType_String TokenStar = ''*''"
| "TokenType_String TokenEq = ''=''"
| "TokenType_String TokenNe = ''!=''"
| "TokenType_String TokenLt = ''<''"
| "TokenType_String TokenLe = ''<=''"
| "TokenType_String TokenGt = ''>''"
| "TokenType_String TokenGe = ''>=''"
| "TokenType_String TokenDot = ''.''"
| "TokenType_String TokenPlus = ''+''"
| "TokenType_String TokenMinus = ''-''"
| "TokenType_String _ = ''UNKNOWN''"

record token =
  tokType :: tokenType
  tokValue :: string

abbreviation Token :: "tokenType \<Rightarrow> string \<Rightarrow> token" where
  "Token t v \<equiv> \<lparr>tokType = t, tokValue = v\<rparr>"

section \<open>The lexer\<close>

record lexer =
  input :: "rune list"
  pos :: nat

definition NewLexer :: "string \<Rightarrow> lexer" where
  "NewLexer s = \<lparr>input = runesOf s, pos = 0\<rparr>"

text \<open>The loops \<^verbatim>\<open>for l.pos < len(l.input) && ...(l.input[l.pos])\<close>: the position where they stop.\<close>

function scanWhile :: "(rune \<Rightarrow> bool) \<Rightarrow> rune list \<Rightarrow> nat \<Rightarrow> nat" where
  "scanWhile P xs i = (if i < length xs \<and> P (xs ! i) then scanWhile P xs (Suc i) else i)"
  by pat_completeness auto
termination by (relation "measure (\<lambda>(P, xs, i). length xs - i)") auto

declare scanWhile.simps [simp del]

definition slice_runes :: "lexer \<Rightarrow> nat \<Rightarrow> rune list" where
  "slice_runes l start = take (pos l - start) (drop start (input l))"

definition skipWhitespace :: "unicode \<Rightarrow> lexer \<Rightarrow> lexer" where
  "skipWhitespace u l = l\<lparr>pos := scanWhile (IsSpace u) (input l) (pos l)\<rparr>"

definition readTextLiteral :: "lexer \<Rightarrow> lexer \<times> token" where
  "readTextLiteral l =
     (let start = Suc (pos l);
          l = l\<lparr>pos := scanWhile (\<lambda>r. r \<noteq> rn CHR 0x27) (input l) start\<rparr>
      in if pos l \<ge> length (input l) then (l, Token TokenError ''unclosed string literal'')
         else (l\<lparr>pos := Suc (pos l)\<rparr>, Token TokenTextLiteral (stringOf (slice_runes l start))))"

definition readIntLiteral :: "unicode \<Rightarrow> lexer \<Rightarrow> lexer \<times> token" where
  "readIntLiteral u l =
     (let start = pos l; l = l\<lparr>pos := scanWhile (IsDigit u) (input l) start\<rparr>
      in (l, Token TokenIntLiteral (stringOf (slice_runes l start))))"

definition isIdentifierStart :: "unicode \<Rightarrow> rune \<Rightarrow> bool" where
  "isIdentifierStart u r = (IsLetter u r \<or> r = rn CHR ''_'')"

definition keywordTable :: "(string \<times> tokenType) list" where
  "keywordTable = [(''SELECT'', TokenSelect), (''FROM'', TokenFrom), (''WHERE'', TokenWhere), (''CREATE'', TokenCreate),
     (''TABLE'', TokenTable), (''INSERT'', TokenInsert), (''INTO'', TokenInto), (''VALUES'', TokenValues),
     (''DELETE'', TokenDelete), (''UPDATE'', TokenUpdate), (''SET'', TokenSet), (''JOIN'', TokenJoin),
     (''EXPLAIN'', TokenExplain), (''ANALYZE'', TokenAnalyze), (''ON'', TokenOn), (''INDEX'', TokenIndex),
     (''AND'', TokenAnd), (''OR'', TokenOr), (''INT'', TokenIntType), (''TEXT'', TokenTextType), (''BOOL'', TokenBoolType),
     (''TRUE'', TokenTrue), (''FALSE'', TokenFalse), (''BEGIN'', TokenBegin), (''COMMIT'', TokenCommit),
     (''ROLLBACK'', TokenRollback), (''TRANSACTION'', TokenTransaction), (''START'', TokenStart), (''END'', TokenEnd)]"

definition readIdentifierOrKeyword :: "unicode \<Rightarrow> lexer \<Rightarrow> lexer \<times> token" where
  "readIdentifierOrKeyword u l =
     (let start = pos l;
          l = l\<lparr>pos := scanWhile (\<lambda>r. isIdentifierStart u r \<or> IsDigit u r) (input l) start\<rparr>;
          word = slice_runes l start; val = stringOf word
      in (l, case map_of keywordTable (stringOf (map (ToUpper u) word)) of
               Some t \<Rightarrow> Token t val
             | None \<Rightarrow> Token TokenIdentifier val))"

definition advance :: "nat \<Rightarrow> lexer \<Rightarrow> lexer" where
  "advance n l = l\<lparr>pos := pos l + n\<rparr>"

text \<open>The switch of \<^verbatim>\<open>NextToken\<close> at a rune that is no space.\<close>

definition scanToken :: "unicode \<Rightarrow> lexer \<Rightarrow> lexer \<times> token" where
  "scanToken u l =
     (let i = pos l; ch = input l ! i; more = Suc i < length (input l); nxt = (if more then input l ! Suc i else 0) in
        if ch = rn CHR ''('' then (advance 1 l, Token TokenOpenParen ''('')
        else if ch = rn CHR '')'' then (advance 1 l, Token TokenCloseParen '')'')
        else if ch = rn CHR '','' then (advance 1 l, Token TokenComma '','')
        else if ch = rn CHR ''*'' then (advance 1 l, Token TokenStar ''*'')
        else if ch = rn CHR ''.'' then (advance 1 l, Token TokenDot ''.'')
        else if ch = rn CHR ''+'' then (advance 1 l, Token TokenPlus ''+'')
        else if ch = rn CHR ''-'' then (advance 1 l, Token TokenMinus ''-'')
        else if ch = rn CHR ''='' then (advance 1 l, Token TokenEq ''='')
        else if ch = rn CHR ''<'' then
          if more \<and> nxt = rn CHR ''='' then (advance 2 l, Token TokenLe ''<='')
          else if more \<and> nxt = rn CHR ''>'' then (advance 2 l, Token TokenNe ''<>'')
          else (advance 1 l, Token TokenLt ''<'')
        else if ch = rn CHR ''>'' then
          if more \<and> nxt = rn CHR ''='' then (advance 2 l, Token TokenGe ''>='')
          else (advance 1 l, Token TokenGt ''>'')
        else if ch = rn CHR ''!'' then
          if more \<and> nxt = rn CHR ''='' then (advance 2 l, Token TokenNe ''!='')
          else (advance 1 l, Token TokenError (''unexpected character '' @ [CHR 0x27] @ ''!'' @ [CHR 0x27]))
        else if ch = rn CHR 0x27 then readTextLiteral l
        else if IsDigit u ch then readIntLiteral u l
        else if isIdentifierStart u ch then readIdentifierOrKeyword u l
        else (advance 1 l, Token TokenError (''unexpected character '' @ quote (stringOf [ch]))))"

definition NextToken :: "unicode \<Rightarrow> lexer \<Rightarrow> lexer \<times> token" where
  "NextToken u l0 =
     (let l = skipWhitespace u l0 in
      if pos l \<ge> length (input l) then (l, Token TokenEOF []) else scanToken u l)"

section \<open>Progress\<close>

lemma scanWhile_takeWhile: "scanWhile P xs i = i + length (takeWhile P (drop i xs))"
proof (induction P xs i rule: scanWhile.induct)
  case (1 P xs i)
  show ?case
  proof (cases "i < length xs")
    case True
    then have "drop i xs = xs ! i # drop (Suc i) xs" by (simp add: Cons_nth_drop_Suc)
    with 1 True show ?thesis by (subst scanWhile.simps) simp
  next
    case False
    then show ?thesis by (subst scanWhile.simps) simp
  qed
qed

lemma scanWhile_bounds: "i \<le> scanWhile P xs i" "i \<le> length xs \<Longrightarrow> scanWhile P xs i \<le> length xs"
  using length_takeWhile_le [of P "drop i xs"] by (simp_all add: scanWhile_takeWhile)

lemma scanWhile_more: "i < length xs \<Longrightarrow> P (xs ! i) \<Longrightarrow> i < scanWhile P xs i"
  by (simp add: scanWhile_takeWhile Cons_nth_drop_Suc [symmetric])

lemma skipWhitespace_bounds:
  "input (skipWhitespace u l) = input l" "pos l \<le> pos (skipWhitespace u l)"
  "pos l \<le> length (input l) \<Longrightarrow> pos (skipWhitespace u l) \<le> length (input l)"
  by (simp_all add: skipWhitespace_def scanWhile_bounds)

lemma read_bounds:
  assumes "pos l < length (input l)"
  shows "input (fst (readTextLiteral l)) = input l" "pos l < pos (fst (readTextLiteral l))"
    "pos (fst (readTextLiteral l)) \<le> length (input l)"
    and "input (fst (readIntLiteral u l)) = input l"
    "IsDigit u (input l ! pos l) \<Longrightarrow> pos l < pos (fst (readIntLiteral u l))"
    "pos (fst (readIntLiteral u l)) \<le> length (input l)"
    and "input (fst (readIdentifierOrKeyword u l)) = input l"
    "isIdentifierStart u (input l ! pos l) \<Longrightarrow> pos l < pos (fst (readIdentifierOrKeyword u l))"
    "pos (fst (readIdentifierOrKeyword u l)) \<le> length (input l)"
  using assms Suc_leD [OF scanWhile_bounds(1) [of "Suc (pos l)" "\<lambda>r. r \<noteq> 39" "input l"]] scanWhile_bounds(2) [of "Suc (pos l)" "input l" "\<lambda>r. r \<noteq> 39"]
  by (auto simp: readTextLiteral_def readIntLiteral_def readIdentifierOrKeyword_def Let_def scanWhile_bounds less_Suc_eq_le Suc_le_eq
      intro: scanWhile_more)

text \<open>The lexer never leaves its input, and every token but the last takes at least one rune.\<close>

definition progress :: "lexer \<Rightarrow> lexer \<times> token \<Rightarrow> bool" where
  "progress l r \<longleftrightarrow> input (fst r) = input l \<and> pos (fst r) \<le> length (input l) \<and> pos l < pos (fst r) \<and> tokType (snd r) \<noteq> TokenEOF"

lemma progress_if: "(c \<Longrightarrow> progress l a) \<Longrightarrow> (\<not> c \<Longrightarrow> progress l b) \<Longrightarrow> progress l (if c then a else b)"
  by simp

lemma keyword_no_EOF: "map_of keywordTable w \<noteq> Some TokenEOF"
  by (auto simp: keywordTable_def split: if_splits)

lemma progress_intros:
  assumes "pos l < length (input l)"
  shows "t \<noteq> TokenEOF \<Longrightarrow> progress l (advance (Suc 0) l, Token t v)"
    and "t \<noteq> TokenEOF \<Longrightarrow> Suc (pos l) < length (input l) \<Longrightarrow> progress l (advance 2 l, Token t v)"
    and "progress l (readTextLiteral l)"
    and "IsDigit u (input l ! pos l) \<Longrightarrow> progress l (readIntLiteral u l)"
    and "isIdentifierStart u (input l ! pos l) \<Longrightarrow> progress l (readIdentifierOrKeyword u l)"
  using assms read_bounds [OF assms] keyword_no_EOF
  by (auto simp: progress_def advance_def readTextLiteral_def readIntLiteral_def readIdentifierOrKeyword_def Let_def split: option.splits)

lemma scanToken_progress: "pos l < length (input l) \<Longrightarrow> progress l (scanToken u l)"
  unfolding scanToken_def Let_def One_nat_def by (intro progress_if progress_intros) auto

lemma NextToken_progress:
  "input (fst (NextToken u l)) = input l \<and> pos l \<le> pos (fst (NextToken u l)) \<and>
   (snd (NextToken u l) = Token TokenEOF [] \<or>
    tokType (snd (NextToken u l)) \<noteq> TokenEOF \<and> pos l < pos (fst (NextToken u l)) \<and> pos (fst (NextToken u l)) \<le> length (input l))"
  using skipWhitespace_bounds [where u = u and l = l] scanToken_progress [of "skipWhitespace u l" u]
  by (auto simp: NextToken_def Let_def progress_def)

lemma NextToken_advances:
  assumes "NextToken u l = (l', tok)" and "tokType tok \<noteq> TokenEOF"
  shows "input l' = input l" and "pos l < pos l'" and "pos l' \<le> length (input l)"
  using NextToken_progress [of u l] assms by auto

lemma NextToken_less:
  assumes "(l', tok) = NextToken u l" and "tokType tok \<noteq> TokenEOF"
  shows "length (input l') - pos l' < length (input l) - pos l"
  using NextToken_advances [OF assms(1) [symmetric] assms(2)] by simp

section \<open>All tokens\<close>

function LexAll_loop :: "unicode \<Rightarrow> lexer \<Rightarrow> token list" where
  "LexAll_loop u l =
     (case NextToken u l of
        (l', tok) \<Rightarrow> tok # (if tokType tok = TokenEOF \<or> tokType tok = TokenError then [] else LexAll_loop u l'))"
  by pat_completeness auto
termination
  by (relation "measure (\<lambda>(u, l). length (input l) - pos l)") (auto intro: NextToken_less)

declare LexAll_loop.simps [simp del]

definition LexAll :: "unicode \<Rightarrow> string \<Rightarrow> token list" where
  "LexAll u sql = LexAll_loop u (NewLexer sql)"

lemma LexAll_loop_ends:
  "\<exists>ts tok. LexAll_loop u l = ts @ [tok] \<and> tokType tok \<in> {TokenEOF, TokenError} \<and>
     list_all (\<lambda>t. tokType t \<notin> {TokenEOF, TokenError}) ts \<and> length ts \<le> length (input l) - pos l"
proof (induction u l rule: LexAll_loop.induct)
  case (1 u l)
  obtain l' tok where N: "NextToken u l = (l', tok)" by force
  show ?case
  proof (cases "tokType tok = TokenEOF \<or> tokType tok = TokenError")
    case True
    with N show ?thesis by (intro exI [of _ "[]"] exI [of _ tok]) (auto simp: LexAll_loop.simps [of u l])
  next
    case False
    with 1 N obtain ts t where I: "LexAll_loop u l' = ts @ [t]" "tokType t \<in> {TokenEOF, TokenError}"
      "list_all (\<lambda>t. tokType t \<notin> {TokenEOF, TokenError}) ts" "length ts \<le> length (input l') - pos l'" by metis
    with N False NextToken_less [OF N [symmetric]] show ?thesis
      by (intro exI [of _ "tok # ts"] exI [of _ t]) (auto simp: LexAll_loop.simps [of u l])
  qed
qed

lemma length_decodeRunes: "length (decodeRunes bs) \<le> length bs"
proof (induction bs rule: decodeRunes.induct)
  case (2 b bs)
  obtain r n where "decodeRune (b # bs) = (r, n)" by force
  with 2 show ?case by (fastforce intro: le_trans [OF _ diff_le_self])
qed simp

text \<open>C30: The lexer ends.  Lexing a text takes no more tokens than the text has bytes, and one; the last token is
  the end of the input or an error, and no other token is.\<close>

theorem LexAll_ends:
  "\<exists>ts tok. LexAll u sql = ts @ [tok] \<and> tokType tok \<in> {TokenEOF, TokenError} \<and>
     list_all (\<lambda>t. tokType t \<notin> {TokenEOF, TokenError}) ts \<and> length ts \<le> length sql"
  using LexAll_loop_ends [of u "NewLexer sql"] length_decodeRunes [of "map of_char sql"]
  by (fastforce simp: LexAll_def NewLexer_def runesOf_def)

end
