(* ===== verification/Parser.thy ===== *)
theory Parser
  imports Lexer
begin

text \<open>
  The recursive-descent parser (\<^verbatim>\<open>src/parser/parser.go\<close>).  A parsing method takes the state of the
  parser and returns the new state with a result or an error.  Every loop ends because the number of
  tokens left in front of the parser goes down.
\<close>

section \<open>The state\<close>

record parser =
  lexer :: lexer
  currTok :: token
  peekTok :: token
  prevTok :: token

definition nextToken :: "unicode \<Rightarrow> parser \<Rightarrow> parser" where
  "nextToken u p =
     (case NextToken u (lexer p) of
        (l, tok) \<Rightarrow> \<lparr>lexer = l, currTok = peekTok p, peekTok = tok, prevTok = currTok p\<rparr>)"

definition NewParser :: "unicode \<Rightarrow> string \<Rightarrow> parser" where
  "NewParser u sql =
     (let p = \<lparr>lexer = NewLexer sql, currTok = Token TokenError [], peekTok = Token TokenError [], prevTok = Token TokenError []\<rparr>
      in nextToken u (nextToken u p))"

abbreviation curr :: "parser \<Rightarrow> tokenType" where
  "curr p \<equiv> tokType (currTok p)"

definition match :: "unicode \<Rightarrow> tokenType \<Rightarrow> parser \<Rightarrow> parser \<times> bool" where
  "match u typ p = (if curr p = typ then (nextToken u p, True) else (p, False))"

definition previous :: "parser \<Rightarrow> token" where
  "previous p = prevTok p"

text \<open>The error \<^verbatim>\<open>fmt.Errorf(msg, p.currTok.Value)\<close>, and the check of the current token's type followed by
  \<^verbatim>\<open>p.nextToken()\<close>, which returns the value of the token.\<close>

definition unexpected :: "string \<Rightarrow> parser \<Rightarrow> 'a res" where
  "unexpected msg p = Inl (Errorf msg [ArgStr (tokValue (currTok p))])"

definition expect :: "unicode \<Rightarrow> tokenType \<Rightarrow> string \<Rightarrow> parser \<Rightarrow> parser \<times> string res" where
  "expect u typ msg p = (if curr p \<noteq> typ then (p, unexpected msg p) else (nextToken u p, Inr (tokValue (currTok p))))"

text \<open>The check that nothing follows the statement.\<close>

definition atEnd :: "string \<Rightarrow> 'a \<Rightarrow> parser \<Rightarrow> parser \<times> 'a res" where
  "atEnd msg x p = (if curr p \<noteq> TokenEOF then (p, unexpected msg p) else (p, Inr x))"

section \<open>Tokens left\<close>

definition toksLeft :: "parser \<Rightarrow> nat" where
  "toksLeft p = length (input (lexer p)) - pos (lexer p) + (if tokType (peekTok p) = TokenEOF then 0 else 1) +
     (if curr p = TokenEOF then 0 else 1)"

named_theorems shrinks \<open>a parsing method does not add tokens\<close>

lemma nextToken_le [shrinks]: "toksLeft (nextToken u p) \<le> toksLeft p"
  and nextToken_less: "curr p \<noteq> TokenEOF \<Longrightarrow> toksLeft (nextToken u p) < toksLeft p"
  using NextToken_progress [of u "lexer p"] by (auto simp: nextToken_def toksLeft_def split: prod.splits)

lemma expect_le [shrinks]: "toksLeft (fst (expect u typ msg p)) \<le> toksLeft p"
  by (simp add: expect_def nextToken_le)

lemma expect_less: "expect u typ msg p = (p', Inr v) \<Longrightarrow> typ \<noteq> TokenEOF \<Longrightarrow> toksLeft p' < toksLeft p"
  by (auto simp: expect_def unexpected_def nextToken_less split: if_splits)

lemma match_le [shrinks]: "toksLeft (fst (match u typ p)) \<le> toksLeft p"
  by (simp add: match_def nextToken_le)

section \<open>Expressions\<close>

text \<open>\<^verbatim>\<open>strconv.ParseInt(s, 10, 64)\<close>: the value, or the text of the error.\<close>

definition digit_val :: "char \<Rightarrow> nat option" where
  "digit_val c = (let n = of_char c :: nat in if 48 \<le> n \<and> n \<le> 57 then Some (n - 48) else None)"

text \<open>The loop stops at the first byte that is no digit or makes the number too large for 64 bits.\<close>

fun digits_val :: "nat \<Rightarrow> string \<Rightarrow> string + nat" where
  "digits_val acc [] = Inr acc"
| "digits_val acc (c # cs) =
     (case digit_val c of
        None \<Rightarrow> Inl ''invalid syntax''
      | Some d \<Rightarrow> if 10 * acc + d \<ge> 2 ^ 64 then Inl ''value out of range'' else digits_val (10 * acc + d) cs)"

definition ParseInt :: "string \<Rightarrow> string + int" where
  "ParseInt s =
     (let neg = (s \<noteq> [] \<and> hd s = CHR ''-''); ds = (if s \<noteq> [] \<and> (hd s = CHR ''-'' \<or> hd s = CHR ''+'') then tl s else s);
          failure = (\<lambda>why. Inl (''strconv.ParseInt: parsing '' @ quote s @ '': '' @ why))
      in if ds = [] then failure ''invalid syntax''
         else case digits_val 0 ds of
             Inl why \<Rightarrow> failure why
           | Inr n \<Rightarrow>
               if (if neg then n > 2 ^ 63 else n \<ge> 2 ^ 63) then failure ''value out of range''
               else Inr (if neg then - int n else int n))"

definition parsePrimaryExpr :: "unicode \<Rightarrow> parser \<Rightarrow> parser \<times> expr res" where
  "parsePrimaryExpr u p =
     (let val = tokValue (currTok p) in
      case curr p of
        TokenIdentifier \<Rightarrow>
          let p = nextToken u p in
          if curr p = TokenDot then
            andThen (expect u TokenIdentifier ''expected column identifier after '.', got %q'' (nextToken u p))
              (\<lambda>colName p. (p, Inr (ColumnRef val colName)))
          else (p, Inr (ColumnRef [] val))
      | TokenIntLiteral \<Rightarrow>
          (case ParseInt val of
             Inl err \<Rightarrow> (p, Inl (Errorf ''invalid integer literal %q: %v'' [ArgStr val, ArgStr err]))
           | Inr n \<Rightarrow> (nextToken u p, Inr (Literal (NewInt (word_of_int n)))))
      | TokenTextLiteral \<Rightarrow> (nextToken u p, Inr (Literal (NewText val)))
      | TokenTrue \<Rightarrow> (nextToken u p, Inr (Literal (NewBool True)))
      | TokenFalse \<Rightarrow> (nextToken u p, Inr (Literal (NewBool False)))
      | _ \<Rightarrow> (p, unexpected ''expected expression primary element, got %q'' p))"

lemma parsePrimaryExpr_le [shrinks]: "toksLeft (fst (parsePrimaryExpr u p)) \<le> toksLeft p"
proof -
  have "toksLeft (nextToken u (nextToken u p)) \<le> toksLeft p" "toksLeft (nextToken u (nextToken u (nextToken u p))) \<le> toksLeft p"
    by (meson le_trans nextToken_le)+
  then show ?thesis
    by (auto simp: parsePrimaryExpr_def expect_def unexpected_def Let_def nextToken_le split: tokenType.splits sum.splits)
qed

lemma sub_less:
  assumes "(p', r) = f (nextToken u p)" and "curr p \<noteq> TokenEOF" and "\<And>p. toksLeft (fst (f p)) \<le> toksLeft p"
  shows "toksLeft p' < toksLeft p"
  using nextToken_less [OF assms(2), of u] assms(3) [of "nextToken u p"] assms(1) by (metis fst_conv le_less_trans)

function parseAdditive_loop :: "unicode \<Rightarrow> expr \<Rightarrow> parser \<Rightarrow> parser \<times> expr res" where
  "parseAdditive_loop u left p =
     (if curr p = TokenPlus \<or> curr p = TokenMinus then
        let bop = (if curr p = TokenPlus then OpAdd else OpSub) in
        case parsePrimaryExpr u (nextToken u p) of
          (p', Inl err) \<Rightarrow> (p', Inl err)
        | (p', Inr right) \<Rightarrow> parseAdditive_loop u (BinaryExpr bop left right) p'
      else (p, Inr left))"
  by pat_completeness auto
termination
  by (relation "measure (\<lambda>(u, left, p). toksLeft p)") (auto intro: sub_less [where f = "parsePrimaryExpr u" for u] parsePrimaryExpr_le)

definition parseAdditive :: "unicode \<Rightarrow> parser \<Rightarrow> parser \<times> expr res" where
  "parseAdditive u p = andThen (parsePrimaryExpr u p) (parseAdditive_loop u)"

lemma andThen_le:
  assumes "\<And>x p. toksLeft (fst (f x p)) \<le> toksLeft p"
  shows "toksLeft (fst (andThen (p, r) f)) \<le> toksLeft p"
  using assms by (cases r) simp_all

lemma andThen_shrinks:
  assumes "toksLeft (fst r) \<le> n" and "\<And>x p. toksLeft (fst (f x p)) \<le> toksLeft p"
  shows "toksLeft (fst (andThen r f)) \<le> n"
  using assms andThen_le [of f "fst r" "snd r"] by (cases r) (auto intro: le_trans)

lemma parseAdditive_loop_le: "toksLeft (fst (parseAdditive_loop u left p)) \<le> toksLeft p"
proof (induction u left p rule: parseAdditive_loop.induct)
  case (1 u left p)
  obtain p' r where sub: "parsePrimaryExpr u (nextToken u p) = (p', r)" by force
  have "toksLeft p' \<le> toksLeft p"
    using parsePrimaryExpr_le [of u "nextToken u p"] nextToken_le [of u p] sub by simp
  with 1 sub show ?case by (subst parseAdditive_loop.simps) (fastforce split: sum.splits intro: le_trans)
qed

lemma parseAdditive_le [shrinks]: "toksLeft (fst (parseAdditive u p)) \<le> toksLeft p"
  unfolding parseAdditive_def by (rule andThen_shrinks [OF parsePrimaryExpr_le parseAdditive_loop_le])

fun comparisonOp :: "tokenType \<Rightarrow> binOp option" where
  "comparisonOp TokenEq = Some OpEq"
| "comparisonOp TokenNe = Some OpNe"
| "comparisonOp TokenLt = Some OpLt"
| "comparisonOp TokenLe = Some OpLe"
| "comparisonOp TokenGt = Some OpGt"
| "comparisonOp TokenGe = Some OpGe"
| "comparisonOp _ = None"

definition parseComparison :: "unicode \<Rightarrow> parser \<Rightarrow> parser \<times> expr res" where
  "parseComparison u p =
     andThen (parseAdditive u p) (\<lambda>left p.
       case comparisonOp (curr p) of
         None \<Rightarrow> (p, Inr left)
       | Some bop \<Rightarrow> andThen (parseAdditive u (nextToken u p)) (\<lambda>right p. (p, Inr (BinaryExpr bop left right))))"

lemma parseComparison_le [shrinks]: "toksLeft (fst (parseComparison u p)) \<le> toksLeft p"
  unfolding parseComparison_def
  by (rule andThen_shrinks [OF parseAdditive_le])
    (auto split: option.splits intro!: andThen_shrinks le_trans [OF parseAdditive_le nextToken_le])

function parseAnd_loop :: "unicode \<Rightarrow> expr \<Rightarrow> parser \<Rightarrow> parser \<times> expr res" where
  "parseAnd_loop u left p =
     (if curr p = TokenAnd then
        case parseComparison u (nextToken u p) of
          (p', Inl err) \<Rightarrow> (p', Inl err)
        | (p', Inr right) \<Rightarrow> parseAnd_loop u (BinaryExpr OpAnd left right) p'
      else (p, Inr left))"
  by pat_completeness auto
termination
  by (relation "measure (\<lambda>(u, left, p). toksLeft p)") (auto intro: sub_less [where f = "parseComparison u" for u] parseComparison_le)

definition parseAnd :: "unicode \<Rightarrow> parser \<Rightarrow> parser \<times> expr res" where
  "parseAnd u p = andThen (parseComparison u p) (parseAnd_loop u)"

lemma parseAnd_loop_le: "toksLeft (fst (parseAnd_loop u left p)) \<le> toksLeft p"
proof (induction u left p rule: parseAnd_loop.induct)
  case (1 u left p)
  obtain p' r where sub: "parseComparison u (nextToken u p) = (p', r)" by force
  have "toksLeft p' \<le> toksLeft p"
    using parseComparison_le [of u "nextToken u p"] nextToken_le [of u p] sub by simp
  with 1 sub show ?case by (subst parseAnd_loop.simps) (fastforce split: sum.splits intro: le_trans)
qed

lemma parseAnd_le [shrinks]: "toksLeft (fst (parseAnd u p)) \<le> toksLeft p"
  unfolding parseAnd_def by (rule andThen_shrinks [OF parseComparison_le parseAnd_loop_le])

function parseOr_loop :: "unicode \<Rightarrow> expr \<Rightarrow> parser \<Rightarrow> parser \<times> expr res" where
  "parseOr_loop u left p =
     (if curr p = TokenOr then
        case parseAnd u (nextToken u p) of
          (p', Inl err) \<Rightarrow> (p', Inl err)
        | (p', Inr right) \<Rightarrow> parseOr_loop u (BinaryExpr OpOr left right) p'
      else (p, Inr left))"
  by pat_completeness auto
termination
  by (relation "measure (\<lambda>(u, left, p). toksLeft p)") (auto intro: sub_less [where f = "parseAnd u" for u] parseAnd_le)

declare parseAdditive_loop.simps [simp del] parseAnd_loop.simps [simp del] parseOr_loop.simps [simp del]

definition parseOr :: "unicode \<Rightarrow> parser \<Rightarrow> parser \<times> expr res" where
  "parseOr u p = andThen (parseAnd u p) (parseOr_loop u)"

definition parseExpression :: "unicode \<Rightarrow> parser \<Rightarrow> parser \<times> expr res" where
  "parseExpression u p = parseOr u p"

lemma parseOr_loop_le: "toksLeft (fst (parseOr_loop u left p)) \<le> toksLeft p"
proof (induction u left p rule: parseOr_loop.induct)
  case (1 u left p)
  obtain p' r where sub: "parseAnd u (nextToken u p) = (p', r)" by force
  have "toksLeft p' \<le> toksLeft p"
    using parseAnd_le [of u "nextToken u p"] nextToken_le [of u p] sub by simp
  with 1 sub show ?case by (subst parseOr_loop.simps) (fastforce split: sum.splits intro: le_trans)
qed

lemma parseExpression_le [shrinks]: "toksLeft (fst (parseExpression u p)) \<le> toksLeft p"
  unfolding parseExpression_def parseOr_def by (rule andThen_shrinks [OF parseAnd_le parseOr_loop_le])

section \<open>Statements\<close>

fun columnTypeOf :: "tokenType \<Rightarrow> columnType option" where
  "columnTypeOf TokenIntType = Some TypeInt"
| "columnTypeOf TokenTextType = Some TypeText"
| "columnTypeOf TokenBoolType = Some TypeBool"
| "columnTypeOf _ = None"

text \<open>The loop over column definitions.\<close>

function parseColumns :: "unicode \<Rightarrow> column list \<Rightarrow> parser \<Rightarrow> parser \<times> column list res" where
  "parseColumns u columns p =
     (if curr p \<noteq> TokenIdentifier then (p, unexpected ''expected column name, got %q'' p)
      else let name = tokValue (currTok p); p1 = nextToken u p in
        case columnTypeOf (curr p1) of
          None \<Rightarrow> (p1, Inl (Errorf ''unknown column type %q for column %q'' [ArgStr (tokValue (currTok p1)), ArgStr name]))
        | Some t \<Rightarrow>
            let p2 = nextToken u p1; columns = columns @ [\<lparr>colName = name, colType = t\<rparr>] in
            if curr p2 = TokenComma then parseColumns u columns (nextToken u p2) else (p2, Inr columns))"
  by pat_completeness auto
termination
proof (relation "measure (\<lambda>(u, columns, p). toksLeft p)")
  fix u columns p name p1 t p2 columns'
  assume "\<not> curr p \<noteq> TokenIdentifier" "p1 = nextToken u p" "p2 = nextToken u p1"
  then have "toksLeft p1 < toksLeft p" "toksLeft p2 \<le> toksLeft p1" "toksLeft (nextToken u p2) \<le> toksLeft p2"
    using nextToken_less [of p u] by (simp_all add: nextToken_le)
  then show "((u, columns', nextToken u p2), u, columns, p) \<in> measure (\<lambda>(u, columns, p). toksLeft p)" by simp
qed simp

definition parseCreateTable :: "unicode \<Rightarrow> parser \<Rightarrow> parser \<times> stmt res" where
  "parseCreateTable u p =
     andThen (expect u TokenTable ''expected TABLE, got %q'' (nextToken u p)) (\<lambda>_ p.
     andThen (expect u TokenIdentifier ''expected table name, got %q'' p) (\<lambda>tableName p.
     andThen (expect u TokenOpenParen ''expected '(' after table name, got %q'' p) (\<lambda>_ p.
     andThen (parseColumns u [] p) (\<lambda>columns p.
     andThen (expect u TokenCloseParen ''expected ')' at end of column definitions, got %q'' p) (\<lambda>_ p.
       atEnd ''unexpected tokens after statement end: %q'' (CreateTableStmt tableName columns) p)))))"

text \<open>The loop over the values of an INSERT.\<close>

fun isLiteral :: "expr \<Rightarrow> bool" where
  "isLiteral (Literal _) = True"
| "isLiteral _ = False"

lemma parsePrimaryExpr_less:
  assumes "parsePrimaryExpr u p = (p', Inr e)"
  shows "toksLeft p' < toksLeft p"
proof -
  have "curr p \<noteq> TokenEOF" using assms by (auto simp: parsePrimaryExpr_def unexpected_def Let_def)
  then have less: "toksLeft (nextToken u p) < toksLeft p" by (rule nextToken_less)
  then have "toksLeft (nextToken u (nextToken u (nextToken u p))) < toksLeft p"
    by (meson le_less_trans nextToken_le)
  with less assms show ?thesis
    by (auto simp: parsePrimaryExpr_def expect_def unexpected_def Let_def split: tokenType.splits sum.splits if_splits)
qed

lemma then_next_less: "toksLeft p' < toksLeft p \<Longrightarrow> toksLeft (nextToken u p') < toksLeft p"
  by (rule le_less_trans [OF nextToken_le])

function parseValues :: "unicode \<Rightarrow> expr list \<Rightarrow> parser \<Rightarrow> parser \<times> expr list res" where
  "parseValues u values p =
     (case parsePrimaryExpr u p of
        (p', Inl err) \<Rightarrow> (p', Inl err)
      | (p', Inr expr) \<Rightarrow>
          if \<not> isLiteral expr then (p', Inl (Errorf ''INSERT values must be constant literals, got identifier or expression'' []))
          else if curr p' = TokenComma then parseValues u (values @ [expr]) (nextToken u p')
          else (p', Inr (values @ [expr])))"
  by pat_completeness auto
termination
  by (relation "measure (\<lambda>(u, values, p). toksLeft p)") (auto intro: then_next_less parsePrimaryExpr_less [OF sym])

definition parseInsert :: "unicode \<Rightarrow> parser \<Rightarrow> parser \<times> stmt res" where
  "parseInsert u p =
     andThen (expect u TokenInto ''expected INTO, got %q'' (nextToken u p)) (\<lambda>_ p.
     andThen (expect u TokenIdentifier ''expected table name, got %q'' p) (\<lambda>tableName p.
     andThen (expect u TokenValues ''expected VALUES, got %q'' p) (\<lambda>_ p.
     andThen (expect u TokenOpenParen ''expected '(' before values list, got %q'' p) (\<lambda>_ p.
     andThen (parseValues u [] p) (\<lambda>values p.
     andThen (expect u TokenCloseParen ''expected ')' after values list, got %q'' p) (\<lambda>_ p.
       atEnd ''unexpected tokens after statement end: %q'' (InsertStmt tableName values) p))))))"

text \<open>An expression takes at least one token.\<close>

lemma andThen_Inr:
  "andThen r f = (p', Inr y) \<longleftrightarrow> (\<exists>p x. r = (p, Inr x) \<and> f x p = (p', Inr y))"
  by (cases r; cases "snd r") auto

lemma parseExpression_less:
  assumes "parseExpression u p = (p', Inr e)"
  shows "toksLeft p' < toksLeft p"
proof -
  from assms obtain p1 e1 p2 e2 p3 e3 where
    1: "parsePrimaryExpr u p = (p1, Inr e1)" and
    2: "parseAdditive_loop u e1 p1 = (p2, Inr e2)" and
    3: "(case comparisonOp (curr p2) of None \<Rightarrow> (p2, Inr e2)
       | Some bop \<Rightarrow> andThen (parseAdditive u (nextToken u p2)) (\<lambda>right p. (p, Inr (BinaryExpr bop e2 right)))) = (p3, Inr e3)" and
    4: "\<exists>p4 e4. parseAnd_loop u e3 p3 = (p4, Inr e4) \<and> parseOr_loop u e4 p4 = (p', Inr e)"
    by (auto simp: parseExpression_def parseOr_def parseAnd_def parseComparison_def parseAdditive_def andThen_Inr)
  have "toksLeft p2 \<le> toksLeft p1" using parseAdditive_loop_le [of u e1 p1] 2 by simp
  moreover have "toksLeft p3 \<le> toksLeft p2"
    using 3 parseAdditive_le [of u "nextToken u p2"] nextToken_le [of u p2] by (auto simp: andThen_Inr split: option.splits)
  moreover have "toksLeft p' \<le> toksLeft p3"
    using 4 by (metis fst_conv le_trans parseAnd_loop_le parseOr_loop_le)
  ultimately show ?thesis using parsePrimaryExpr_less [OF 1] by simp
qed

text \<open>The loop over the projection.\<close>

function parseProjection :: "unicode \<Rightarrow> expr list \<Rightarrow> parser \<Rightarrow> parser \<times> expr list res" where
  "parseProjection u exprs p =
     (case parseExpression u p of
        (p', Inl err) \<Rightarrow> (p', Inl (wrapf ''failed to parse select expression: %w'' [] err))
      | (p', Inr expr) \<Rightarrow>
          if curr p' = TokenComma then parseProjection u (exprs @ [expr]) (nextToken u p') else (p', Inr (exprs @ [expr])))"
  by pat_completeness auto
termination
  by (relation "measure (\<lambda>(u, exprs, p). toksLeft p)") (auto intro: then_next_less parseExpression_less [OF sym])

definition parseSelectExpressions :: "unicode \<Rightarrow> parser \<Rightarrow> parser \<times> expr list res" where
  "parseSelectExpressions u p =
     (if curr p = TokenStar then (nextToken u p, Inr [Star])
      else andThen (parseProjection u [] p) (\<lambda>exprs p.
        if exprs = [] then (p, Inl (Errorf (''expected at least one select expression or '*'' @ [CHR 0x27]) [])) else (p, Inr exprs)))"

text \<open>One JOIN clause, after the keyword, and the loop over them.\<close>

definition parseJoin :: "unicode \<Rightarrow> parser \<Rightarrow> parser \<times> joinClause res" where
  "parseJoin u p =
     andThen (expect u TokenIdentifier ''expected table name after JOIN, got %q'' p) (\<lambda>table p.
       let (p, alias) = (if curr p = TokenIdentifier \<and> tokValue (currTok p) \<noteq> ''ON'' then (nextToken u p, tokValue (currTok p)) else (p, []));
           (p, isOn) = match u TokenOn p
       in if \<not> isOn then (p, unexpected ''expected ON keyword after JOIN table/alias, got %q'' p)
          else andThen (wrapped ''failed parsing JOIN condition: %w'' [] (parseExpression u p)) (\<lambda>onExpr p.
            (p, Inr \<lparr>joinTable = table, joinAlias = alias, joinOn = onExpr\<rparr>)))"

lemma parseJoin_less:
  assumes "parseJoin u p = (p', Inr j)"
  shows "toksLeft p' < toksLeft p"
proof -
  from assms obtain p1 t where 1: "expect u TokenIdentifier ''expected table name after JOIN, got %q'' p = (p1, Inr t)"
    by (auto simp: parseJoin_def andThen_Inr)
  obtain p2 a where 2: "(if curr p1 = TokenIdentifier \<and> tokValue (currTok p1) \<noteq> ''ON'' then (nextToken u p1, tokValue (currTok p1)) else (p1, [])) = (p2, a)"
    by force
  obtain p3 b where 3: "match u TokenOn p2 = (p3, b)" by force
  have "toksLeft p1 < toksLeft p" using expect_less [OF 1] by simp
  moreover have "toksLeft p2 \<le> toksLeft p1" using 2 nextToken_le [of u p1] by (auto split: if_splits)
  moreover have "toksLeft p3 \<le> toksLeft p2" using match_le [of u TokenOn p2] 3 by simp
  moreover from assms 1 2 3 obtain e where "wrapped ''failed parsing JOIN condition: %w'' [] (parseExpression u p3) = (p', Inr e)"
    by (auto simp: parseJoin_def andThen_Inr unexpected_def split: if_splits)
  then have "toksLeft p' < toksLeft p3"
    by (cases "parseExpression u p3"; cases "snd (parseExpression u p3)") (auto intro: parseExpression_less)
  ultimately show ?thesis by simp
qed

function parseJoins :: "unicode \<Rightarrow> joinClause list \<Rightarrow> parser \<Rightarrow> parser \<times> joinClause list res" where
  "parseJoins u joins p =
     (if curr p = TokenJoin then
        case parseJoin u (nextToken u p) of
          (p', Inl err) \<Rightarrow> (p', Inl err)
        | (p', Inr j) \<Rightarrow> parseJoins u (joins @ [j]) p'
      else (p, Inr joins))"
  by pat_completeness auto
termination
  by (relation "measure (\<lambda>(u, joins, p). toksLeft p)") (auto intro: less_le_trans [OF parseJoin_less [OF sym] nextToken_le])

declare parseColumns.simps [simp del] parseValues.simps [simp del] parseProjection.simps [simp del] parseJoins.simps [simp del]

text \<open>The optional WHERE clause of \<^verbatim>\<open>parseSelect\<close>, \<^verbatim>\<open>parseDelete\<close> and \<^verbatim>\<open>parseUpdate\<close>.\<close>

definition parseWhere :: "unicode \<Rightarrow> parser \<Rightarrow> parser \<times> expr option res" where
  "parseWhere u p =
     (if curr p = TokenWhere then andThen (parseExpression u (nextToken u p)) (\<lambda>expr p. (p, Inr (Some expr)))
      else (p, Inr None))"

definition parseSelect :: "unicode \<Rightarrow> parser \<Rightarrow> parser \<times> stmt res" where
  "parseSelect u p =
     andThen (parseSelectExpressions u (nextToken u p)) (\<lambda>projection p.
     andThen (expect u TokenFrom ''expected FROM keyword, got %q'' p) (\<lambda>_ p.
     andThen (expect u TokenIdentifier ''expected table name after FROM, got %q'' p) (\<lambda>fromTable p.
       let (p, fromAlias) = (if curr p = TokenIdentifier \<and> tokValue (currTok p) \<noteq> ''JOIN'' \<and> tokValue (currTok p) \<noteq> ''WHERE''
             then (nextToken u p, tokValue (currTok p)) else (p, []))
       in andThen (parseJoins u [] p) (\<lambda>joins p.
          andThen (parseWhere u p) (\<lambda>whereExpr p.
            atEnd ''unexpected token at end of SELECT statement: %q'' (SelectStmt projection fromTable fromAlias joins whereExpr) p)))))"

definition parseDelete :: "unicode \<Rightarrow> parser \<Rightarrow> parser \<times> stmt res" where
  "parseDelete u p =
     andThen (expect u TokenFrom ''expected FROM after DELETE, got %q'' (nextToken u p)) (\<lambda>_ p.
     andThen (expect u TokenIdentifier ''expected table name, got %q'' p) (\<lambda>tableName p.
     andThen (parseWhere u p) (\<lambda>whereExpr p.
       atEnd ''unexpected tokens after DELETE statement: %q'' (DeleteStmt tableName whereExpr) p)))"

lemma assignment_less:
  assumes "(p', Inr e) = parseExpression u (nextToken u (nextToken u p))"
  shows "toksLeft (nextToken u p') < toksLeft p"
  using parseExpression_less [OF assms [symmetric]] nextToken_le [of u p'] nextToken_le [of u "nextToken u p"] nextToken_le [of u p]
  by linarith

text \<open>The loop over the assignments of an UPDATE.\<close>

function parseAssignments :: "unicode \<Rightarrow> assignment list \<Rightarrow> parser \<Rightarrow> parser \<times> assignment list res" where
  "parseAssignments u asgs p =
     (if curr p \<noteq> TokenIdentifier then (p, unexpected ''expected column identifier in SET clause, got %q'' p)
      else let col = tokValue (currTok p); p1 = nextToken u p in
        if curr p1 \<noteq> TokenEq then (p1, Inl (Errorf ''expected '=' after column %s, got %q'' [ArgStr col, ArgStr (tokValue (currTok p1))]))
        else case parseExpression u (nextToken u p1) of
            (p', Inl err) \<Rightarrow> (p', Inl err)
          | (p', Inr expr) \<Rightarrow>
              if curr p' = TokenComma then parseAssignments u (asgs @ [\<lparr>asgColumn = col, asgValue = expr\<rparr>]) (nextToken u p')
              else (p', Inr (asgs @ [\<lparr>asgColumn = col, asgValue = expr\<rparr>])))"
  by pat_completeness auto
termination
  by (relation "measure (\<lambda>(u, asgs, p). toksLeft p)") (auto intro: assignment_less)

declare parseAssignments.simps [simp del]

definition parseUpdate :: "unicode \<Rightarrow> parser \<Rightarrow> parser \<times> stmt res" where
  "parseUpdate u p =
     andThen (expect u TokenIdentifier ''expected table name after UPDATE, got %q'' (nextToken u p)) (\<lambda>tableName p.
     andThen (expect u TokenSet ''expected SET keyword, got %q'' p) (\<lambda>_ p.
     andThen (parseAssignments u [] p) (\<lambda>assignments p.
     andThen (parseWhere u p) (\<lambda>whereExpr p.
       atEnd ''unexpected tokens after UPDATE statement: %q'' (UpdateStmt tableName assignments whereExpr) p))))"

definition parseCreateIndex :: "unicode \<Rightarrow> parser \<Rightarrow> parser \<times> stmt res" where
  "parseCreateIndex u p =
     (let p = nextToken u (nextToken u p) in
      andThen (if curr p \<noteq> TokenOn then expect u TokenIdentifier ''expected index name or ON keyword, got %q'' p else (p, Inr []))
        (\<lambda>indexName p.
      andThen (expect u TokenOn ''expected ON keyword, got %q'' p) (\<lambda>_ p.
      andThen (expect u TokenIdentifier ''expected table name, got %q'' p) (\<lambda>tableName p.
      andThen (expect u TokenOpenParen ''expected '(' before column name, got %q'' p) (\<lambda>_ p.
      andThen (expect u TokenIdentifier ''expected column identifier, got %q'' p) (\<lambda>columnName p.
      andThen (expect u TokenCloseParen ''expected ')' after column name, got %q'' p) (\<lambda>_ p.
        atEnd ''unexpected tokens after CREATE INDEX statement: %q'' (CreateIndexStmt indexName tableName columnName) p)))))))"

text \<open>BEGIN, COMMIT and ROLLBACK: the keyword, then TRANSACTION if it is there.\<close>

definition skipTransaction :: "unicode \<Rightarrow> parser \<Rightarrow> parser" where
  "skipTransaction u p = (let p = nextToken u p in if curr p = TokenTransaction then nextToken u p else p)"

definition parseBegin :: "unicode \<Rightarrow> parser \<Rightarrow> parser \<times> stmt res" where
  "parseBegin u p = atEnd ''unexpected tokens after BEGIN/START: %q'' BeginStmt (skipTransaction u p)"

definition parseCommit :: "unicode \<Rightarrow> parser \<Rightarrow> parser \<times> stmt res" where
  "parseCommit u p = atEnd ''unexpected tokens after COMMIT/END: %q'' CommitStmt (skipTransaction u p)"

definition parseRollback :: "unicode \<Rightarrow> parser \<Rightarrow> parser \<times> stmt res" where
  "parseRollback u p = atEnd ''unexpected tokens after ROLLBACK: %q'' RollbackStmt (skipTransaction u p)"

definition parseAnalyze :: "unicode \<Rightarrow> parser \<Rightarrow> parser \<times> stmt res" where
  "parseAnalyze u p =
     (let p = nextToken u p; p = (if curr p = TokenTable then nextToken u p else p) in
      andThen (expect u TokenIdentifier ''expected table name after ANALYZE, got %q'' p) (\<lambda>tableName p.
        atEnd ''unexpected token at end of ANALYZE statement: %q'' (AnalyzeStmt tableName) p))"

text \<open>\<^verbatim>\<open>parseStatement\<close>, with \<^verbatim>\<open>parseExplain\<close> as its case for EXPLAIN.\<close>

function parseStatement :: "unicode \<Rightarrow> parser \<Rightarrow> parser \<times> stmt res" where
  "parseStatement u p =
     (if curr p = TokenError then (p, Inl (Errorf ''lexer error: %s'' [ArgStr (tokValue (currTok p))]))
      else case curr p of
          TokenCreate \<Rightarrow> if tokType (peekTok p) = TokenIndex then parseCreateIndex u p else parseCreateTable u p
        | TokenInsert \<Rightarrow> parseInsert u p
        | TokenSelect \<Rightarrow> parseSelect u p
        | TokenDelete \<Rightarrow> parseDelete u p
        | TokenUpdate \<Rightarrow> parseUpdate u p
        | TokenBegin \<Rightarrow> parseBegin u p
        | TokenStart \<Rightarrow> parseBegin u p
        | TokenCommit \<Rightarrow> parseCommit u p
        | TokenEnd \<Rightarrow> parseCommit u p
        | TokenRollback \<Rightarrow> parseRollback u p
        | TokenExplain \<Rightarrow>
            (case parseStatement u (nextToken u p) of
               (p', Inl err) \<Rightarrow> (p', Inl (wrapf ''failed to parse statement for EXPLAIN: %w'' [] err))
             | (p', Inr subStmt) \<Rightarrow> (p', Inr (ExplainStmt subStmt)))
        | TokenAnalyze \<Rightarrow> parseAnalyze u p
        | _ \<Rightarrow> (p, unexpected ''unexpected statement starting with %q'' p))"
  by pat_completeness auto
termination
  by (relation "measure (\<lambda>(u, p). toksLeft p)") (auto intro: nextToken_less)

declare parseStatement.simps [simp del]

definition Parse :: "unicode \<Rightarrow> string \<Rightarrow> stmt res" where
  "Parse u sql = snd (parseStatement u (NewParser u sql))"

end
