(* ===== verification/TokenText.thy ===== *)
theory TokenText
  imports Parser
begin

text \<open>
  Texts made of tokens: what the lexer reads from a text in which every token is followed by a space, and
  the tokens in front of a parser.
\<close>

section \<open>Lexical shapes\<close>

abbreviation codes :: "string \<Rightarrow> rune list" where
  "codes s \<equiv> map of_char s"

definition wordStart :: "char \<Rightarrow> bool" where
  "wordStart c = (let n = of_char c :: nat in 65 \<le> n \<and> n \<le> 90 \<or> 97 \<le> n \<and> n \<le> 122 \<or> n = 95)"

definition wordChar :: "char \<Rightarrow> bool" where
  "wordChar c = (wordStart c \<or> (let n = of_char c :: nat in 48 \<le> n \<and> n \<le> 57))"

definition isWord :: "string \<Rightarrow> bool" where
  "isWord v \<longleftrightarrow> v \<noteq> [] \<and> wordStart (hd v) \<and> list_all wordChar v"

definition upc :: "char \<Rightarrow> char" where
  "upc c = (if 97 \<le> (of_char c :: nat) \<and> (of_char c :: nat) \<le> 122 then char_of ((of_char c :: nat) - 32) else c)"

definition wordType :: "string \<Rightarrow> tokenType" where
  "wordType v = (case map_of keywordTable (map upc v) of Some t \<Rightarrow> t | None \<Rightarrow> TokenIdentifier)"

definition isNumber :: "string \<Rightarrow> bool" where
  "isNumber v \<longleftrightarrow> v \<noteq> [] \<and> list_all (\<lambda>c. digit_val c \<noteq> None) v"

definition isText :: "string \<Rightarrow> bool" where
  "isText v \<longleftrightarrow> list_all (\<lambda>c. (of_char c :: nat) < 128 \<and> c \<noteq> CHR 0x27) v"

definition symbols :: "(tokenType \<times> string) list" where
  "symbols = [(TokenOpenParen, ''(''), (TokenCloseParen, '')''), (TokenComma, '',''), (TokenStar, ''*''), (TokenDot, ''.''),
     (TokenPlus, ''+''), (TokenMinus, ''-''), (TokenEq, ''=''), (TokenLe, ''<=''), (TokenNe, ''<>''), (TokenLt, ''<''),
     (TokenGe, ''>=''), (TokenGt, ''>''), (TokenNe, ''!='')]"

text \<open>The tokens that the lexer makes of ASCII texts, and the text of a token.\<close>

definition lexable :: "token \<Rightarrow> bool" where
  "lexable t \<longleftrightarrow> (let v = tokValue t in
     isWord v \<and> tokType t = wordType v \<or> isNumber v \<and> tokType t = TokenIntLiteral \<or>
     isText v \<and> tokType t = TokenTextLiteral \<or> (tokType t, v) \<in> set symbols)"

definition tokenText :: "token \<Rightarrow> string" where
  "tokenText t = (if tokType t = TokenTextLiteral then [CHR 0x27] @ tokValue t @ [CHR 0x27] else tokValue t)"

definition showTokens :: "token list \<Rightarrow> string" where
  "showTokens ts = concat (map (\<lambda>t. tokenText t @ '' '') ts)"

section \<open>Lexing a token\<close>

lemma wordType_cases: "wordType v \<noteq> TokenEOF" "wordType v \<noteq> TokenError" "wordType v \<noteq> TokenTextLiteral" "wordType v \<noteq> TokenIntLiteral"
  by (auto simp: wordType_def keywordTable_def split: option.splits if_splits)

lemma decodeRunes_ascii: "list_all (\<lambda>b. b < 128) bs \<Longrightarrow> decodeRunes bs = bs"
  by (induction bs) (auto simp: decodeRune_def)

lemma stringOf_codes: "list_all (\<lambda>c. (of_char c :: nat) < 128) v \<Longrightarrow> stringOf (codes v) = v"
  by (induction v) (auto simp: stringOf_def encodeRune_def)

lemma scanWhile_word:
  assumes "list_all P w" and "ys = [] \<or> \<not> P (hd ys)"
  shows "scanWhile P (xs @ w @ ys) (length xs) = length xs + length w"
proof -
  have "takeWhile P ys = []" using assms(2) by (cases ys) auto
  with assms(1) show ?thesis by (simp add: scanWhile_takeWhile list_all_iff)
qed

lemma char_facts:
  "wordStart c \<Longrightarrow> isIdentifierStart u (of_char c)" "wordChar c \<Longrightarrow> isIdentifierStart u (of_char c) \<or> IsDigit u (of_char c)"
  "wordChar c \<Longrightarrow> (of_char c :: nat) < 128" "digit_val c \<noteq> None \<Longrightarrow> IsDigit u (of_char c) \<and> (of_char c :: nat) < 128"
  "wordStart c \<Longrightarrow> \<not> IsDigit u (of_char c)"
  by (auto simp: wordStart_def wordChar_def isIdentifierStart_def IsLetter_def IsDigit_def digit_val_def Let_def split: if_splits)

lemma ToUpper_ascii: "(of_char c :: nat) < 128 \<Longrightarrow> ToUpper u (of_char c) = of_char (upc c) \<and> (of_char (upc c) :: nat) < 128"
  by (auto simp: ToUpper_def upc_def)

lemma space_facts [simp]: "IsSpace u 32" "\<not> IsDigit u 32" "\<not> isIdentifierStart u 32"
  by (simp_all add: IsSpace_def IsDigit_def isIdentifierStart_def IsLetter_def)

lemma readIdentifier_word:
  assumes "isWord v"
  shows "readIdentifierOrKeyword u \<lparr>input = xs @ codes v @ 32 # ys, pos = length xs\<rparr> =
    (\<lparr>input = xs @ codes v @ 32 # ys, pos = length xs + length v\<rparr>, Token (wordType v) v)"
proof -
  let ?P = "\<lambda>r. isIdentifierStart u r \<or> IsDigit u r"
  have w: "list_all wordChar v" using assms by (simp add: isWord_def)
  then have P: "list_all ?P (codes v)" by (auto simp: list_all_iff dest: char_facts(2))
  have a: "list_all (\<lambda>c. (of_char c :: nat) < 128) v" using w char_facts(3) by (auto simp: list_all_iff)
  have "map (ToUpper u) (codes v) = codes (map upc v)" using a ToUpper_ascii by (simp add: list_all_iff)
  moreover have "list_all (\<lambda>c. (of_char c :: nat) < 128) (map upc v)" using a ToUpper_ascii by (simp add: list_all_iff)
  ultimately have up: "stringOf (map (ToUpper u) (codes v)) = map upc v" by (simp only: stringOf_codes)
  show ?thesis
    using scanWhile_word [OF P, of "32 # ys" xs] up stringOf_codes [OF a]
    by (simp add: readIdentifierOrKeyword_def Let_def slice_runes_def wordType_def split: option.splits)
qed

lemma readInt_number:
  assumes "isNumber v"
  shows "readIntLiteral u \<lparr>input = xs @ codes v @ 32 # ys, pos = length xs\<rparr> =
    (\<lparr>input = xs @ codes v @ 32 # ys, pos = length xs + length v\<rparr>, Token TokenIntLiteral v)"
proof -
  have P: "list_all (IsDigit u) (codes v)" and a: "list_all (\<lambda>c. (of_char c :: nat) < 128) v"
    using assms char_facts(4) by (auto simp: isNumber_def list_all_iff)
  show ?thesis
    using scanWhile_word [OF P, of "32 # ys" xs] stringOf_codes [OF a] by (simp add: readIntLiteral_def Let_def slice_runes_def)
qed

lemma readText_text:
  assumes "isText v"
  shows "readTextLiteral \<lparr>input = xs @ 39 # codes v @ 39 # ys, pos = length xs\<rparr> =
    (\<lparr>input = xs @ 39 # codes v @ 39 # ys, pos = length xs + length v + 2\<rparr>, Token TokenTextLiteral v)"
proof -
  have quote: "(of_char c :: nat) = 39 \<longleftrightarrow> c = CHR 0x27" for c
  proof -
    have "(39 :: nat) = of_char CHR 0x27" by simp
    then show ?thesis by (metis of_char_eq_iff)
  qed
  have P: "list_all (\<lambda>r. r \<noteq> 39) (codes v)" and a: "list_all (\<lambda>c. (of_char c :: nat) < 128) v"
    using assms by (auto simp: isText_def list_all_iff quote)
  show ?thesis
    using scanWhile_word [OF P, of "39 # ys" "xs @ [39]"] stringOf_codes [OF a]
    by (simp add: readTextLiteral_def Let_def slice_runes_def)
qed

lemma first_rune: "(xs @ r # ys) ! length xs = r"
  by simp

lemma scanToken_lexable:
  assumes "lexable t"
  shows "scanToken u \<lparr>input = xs @ codes (tokenText t) @ 32 # ys, pos = length xs\<rparr> =
    (\<lparr>input = xs @ codes (tokenText t) @ 32 # ys, pos = length xs + length (tokenText t)\<rparr>, t)"
proof -
  obtain ty v where t: "t = Token ty v" by (cases t) auto
  consider "isWord v" "ty = wordType v" | "isNumber v" "ty = TokenIntLiteral" | "isText v" "ty = TokenTextLiteral" | "(ty, v) \<in> set symbols"
    using assms by (auto simp: lexable_def t)
  then show ?thesis
  proof cases
    case 1
    then obtain c cs where v: "v = c # cs" "wordStart c" by (cases v) (auto simp: isWord_def)
    have tt: "tokenText t = v" using 1 wordType_cases by (simp add: t tokenText_def)
    have st: "isIdentifierStart u (of_char c)" "\<not> IsDigit u (of_char c)" using char_facts(1,5) [OF v(2)] by blast+
    have ne: "(of_char c :: nat) \<notin> {40, 41, 44, 42, 46, 43, 45, 61, 60, 62, 33, 39}"
      using v(2) by (auto simp: wordStart_def Let_def)
    show ?thesis
      using readIdentifier_word [OF 1(1), of u xs ys] st ne unfolding tt by (simp add: scanToken_def v(1) t 1(2))
  next
    case 2
    then obtain c cs where v: "v = c # cs" "digit_val c \<noteq> None" by (cases v) (auto simp: isNumber_def)
    have tt: "tokenText t = v" using 2 by (simp add: t tokenText_def)
    have st: "IsDigit u (of_char c)" using char_facts(4) [OF v(2)] by blast
    have ne: "(of_char c :: nat) \<notin> {40, 41, 44, 42, 46, 43, 45, 61, 60, 62, 33, 39}"
      using v(2) by (auto simp: digit_val_def Let_def split: if_splits)
    show ?thesis
      using readInt_number [OF 2(1), of u xs ys] st ne unfolding tt by (simp add: scanToken_def v(1) t 2(2))
  next
    case 3
    then show ?thesis using readText_text [OF 3(1), of xs "32 # ys"] by (simp add: scanToken_def t tokenText_def)
  next
    case 4
    then show ?thesis by (auto simp: symbols_def scanToken_def advance_def t tokenText_def nth_append)
  qed
qed

text \<open>Spaces before the token.\<close>

lemma symbols_ok:
  "list_all (\<lambda>(ty, v). ty \<noteq> TokenTextLiteral \<and> ty \<noteq> TokenEOF \<and> v \<noteq> [] \<and> \<not> IsSpace u (of_char (hd v)) \<and> list_all (\<lambda>c. (of_char c :: nat) < 128) v) symbols"
  by (simp add: symbols_def IsSpace_def)

lemma symbolsD:
  assumes "(ty, v) \<in> set symbols"
  shows "ty \<noteq> TokenTextLiteral" "ty \<noteq> TokenEOF" "v \<noteq> []" "\<not> IsSpace u (of_char (hd v))" "list_all (\<lambda>c. (of_char c :: nat) < 128) v"
  using symbols_ok [of u, unfolded list_all_iff [of _ symbols]] assms by auto

lemma lexable_no_EOF: "lexable t \<Longrightarrow> tokType t \<noteq> TokenEOF"
  using wordType_cases(1) symbolsD(2) by (auto simp: lexable_def Let_def)

lemma tokenText_ascii:
  assumes "lexable t"
  shows "list_all (\<lambda>c. (of_char c :: nat) < 128) (tokenText t)"
proof -
  obtain ty v where t: "t = Token ty v" by (cases t) auto
  have "isWord v \<Longrightarrow> list_all (\<lambda>c. (of_char c :: nat) < 128) v" by (auto simp: isWord_def list_all_iff dest: char_facts(3))
  moreover have "isNumber v \<Longrightarrow> list_all (\<lambda>c. (of_char c :: nat) < 128) v" using char_facts(4) by (auto simp: isNumber_def list_all_iff)
  moreover have "isText v \<Longrightarrow> list_all (\<lambda>c. (of_char c :: nat) < 128) v" by (auto simp: isText_def list_all_iff)
  moreover have "(ty, v) \<in> set symbols \<Longrightarrow> list_all (\<lambda>c. (of_char c :: nat) < 128) v" by (rule symbolsD(5))
  ultimately have "list_all (\<lambda>c. (of_char c :: nat) < 128) v" using assms by (auto simp: lexable_def t)
  then show ?thesis by (simp add: tokenText_def t)
qed

lemma tokenText_first: "lexable t \<Longrightarrow> \<exists>c cs. tokenText t = c # cs \<and> \<not> IsSpace u (of_char c)"
proof -
  assume lex: "lexable t"
  obtain ty v where t: "t = Token ty v" by (cases t) auto
  have "isWord v \<Longrightarrow> \<exists>c cs. v = c # cs \<and> \<not> IsSpace u (of_char c)"
    by (cases v) (auto simp: isWord_def wordStart_def IsSpace_def Let_def)
  moreover have "isNumber v \<Longrightarrow> \<exists>c cs. v = c # cs \<and> \<not> IsSpace u (of_char c)"
    by (cases v) (auto simp: isNumber_def digit_val_def IsSpace_def Let_def split: if_splits)
  moreover have "(ty, v) \<in> set symbols \<Longrightarrow> ty \<noteq> TokenTextLiteral \<and> (\<exists>c cs. v = c # cs \<and> \<not> IsSpace u (of_char c))"
    using symbolsD(1,3) [of ty v] symbolsD(4) [of ty v u] by (cases v) auto
  moreover have "\<not> IsSpace u 39" by (simp add: IsSpace_def)
  ultimately show ?thesis using lex wordType_cases by (auto simp: lexable_def t tokenText_def)
qed

lemma NextToken_lexable:
  assumes "lexable t" and "list_all (IsSpace u) ws"
  shows "NextToken u \<lparr>input = xs @ ws @ codes (tokenText t) @ 32 # ys, pos = length xs\<rparr> =
    (\<lparr>input = xs @ ws @ codes (tokenText t) @ 32 # ys, pos = length (xs @ ws @ codes (tokenText t))\<rparr>, t)"
proof -
  from tokenText_first [OF assms(1), of u] obtain c cs where c: "tokenText t = c # cs" "\<not> IsSpace u (of_char c)" by blast
  have "scanWhile (IsSpace u) (xs @ ws @ codes (tokenText t) @ 32 # ys) (length xs) = length (xs @ ws)"
    using scanWhile_word [OF assms(2), of "codes (tokenText t) @ 32 # ys" xs] c by simp
  then show ?thesis
    using scanToken_lexable [OF assms(1), of u "xs @ ws" ys] by (simp add: NextToken_def skipWhitespace_def Let_def)
qed

lemma NextToken_spaces:
  assumes "list_all (IsSpace u) ws"
  shows "NextToken u \<lparr>input = xs @ ws, pos = length xs\<rparr> = (\<lparr>input = xs @ ws, pos = length (xs @ ws)\<rparr>, Token TokenEOF [])"
  using scanWhile_word [OF assms, of "[]" xs] by (simp add: NextToken_def skipWhitespace_def Let_def)

section \<open>The tokens that are left\<close>

function restTokens :: "unicode \<Rightarrow> lexer \<Rightarrow> token list" where
  "restTokens u l = (case NextToken u l of (l', tok) \<Rightarrow> if tokType tok = TokenEOF then [] else tok # restTokens u l')"
  by pat_completeness auto
termination
  by (relation "measure (\<lambda>(u, l). length (input l) - pos l)") (auto intro: NextToken_less)

declare restTokens.simps [simp del]

lemma restTokens_text:
  assumes "list_all lexable ts" and "list_all (IsSpace u) ws"
  shows "restTokens u \<lparr>input = xs @ ws @ codes (showTokens ts), pos = length xs\<rparr> = ts"
  using assms
proof (induction ts arbitrary: xs ws)
  case Nil
  then show ?case by (subst restTokens.simps) (simp add: showTokens_def NextToken_spaces)
next
  case (Cons t ts)
  have "tokType t \<noteq> TokenEOF" using Cons.prems(1) lexable_no_EOF by simp
  moreover have "codes (showTokens (t # ts)) = codes (tokenText t) @ 32 # codes (showTokens ts)" by (simp add: showTokens_def)
  moreover note NextToken_lexable [of t u ws xs "codes (showTokens ts)"] Cons.IH [of "[32]" "xs @ ws @ codes (tokenText t)"]
  ultimately show ?case using Cons.prems by (subst restTokens.simps) simp
qed

lemma NextToken_after_end:
  assumes "NextToken u l = (l', tok)" and "tokType tok = TokenEOF"
  shows "restTokens u l' = []" and "tok = Token TokenEOF []"
proof -
  from scanToken_progress [of "skipWhitespace u l" u] assms have l': "l' = skipWhitespace u l" "tok = Token TokenEOF []" "length (input l') \<le> pos l'"
    by (auto simp: NextToken_def Let_def progress_def split: if_splits)
  then show "tok = Token TokenEOF []" by simp
  have "skipWhitespace u l' = l'" using l'(3) by (simp add: skipWhitespace_def scanWhile_takeWhile)
  with l'(3) show "restTokens u l' = []" by (subst restTokens.simps) (simp add: NextToken_def)
qed

definition firstTok :: "token list \<Rightarrow> token" where
  "firstTok ts = (case ts of [] \<Rightarrow> Token TokenEOF [] | t # _ \<Rightarrow> t)"

abbreviation nextType :: "token list \<Rightarrow> tokenType" where
  "nextType ts \<equiv> tokType (firstTok ts)"

lemma firstTok_simps [simp]: "firstTok [] = Token TokenEOF []" "firstTok (t # ts) = t"
  by (simp_all add: firstTok_def)

definition ready :: "unicode \<Rightarrow> token list \<Rightarrow> parser \<Rightarrow> bool" where
  "ready u ts p \<longleftrightarrow> currTok p = firstTok ts \<and> peekTok p = firstTok (tl ts) \<and> restTokens u (lexer p) = tl (tl ts)"

lemma firstTok_rest:
  assumes "NextToken u l = (l', tok)"
  shows "tok = firstTok (restTokens u l)" and "restTokens u l' = tl (restTokens u l)"
  using assms NextToken_after_end [OF assms] by (auto simp: restTokens.simps [of u l])

lemma ready_nextToken: "ready u ts p \<Longrightarrow> ready u (tl ts) (nextToken u p)"
  using firstTok_rest [of u "lexer p"] by (cases "NextToken u (lexer p)") (auto simp: ready_def nextToken_def)

lemma ready_NewParser:
  assumes "list_all lexable ts"
  shows "ready u ts (NewParser u (showTokens ts))"
proof -
  have "list_all (\<lambda>b. b < 128) (codes (showTokens ts))"
    using assms tokenText_ascii by (fastforce simp: showTokens_def list_all_iff)
  then have "runesOf (showTokens ts) = codes (showTokens ts)" by (simp add: runesOf_def decodeRunes_ascii)
  then have rest: "restTokens u (NewLexer (showTokens ts)) = ts"
    using restTokens_text [OF assms, of u "[]" "[]"] by (simp add: NewLexer_def)
  let ?l0 = "NewLexer (showTokens ts)"
  obtain l1 t1 where 1: "NextToken u ?l0 = (l1, t1)" by force
  obtain l2 t2 where 2: "NextToken u l1 = (l2, t2)" by force
  show ?thesis
    using firstTok_rest [OF 1] firstTok_rest [OF 2] 1 2 rest
    by (simp add: NewParser_def nextToken_def ready_def)
qed

end
