(* ===== verification/Grammar.thy ===== *)
theory Grammar
  imports TokenText
begin

text \<open>
  The language of the parser.  A statement is printed as the tokens of its concrete syntax; expressions
  have no parentheses, so the grammar fixes the shape of the trees that have a text.  Parsing the text
  of such a statement gives the statement back: precedence and associativity of the parser are those of
  the grammar.
\<close>

section \<open>Concrete syntax\<close>

definition word :: "string \<Rightarrow> token" where
  "word v = Token (wordType v) v"

definition symbol :: "string \<Rightarrow> token" where
  "symbol v = Token (case map_of (map (\<lambda>(t, v). (v, t)) symbols) v of Some t \<Rightarrow> t | None \<Rightarrow> TokenError) v"

definition isName :: "string \<Rightarrow> bool" where
  "isName v \<longleftrightarrow> isWord v \<and> wordType v = TokenIdentifier"

fun opText :: "binOp \<Rightarrow> string" where
  "opText OpEq = ''=''"
| "opText OpNe = ''<>''"
| "opText OpLt = ''<''"
| "opText OpLe = ''<=''"
| "opText OpGt = ''>''"
| "opText OpGe = ''>=''"
| "opText OpAnd = ''AND''"
| "opText OpOr = ''OR''"
| "opText OpAdd = ''+''"
| "opText OpSub = ''-''"

definition opToken :: "binOp \<Rightarrow> token" where
  "opToken bop = (if bop \<in> {OpAnd, OpOr} then word (opText bop) else symbol (opText bop))"

definition printLiteral :: "val \<Rightarrow> token" where
  "printLiteral v =
     (case vType v of
        TypeInt \<Rightarrow> Token TokenIntLiteral (dec_int (sint (vInt v)))
      | TypeText \<Rightarrow> Token TokenTextLiteral (vStr v)
      | TypeBool \<Rightarrow> word (show_bool (vBool v)))"

fun printExpr :: "expr \<Rightarrow> token list" where
  "printExpr Star = [symbol ''*'']"
| "printExpr (ColumnRef t n) = (if t = [] then [word n] else [word t, symbol ''.'', word n])"
| "printExpr (Literal v) = [printLiteral v]"
| "printExpr (BinaryExpr bop a b) = printExpr a @ opToken bop # printExpr b"

text \<open>The literals of the language: there is no NULL and no negative number.\<close>

definition isConstant :: "val \<Rightarrow> bool" where
  "isConstant v \<longleftrightarrow> (v = NewInt (vInt v) \<and> 0 \<le> sint (vInt v)) \<or> (v = NewText (vStr v) \<and> isText (vStr v)) \<or> v = NewBool (vBool v)"

fun isPrimary :: "expr \<Rightarrow> bool" where
  "isPrimary (ColumnRef t n) \<longleftrightarrow> (t = [] \<or> isName t) \<and> isName n"
| "isPrimary (Literal v) \<longleftrightarrow> isConstant v"
| "isPrimary _ \<longleftrightarrow> False"

fun isAdditive :: "expr \<Rightarrow> bool" where
  "isAdditive (BinaryExpr bop a b) \<longleftrightarrow> bop \<in> {OpAdd, OpSub} \<and> isAdditive a \<and> isPrimary b"
| "isAdditive e \<longleftrightarrow> isPrimary e"

fun isComparison :: "expr \<Rightarrow> bool" where
  "isComparison (BinaryExpr bop a b) \<longleftrightarrow>
     isAdditive (BinaryExpr bop a b) \<or> bop \<in> {OpEq, OpNe, OpLt, OpLe, OpGt, OpGe} \<and> isAdditive a \<and> isAdditive b"
| "isComparison e \<longleftrightarrow> isPrimary e"

fun isConjunction :: "expr \<Rightarrow> bool" where
  "isConjunction (BinaryExpr bop a b) \<longleftrightarrow>
     isComparison (BinaryExpr bop a b) \<or> bop = OpAnd \<and> isConjunction a \<and> isComparison b"
| "isConjunction e \<longleftrightarrow> isPrimary e"

fun isExpression :: "expr \<Rightarrow> bool" where
  "isExpression (BinaryExpr bop a b) \<longleftrightarrow>
     isConjunction (BinaryExpr bop a b) \<or> bop = OpOr \<and> isExpression a \<and> isConjunction b"
| "isExpression e \<longleftrightarrow> isPrimary e"

section \<open>Numbers\<close>

lemma digits_val_append: "digits_val acc (xs @ ys) = (case digits_val acc xs of Inl e \<Rightarrow> Inl e | Inr n \<Rightarrow> digits_val n ys)"
  by (induction xs arbitrary: acc) (auto split: option.splits)

lemma digit_val_digit_char: "d < 10 \<Longrightarrow> digit_val (digit_char d) = Some d"
  by (simp add: digit_val_def digit_char_def Let_def)

lemma digits_val_dec_nat: "n < 2 ^ 64 \<Longrightarrow> digits_val 0 (dec_nat n) = Inr n"
proof (induction n rule: dec_nat.induct)
  case (1 n)
  have "n div 10 < 2 ^ 64" using "1.prems" by simp
  with 1 show ?case by (subst dec_nat.simps) (simp add: digits_val_append digit_val_digit_char)
qed

lemma isNumber_dec_nat: "isNumber (dec_nat n)"
proof (induction n rule: dec_nat.induct)
  case (1 n)
  then show ?case by (subst dec_nat.simps) (auto simp: isNumber_def digit_val_digit_char)
qed

lemma ParseInt_dec:
  assumes "0 \<le> sint (w :: 64 word)"
  shows "ParseInt (dec_int (sint w)) = Inr (sint w)"
proof -
  have "sint w < 2 ^ 63" using sint_lt [of w] by simp
  then have "nat (sint w) < 2 ^ 63" using assms by (simp add: nat_less_iff)
  moreover obtain c cs where c: "dec_nat (nat (sint w)) = c # cs" "digit_val c \<noteq> None"
    using isNumber_dec_nat [of "nat (sint w)"] by (cases "dec_nat (nat (sint w))") (auto simp: isNumber_def)
  moreover have "c \<noteq> CHR ''-''" "c \<noteq> CHR ''+''" using c(2) by (auto simp: digit_val_def)
  ultimately show ?thesis
    using assms digits_val_dec_nat [of "nat (sint w)"] by (simp add: ParseInt_def dec_int_def Let_def)
qed

section \<open>Tokens of the language\<close>

lemma word_name [simp]: "isName v \<Longrightarrow> word v = Token TokenIdentifier v"
  by (simp add: word_def isName_def)

lemma wordType_name [simp]: "isName v \<Longrightarrow> wordType v = TokenIdentifier"
  by (simp add: isName_def)

lemma wordType_keywords [simp]:
  "wordType ''AND'' = TokenAnd" "wordType ''OR'' = TokenOr" "wordType ''true'' = TokenTrue" "wordType ''false'' = TokenFalse"
  "wordType ''SELECT'' = TokenSelect" "wordType ''FROM'' = TokenFrom" "wordType ''WHERE'' = TokenWhere" "wordType ''JOIN'' = TokenJoin"
  "wordType ''ON'' = TokenOn" "wordType ''CREATE'' = TokenCreate" "wordType ''TABLE'' = TokenTable" "wordType ''INDEX'' = TokenIndex"
  "wordType ''INSERT'' = TokenInsert" "wordType ''INTO'' = TokenInto" "wordType ''VALUES'' = TokenValues"
  "wordType ''UPDATE'' = TokenUpdate" "wordType ''SET'' = TokenSet" "wordType ''DELETE'' = TokenDelete"
  "wordType ''BEGIN'' = TokenBegin" "wordType ''COMMIT'' = TokenCommit" "wordType ''ROLLBACK'' = TokenRollback"
  "wordType ''EXPLAIN'' = TokenExplain" "wordType ''ANALYZE'' = TokenAnalyze"
  "wordType ''INT'' = TokenIntType" "wordType ''TEXT'' = TokenTextType" "wordType ''BOOL'' = TokenBoolType"
  by code_simp+

lemma symbol_types [simp]:
  "symbol ''*'' = Token TokenStar ''*''" "symbol ''.'' = Token TokenDot ''.''" "symbol '','' = Token TokenComma '',''"
  "symbol ''('' = Token TokenOpenParen ''(''" "symbol '')'' = Token TokenCloseParen '')''" "symbol ''='' = Token TokenEq ''=''"
  "symbol ''<>'' = Token TokenNe ''<>''" "symbol ''<'' = Token TokenLt ''<''" "symbol ''<='' = Token TokenLe ''<=''"
  "symbol ''>'' = Token TokenGt ''>''" "symbol ''>='' = Token TokenGe ''>=''" "symbol ''+'' = Token TokenPlus ''+''"
  "symbol ''-'' = Token TokenMinus ''-''"
  by (simp_all add: symbol_def symbols_def)

lemma tokType_word [simp]: "tokType (word v) = wordType v" "tokValue (word v) = v"
  by (simp_all add: word_def)

lemma opToken_type [simp]:
  "tokType (opToken OpAnd) = TokenAnd" "tokType (opToken OpOr) = TokenOr" "tokType (opToken OpAdd) = TokenPlus"
  "tokType (opToken OpSub) = TokenMinus" "tokType (opToken OpEq) = TokenEq" "tokType (opToken OpNe) = TokenNe"
  "tokType (opToken OpLt) = TokenLt" "tokType (opToken OpLe) = TokenLe" "tokType (opToken OpGt) = TokenGt" "tokType (opToken OpGe) = TokenGe"
  by (simp_all add: opToken_def)

section \<open>Expressions\<close>

lemma ready_curr: "ready u ts p \<Longrightarrow> currTok p = firstTok ts"
  by (simp add: ready_def)

lemma ready_Cons: "ready u (t # ts) p \<Longrightarrow> currTok p = t \<and> ready u ts (nextToken u p)"
  using ready_nextToken [of u "t # ts" p] by (simp add: ready_def)

lemma expect_ready:
  assumes "ready u (t # ts) p" and "tokType t = typ"
  shows "expect u typ msg p = (nextToken u p, Inr (tokValue t)) \<and> ready u ts (nextToken u p)"
  using ready_Cons [OF assms(1)] assms(2) by (simp add: expect_def)

lemma parsePrimaryExpr_print:
  assumes "isPrimary e" and "ready u (printExpr e @ ts) p" and "nextType ts \<noteq> TokenDot"
  shows "\<exists>p'. parsePrimaryExpr u p = (p', Inr e) \<and> ready u ts p'"
proof (cases e)
  case (ColumnRef t n)
  show ?thesis
  proof (cases "t = []")
    case True
    with assms ColumnRef have n: "ready u (Token TokenIdentifier n # ts) p" by simp
    note 1 = ready_Cons [OF n]
    have "curr (nextToken u p) \<noteq> TokenDot" using ready_curr [OF conjunct2 [OF 1]] assms(3) by simp
    with 1 True ColumnRef show ?thesis by (simp add: parsePrimaryExpr_def Let_def)
  next
    case False
    with assms ColumnRef have "ready u (Token TokenIdentifier t # Token TokenDot ''.'' # Token TokenIdentifier n # ts) p" by simp
    note 1 = ready_Cons [OF this]
    note 2 = ready_Cons [OF conjunct2 [OF 1]]
    note 3 = expect_ready [OF conjunct2 [OF 2], of TokenIdentifier]
    from 1 2 3 ColumnRef show ?thesis by (simp add: parsePrimaryExpr_def)
  qed
next
  case (Literal v)
  then have v: "isConstant v" and r: "ready u (printLiteral v # ts) p" using assms by simp_all
  note 1 = ready_Cons [OF r]
  from v consider i where "v = NewInt i" "0 \<le> sint i" | s where "v = NewText s" | b where "v = NewBool b"
    by (auto simp: isConstant_def)
  then show ?thesis
  proof cases
    case 1
    with \<open>currTok p = _ \<and> _\<close> Literal ParseInt_dec [OF 1(2)] show ?thesis by (simp add: parsePrimaryExpr_def printLiteral_def)
  next
    case 2
    with 1 Literal show ?thesis by (simp add: parsePrimaryExpr_def printLiteral_def)
  next
    case 3
    with 1 Literal show ?thesis by (cases b) (simp_all add: parsePrimaryExpr_def printLiteral_def show_bool_def)
  qed
qed (use assms in auto)

text \<open>A left-associative chain: after its first operands the parser is in the loop with what it has read.\<close>

lemma parseAdditive_primary:
  assumes "isPrimary e" and "ready u (printExpr e @ ts) p" and "nextType ts \<noteq> TokenDot"
  shows "\<exists>p'. parseAdditive u p = parseAdditive_loop u e p' \<and> ready u ts p'"
  using parsePrimaryExpr_print [OF assms] by (auto simp: parseAdditive_def)

lemma parseAdditive_chain:
  assumes "isAdditive e" and "ready u (printExpr e @ ts) p" and "nextType ts \<noteq> TokenDot"
  shows "\<exists>p'. parseAdditive u p = parseAdditive_loop u e p' \<and> ready u ts p'"
  using assms
proof (induction e arbitrary: p ts rule: isAdditive.induct)
  case (1 bop a b)
  then have r: "ready u (printExpr a @ opToken bop # printExpr b @ ts) p" and bop: "bop = OpAdd \<or> bop = OpSub"
    and ab: "isAdditive a" "isPrimary b" by auto
  from 1(1) [OF ab(1) r] bop obtain p1 where
    1: "parseAdditive u p = parseAdditive_loop u a p1" "ready u (opToken bop # printExpr b @ ts) p1" by auto
  note 2 = ready_Cons [OF 1(2)]
  from parsePrimaryExpr_print [OF ab(2) conjunct2 [OF 2] \<open>nextType ts \<noteq> TokenDot\<close>] obtain p2 where
    3: "parsePrimaryExpr u (nextToken u p1) = (p2, Inr b)" "ready u ts p2" by blast
  have "parseAdditive_loop u a p1 = parseAdditive_loop u (BinaryExpr bop a b) p2"
    using 2 3(1) bop by (subst parseAdditive_loop.simps) auto
  with 1 3 show ?case by auto
qed (simp only: isAdditive.simps, rule parseAdditive_primary, assumption+)+

lemma parseAdditive_print:
  assumes "isAdditive e" and "ready u (printExpr e @ ts) p" and "nextType ts \<notin> {TokenDot, TokenPlus, TokenMinus}"
  shows "\<exists>p'. parseAdditive u p = (p', Inr e) \<and> ready u ts p'"
proof -
  from parseAdditive_chain [OF assms(1,2)] assms(3) obtain p' where
    p': "parseAdditive u p = parseAdditive_loop u e p'" "ready u ts p'" by auto
  moreover have "parseAdditive_loop u e p' = (p', Inr e)"
    using ready_curr [OF p'(2)] assms(3) by (subst parseAdditive_loop.simps) simp
  ultimately show ?thesis by auto
qed

lemma comparisonOp_None: "comparisonOp t = None \<longleftrightarrow> t \<notin> {TokenEq, TokenNe, TokenLt, TokenLe, TokenGt, TokenGe}"
  by (cases t) auto

lemma parseComparison_print:
  assumes "isComparison e" and "ready u (printExpr e @ ts) p"
    and "nextType ts \<notin> {TokenDot, TokenPlus, TokenMinus, TokenEq, TokenNe, TokenLt, TokenLe, TokenGt, TokenGe}"
  shows "\<exists>p'. parseComparison u p = (p', Inr e) \<and> ready u ts p'"
proof (cases "isAdditive e")
  case True
  from parseAdditive_print [OF True assms(2)] assms(3) obtain p' where p': "parseAdditive u p = (p', Inr e)" "ready u ts p'" by auto
  moreover have "comparisonOp (curr p') = None" using ready_curr [OF p'(2)] assms(3) by (simp only: comparisonOp_None) simp
  ultimately show ?thesis by (simp add: parseComparison_def)
next
  case False
  with assms(1) obtain bop a b where e: "e = BinaryExpr bop a b" "bop \<in> {OpEq, OpNe, OpLt, OpLe, OpGt, OpGe}" "isAdditive a" "isAdditive b"
    by (cases e) auto
  have r: "ready u (printExpr a @ opToken bop # printExpr b @ ts) p" using assms(2) e(1) by simp
  from parseAdditive_print [OF e(3) r] e(2) obtain p1 where
    1: "parseAdditive u p = (p1, Inr a)" "ready u (opToken bop # printExpr b @ ts) p1" by auto
  note 2 = ready_Cons [OF 1(2)]
  from parseAdditive_print [OF e(4) conjunct2 [OF 2]] assms(3) obtain p2 where
    3: "parseAdditive u (nextToken u p1) = (p2, Inr b)" "ready u ts p2" by auto
  have "comparisonOp (tokType (opToken bop)) = Some bop" using e(2) by auto
  with 1 2 3 e(1) show ?thesis by (simp add: parseComparison_def)
qed

abbreviation ends :: "token list \<Rightarrow> bool" where
  "ends ts \<equiv> nextType ts \<notin> {TokenDot, TokenPlus, TokenMinus, TokenEq, TokenNe, TokenLt, TokenLe, TokenGt, TokenGe, TokenAnd, TokenOr}"

lemma parseAnd_comparison:
  assumes "isComparison e" and "ready u (printExpr e @ ts) p" and "ends ts \<or> nextType ts \<in> {TokenAnd, TokenOr}"
  shows "\<exists>p'. parseAnd u p = parseAnd_loop u e p' \<and> ready u ts p'"
proof -
  from parseComparison_print [OF assms(1,2)] assms(3) obtain p' where "parseComparison u p = (p', Inr e)" "ready u ts p'" by auto
  then show ?thesis by (intro exI [of _ p']) (simp add: parseAnd_def)
qed

lemma parseAnd_chain:
  assumes "isConjunction e" and "ready u (printExpr e @ ts) p" and "ends ts \<or> nextType ts \<in> {TokenAnd, TokenOr}"
  shows "\<exists>p'. parseAnd u p = parseAnd_loop u e p' \<and> ready u ts p'"
  using assms
proof (induction e arbitrary: p ts rule: isConjunction.induct)
  case (1 bop a b)
  show ?case
  proof (cases "isComparison (BinaryExpr bop a b)")
    case True
    from parseAnd_comparison [OF True 1(3,4)] show ?thesis .
  next
    case False
    then have r: "ready u (printExpr a @ opToken bop # printExpr b @ ts) p" and bop: "bop = OpAnd"
      and ab: "isConjunction a" "isComparison b" using 1 by auto
    from 1(1) [OF ab(1) r] bop obtain p1 where
      p1: "parseAnd u p = parseAnd_loop u a p1" "ready u (opToken bop # printExpr b @ ts) p1" by auto
    note 2 = ready_Cons [OF p1(2)]
    from parseComparison_print [OF ab(2) conjunct2 [OF 2]] 1(4) obtain p2 where
      3: "parseComparison u (nextToken u p1) = (p2, Inr b)" "ready u ts p2" by auto
    have "parseAnd_loop u a p1 = parseAnd_loop u (BinaryExpr bop a b) p2"
      using 2 3(1) bop by (subst parseAnd_loop.simps) simp
    with p1 3 show ?thesis by auto
  qed
qed (rule parseAnd_comparison, simp_all only: isComparison.simps isConjunction.simps)+

lemma parseAnd_print:
  assumes "isConjunction e" and "ready u (printExpr e @ ts) p" and "ends ts \<or> nextType ts = TokenOr"
  shows "\<exists>p'. parseAnd u p = (p', Inr e) \<and> ready u ts p'"
proof -
  from parseAnd_chain [OF assms(1,2)] assms(3) obtain p' where p': "parseAnd u p = parseAnd_loop u e p'" "ready u ts p'" by auto
  moreover have "parseAnd_loop u e p' = (p', Inr e)"
    using ready_curr [OF p'(2)] assms(3) by (subst parseAnd_loop.simps) auto
  ultimately show ?thesis by auto
qed

lemma parseOr_conjunction:
  assumes "isConjunction e" and "ready u (printExpr e @ ts) p" and "ends ts \<or> nextType ts = TokenOr"
  shows "\<exists>p'. parseOr u p = parseOr_loop u e p' \<and> ready u ts p'"
  using parseAnd_print [OF assms] by (auto simp: parseOr_def)

lemma parseOr_chain:
  assumes "isExpression e" and "ready u (printExpr e @ ts) p" and "ends ts \<or> nextType ts = TokenOr"
  shows "\<exists>p'. parseOr u p = parseOr_loop u e p' \<and> ready u ts p'"
  using assms
proof (induction e arbitrary: p ts rule: isExpression.induct)
  case (1 bop a b)
  show ?case
  proof (cases "isConjunction (BinaryExpr bop a b)")
    case True
    from parseOr_conjunction [OF True 1(3,4)] show ?thesis .
  next
    case False
    then have r: "ready u (printExpr a @ opToken bop # printExpr b @ ts) p" and bop: "bop = OpOr"
      and ab: "isExpression a" "isConjunction b" using 1 by auto
    from 1(1) [OF ab(1) r] bop obtain p1 where
      p1: "parseOr u p = parseOr_loop u a p1" "ready u (opToken bop # printExpr b @ ts) p1" by auto
    note 2 = ready_Cons [OF p1(2)]
    from parseAnd_print [OF ab(2) conjunct2 [OF 2] 1(4)] obtain p2 where
      3: "parseAnd u (nextToken u p1) = (p2, Inr b)" "ready u ts p2" by auto
    have "parseOr_loop u a p1 = parseOr_loop u (BinaryExpr bop a b) p2"
      using 2 3(1) bop by (subst parseOr_loop.simps) simp
    with p1 3 show ?thesis by auto
  qed
qed (rule parseOr_conjunction, simp_all only: isConjunction.simps isExpression.simps)+

lemma parseExpression_print:
  assumes "isExpression e" and "ready u (printExpr e @ ts) p" and "ends ts"
  shows "\<exists>p'. parseExpression u p = (p', Inr e) \<and> ready u ts p'"
proof -
  from parseOr_chain [OF assms(1,2)] assms(3) obtain p' where p': "parseOr u p = parseOr_loop u e p'" "ready u ts p'" by auto
  moreover have "parseOr_loop u e p' = (p', Inr e)"
    using ready_curr [OF p'(2)] assms(3) by (subst parseOr_loop.simps) simp
  ultimately show ?thesis by (auto simp: parseExpression_def)
qed

section \<open>Statements\<close>

fun sepBy :: "token list list \<Rightarrow> token list" where
  "sepBy [] = []"
| "sepBy [x] = x"
| "sepBy (x # y # ys) = x @ symbol '','' # sepBy (y # ys)"

lemma sepBy_Cons: "sepBy (x # xs) @ ts = x @ (if xs = [] then ts else symbol '','' # sepBy xs @ ts)"
  by (cases xs) simp_all

definition typeText :: "columnType \<Rightarrow> string" where
  "typeText t = (case t of TypeInt \<Rightarrow> ''INT'' | TypeText \<Rightarrow> ''TEXT'' | TypeBool \<Rightarrow> ''BOOL'')"

definition printColumn :: "column \<Rightarrow> token list" where
  "printColumn c = [word (colName c), word (typeText (colType c))]"

definition printAlias :: "string \<Rightarrow> token list" where
  "printAlias a = (if a = [] then [] else [word a])"

definition printJoin :: "joinClause \<Rightarrow> token list" where
  "printJoin j = word ''JOIN'' # word (joinTable j) # printAlias (joinAlias j) @ word ''ON'' # printExpr (joinOn j)"

definition printWhere :: "expr option \<Rightarrow> token list" where
  "printWhere w = (case w of None \<Rightarrow> [] | Some e \<Rightarrow> word ''WHERE'' # printExpr e)"

definition printAssignment :: "assignment \<Rightarrow> token list" where
  "printAssignment a = word (asgColumn a) # symbol ''='' # printExpr (asgValue a)"

fun printStmt :: "stmt \<Rightarrow> token list" where
  "printStmt (CreateTableStmt t cols) =
     word ''CREATE'' # word ''TABLE'' # word t # symbol ''('' # sepBy (map printColumn cols) @ [symbol '')'']"
| "printStmt (CreateIndexStmt n t c) =
     word ''CREATE'' # word ''INDEX'' # printAlias n @ [word ''ON'', word t, symbol ''('', word c, symbol '')'']"
| "printStmt (InsertStmt t es) =
     word ''INSERT'' # word ''INTO'' # word t # word ''VALUES'' # symbol ''('' # sepBy (map printExpr es) @ [symbol '')'']"
| "printStmt (SelectStmt es t a js w) =
     word ''SELECT'' # sepBy (map printExpr es) @ word ''FROM'' # word t # printAlias a @ concat (map printJoin js) @ printWhere w"
| "printStmt (UpdateStmt t as w) = word ''UPDATE'' # word t # word ''SET'' # sepBy (map printAssignment as) @ printWhere w"
| "printStmt (DeleteStmt t w) = word ''DELETE'' # word ''FROM'' # word t # printWhere w"
| "printStmt BeginStmt = [word ''BEGIN'']"
| "printStmt CommitStmt = [word ''COMMIT'']"
| "printStmt RollbackStmt = [word ''ROLLBACK'']"
| "printStmt (ExplainStmt s) = word ''EXPLAIN'' # printStmt s"
| "printStmt (AnalyzeStmt t) = [word ''ANALYZE'', word t]"

abbreviation isAlias :: "string \<Rightarrow> bool" where
  "isAlias a \<equiv> a = [] \<or> isName a"

abbreviation isWhere :: "expr option \<Rightarrow> bool" where
  "isWhere w \<equiv> (case w of None \<Rightarrow> True | Some e \<Rightarrow> isExpression e)"

definition isJoin :: "joinClause \<Rightarrow> bool" where
  "isJoin j \<longleftrightarrow> isName (joinTable j) \<and> isAlias (joinAlias j) \<and> isExpression (joinOn j)"

text \<open>The statements that have a text.\<close>

fun isStatement :: "stmt \<Rightarrow> bool" where
  "isStatement (CreateTableStmt t cols) \<longleftrightarrow> isName t \<and> cols \<noteq> [] \<and> list_all (isName \<circ> colName) cols"
| "isStatement (CreateIndexStmt n t c) \<longleftrightarrow> isAlias n \<and> isName t \<and> isName c"
| "isStatement (InsertStmt t es) \<longleftrightarrow> isName t \<and> es \<noteq> [] \<and> list_all (\<lambda>e. isLiteral e \<and> isPrimary e) es"
| "isStatement (SelectStmt es t a js w) \<longleftrightarrow>
     (es = [Star] \<or> es \<noteq> [] \<and> list_all isExpression es) \<and> isName t \<and> isAlias a \<and> list_all isJoin js \<and> isWhere w"
| "isStatement (UpdateStmt t as w) \<longleftrightarrow>
     isName t \<and> as \<noteq> [] \<and> list_all (\<lambda>a. isName (asgColumn a) \<and> isExpression (asgValue a)) as \<and> isWhere w"
| "isStatement (DeleteStmt t w) \<longleftrightarrow> isName t \<and> isWhere w"
| "isStatement (ExplainStmt s) \<longleftrightarrow> isStatement s"
| "isStatement (AnalyzeStmt t) \<longleftrightarrow> isName t"
| "isStatement _ \<longleftrightarrow> True"

text \<open>One step of a parsing method after another.\<close>

lemma expect_step:
  assumes "ready u (t # ts) p" and "tokType t = typ" and "\<And>p'. ready u ts p' \<Longrightarrow> \<exists>q. f (tokValue t) p' = (q, Inr s)"
  shows "\<exists>q. andThen (expect u typ msg p) f = (q, Inr s)"
  using expect_ready [OF assms(1,2), of msg] assms(3) by auto

lemma andThen_step:
  assumes "\<exists>p'. r = (p', Inr x) \<and> ready u ts p'" and "\<And>p'. ready u ts p' \<Longrightarrow> \<exists>q. f x p' = (q, Inr s)"
  shows "\<exists>q. andThen r f = (q, Inr s)"
  using assms by auto

lemma atEnd_step: "ready u [] p \<Longrightarrow> \<exists>q. atEnd msg s p = (q, Inr s)"
  by (simp add: atEnd_def ready_def)

lemma nextType_printWhere: "nextType (printWhere w) \<in> {TokenEOF, TokenWhere}"
  by (simp add: printWhere_def split: option.splits)

lemma parseWhere_print:
  assumes "isWhere w" and "ready u (printWhere w) p"
  shows "\<exists>p'. parseWhere u p = (p', Inr w) \<and> ready u [] p'"
proof (cases w)
  case None
  then show ?thesis using assms ready_curr [OF assms(2)] by (simp add: parseWhere_def printWhere_def)
next
  case (Some e)
  with assms have r: "ready u (word ''WHERE'' # printExpr e @ []) p" by (simp add: printWhere_def)
  note 1 = ready_Cons [OF r]
  from parseExpression_print [OF _ conjunct2 [OF 1]] assms(1) Some obtain p' where
    "parseExpression u (nextToken u p) = (p', Inr e)" "ready u [] p'" by auto
  with 1 Some show ?thesis by (simp add: parseWhere_def)
qed

lemma parseColumns_print:
  assumes "cols \<noteq> []" and "list_all (isName \<circ> colName) cols" and "ready u (sepBy (map printColumn cols) @ ts) p" and "nextType ts \<noteq> TokenComma"
  shows "\<exists>p'. parseColumns u acc p = (p', Inr (acc @ cols)) \<and> ready u ts p'"
  using assms
proof (induction cols arbitrary: acc p)
  case (Cons c cols)
  define rest where "rest = (if cols = [] then ts else symbol '','' # sepBy (map printColumn cols) @ ts)"
  have "ready u (word (colName c) # word (typeText (colType c)) # rest) p"
    using Cons.prems(3) by (simp add: sepBy_Cons rest_def printColumn_def [of c])
  note 1 = ready_Cons [OF this]
  note 2 = ready_Cons [OF conjunct2 [OF 1]]
  let ?p2 = "nextToken u (nextToken u p)"
  have c: "columnTypeOf (wordType (typeText (colType c))) = Some (colType c)" "isName (colName c)"
    using Cons.prems(2) by (simp_all add: typeText_def split: columnType.splits)
  have eta: "xs @ \<lparr>colName = colName c, colType = colType c\<rparr> # ys = xs @ c # ys" for xs ys by simp
  show ?case
  proof (cases "cols = []")
    case True
    with 2 have "ready u ts ?p2" by (simp add: rest_def)
    with ready_curr [OF this] Cons.prems(4) 1 2 c True show ?thesis by (subst parseColumns.simps) (simp add: Let_def eta)
  next
    case False
    with 2 have "ready u (symbol '','' # sepBy (map printColumn cols) @ ts) ?p2" by (simp add: rest_def)
    note 3 = ready_Cons [OF this]
    from Cons.IH [OF False _ conjunct2 [OF 3] Cons.prems(4), of "acc @ [c]"] Cons.prems(2) obtain p' where
      "parseColumns u (acc @ [c]) (nextToken u ?p2) = (p', Inr ((acc @ [c]) @ cols))" "ready u ts p'" by auto
    with 1 2 3 c show ?thesis by (subst parseColumns.simps) (simp add: Let_def eta)
  qed
qed simp

lemma parseValues_print:
  assumes "es \<noteq> []" and "list_all (\<lambda>e. isLiteral e \<and> isPrimary e) es" and "ready u (sepBy (map printExpr es) @ ts) p"
    and "nextType ts \<notin> {TokenComma, TokenDot}"
  shows "\<exists>p'. parseValues u acc p = (p', Inr (acc @ es)) \<and> ready u ts p'"
  using assms
proof (induction es arbitrary: acc p)
  case (Cons e es)
  define rest where "rest = (if es = [] then ts else symbol '','' # sepBy (map printExpr es) @ ts)"
  have "ready u (printExpr e @ rest) p" using Cons.prems(3) by (simp add: sepBy_Cons rest_def)
  moreover have "nextType rest \<noteq> TokenDot" using Cons.prems(4) by (simp add: rest_def)
  ultimately obtain p1 where 1: "parsePrimaryExpr u p = (p1, Inr e)" "ready u rest p1"
    using parsePrimaryExpr_print [of e u rest p] Cons.prems(2) by auto
  show ?case
  proof (cases "es = []")
    case True
    with 1 have "ready u ts p1" by (simp add: rest_def)
    with ready_curr [OF this] Cons.prems(2,4) 1 True show ?thesis by (subst parseValues.simps) simp
  next
    case False
    with 1 have "ready u (symbol '','' # sepBy (map printExpr es) @ ts) p1" by (simp add: rest_def)
    note 2 = ready_Cons [OF this]
    from Cons.IH [OF False _ conjunct2 [OF 2] Cons.prems(4), of "acc @ [e]"] Cons.prems(2) obtain p' where
      "parseValues u (acc @ [e]) (nextToken u p1) = (p', Inr ((acc @ [e]) @ es))" "ready u ts p'" by auto
    with 1 2 Cons.prems(2) show ?thesis by (subst parseValues.simps) simp
  qed
qed simp

lemma parseProjection_print:
  assumes "es \<noteq> []" and "list_all isExpression es" and "ready u (sepBy (map printExpr es) @ ts) p"
    and "ends ts" and "nextType ts \<noteq> TokenComma"
  shows "\<exists>p'. parseProjection u acc p = (p', Inr (acc @ es)) \<and> ready u ts p'"
  using assms
proof (induction es arbitrary: acc p)
  case (Cons e es)
  define rest where "rest = (if es = [] then ts else symbol '','' # sepBy (map printExpr es) @ ts)"
  have "ready u (printExpr e @ rest) p" using Cons.prems(3) by (simp add: sepBy_Cons rest_def)
  moreover have "ends rest" using Cons.prems(4) by (cases "es = []") (simp_all add: rest_def)
  ultimately obtain p1 where 1: "parseExpression u p = (p1, Inr e)" "ready u rest p1"
    using parseExpression_print [of e u rest p] Cons.prems(2) by auto
  show ?case
  proof (cases "es = []")
    case True
    with 1 have "ready u ts p1" by (simp add: rest_def)
    with ready_curr [OF this] Cons.prems(5) 1 True show ?thesis by (subst parseProjection.simps) simp
  next
    case False
    with 1 have "ready u (symbol '','' # sepBy (map printExpr es) @ ts) p1" by (simp add: rest_def)
    note 2 = ready_Cons [OF this]
    from Cons.IH [OF False _ conjunct2 [OF 2] Cons.prems(4,5), of "acc @ [e]"] Cons.prems(2) obtain p' where
      "parseProjection u (acc @ [e]) (nextToken u p1) = (p', Inr ((acc @ [e]) @ es))" "ready u ts p'" by auto
    with 1 2 show ?thesis by (subst parseProjection.simps) simp
  qed
qed simp

lemma parseAssignments_print:
  assumes "as \<noteq> []" and "list_all (\<lambda>a. isName (asgColumn a) \<and> isExpression (asgValue a)) as"
    and "ready u (sepBy (map printAssignment as) @ ts) p" and "ends ts" and "nextType ts \<noteq> TokenComma"
  shows "\<exists>p'. parseAssignments u acc p = (p', Inr (acc @ as)) \<and> ready u ts p'"
  using assms
proof (induction as arbitrary: acc p)
  case (Cons a as)
  define rest where "rest = (if as = [] then ts else symbol '','' # sepBy (map printAssignment as) @ ts)"
  have "ready u (word (asgColumn a) # symbol ''='' # printExpr (asgValue a) @ rest) p"
    using Cons.prems(3) by (simp add: sepBy_Cons rest_def printAssignment_def [of a])
  note 1 = ready_Cons [OF this]
  note 2 = ready_Cons [OF conjunct2 [OF 1]]
  have "ends rest" using Cons.prems(4) by (cases "as = []") (simp_all add: rest_def)
  with 2 obtain p1 where
    3: "parseExpression u (nextToken u (nextToken u p)) = (p1, Inr (asgValue a))" "ready u rest p1"
    using parseExpression_print [of "asgValue a" u rest "nextToken u (nextToken u p)"] Cons.prems(2) by auto
  have a: "isName (asgColumn a)" using Cons.prems(2) by simp
  have eta: "xs @ \<lparr>asgColumn = asgColumn a, asgValue = asgValue a\<rparr> # ys = xs @ a # ys" for xs ys by simp
  show ?case
  proof (cases "as = []")
    case True
    with 3 have "ready u ts p1" by (simp add: rest_def)
    with ready_curr [OF this] Cons.prems(5) 1 2 3 a True show ?thesis by (subst parseAssignments.simps) (simp add: Let_def eta)
  next
    case False
    with 3 have "ready u (symbol '','' # sepBy (map printAssignment as) @ ts) p1" by (simp add: rest_def)
    note 4 = ready_Cons [OF this]
    from Cons.IH [OF False _ conjunct2 [OF 4] Cons.prems(4,5), of "acc @ [a]"] Cons.prems(2) obtain p' where
      "parseAssignments u (acc @ [a]) (nextToken u p1) = (p', Inr ((acc @ [a]) @ as))" "ready u ts p'" by auto
    with 1 2 3 4 a show ?thesis by (subst parseAssignments.simps) (simp add: Let_def eta)
  qed
qed simp

text \<open>An optional name in front of a token that is no name.\<close>

lemma alias_print:
  assumes "isAlias a" and "ready u (printAlias a @ ts) p" and "nextType ts \<noteq> TokenIdentifier" and "\<And>v. isName v \<Longrightarrow> ok v"
  shows "\<exists>p'. (if curr p = TokenIdentifier \<and> ok (tokValue (currTok p)) then (nextToken u p, tokValue (currTok p)) else (p, [])) = (p', a) \<and>
    ready u ts p'"
proof (cases "a = []")
  case True
  with assms ready_curr [of u ts p] show ?thesis by (simp add: printAlias_def)
next
  case False
  then have "ready u (word a # ts) p" using assms(2) by (simp add: printAlias_def)
  with ready_Cons [OF this] False assms(1,4) show ?thesis by auto
qed

lemma isName_no_keyword: "isName v \<Longrightarrow> v \<noteq> ''ON''" "isName v \<Longrightarrow> v \<noteq> ''JOIN'' \<and> v \<noteq> ''WHERE''"
  by (auto simp: isName_def)

lemma parseJoin_print:
  assumes "isJoin j" and "ready u (tl (printJoin j) @ ts) p" and "ends ts"
  shows "\<exists>p'. parseJoin u p = (p', Inr j) \<and> ready u ts p'"
proof -
  let ?e = "joinOn j"
  have j: "isName (joinTable j)" "isAlias (joinAlias j)" "isExpression ?e" using assms(1) by (simp_all add: isJoin_def)
  have "ready u (word (joinTable j) # printAlias (joinAlias j) @ word ''ON'' # printExpr ?e @ ts) p"
    using assms(2) by (simp add: printJoin_def)
  note 1 = expect_ready [OF this, of TokenIdentifier]
  from alias_print [OF j(2), of u "word ''ON'' # printExpr ?e @ ts" "nextToken u p" "\<lambda>v. v \<noteq> ''ON''"] 1 j(1) isName_no_keyword(1) obtain p1 where
    2: "(if curr (nextToken u p) = TokenIdentifier \<and> tokValue (currTok (nextToken u p)) \<noteq> ''ON''
      then (nextToken u (nextToken u p), tokValue (currTok (nextToken u p))) else (nextToken u p, [])) = (p1, joinAlias j)"
    "ready u (word ''ON'' # printExpr ?e @ ts) p1" by auto
  note 3 = ready_Cons [OF 2(2)]
  from parseExpression_print [OF j(3) conjunct2 [OF 3] assms(3)] obtain p2 where
    4: "parseExpression u (nextToken u p1) = (p2, Inr ?e)" "ready u ts p2" by auto
  have "parseJoin u p = (p2, Inr \<lparr>joinTable = joinTable j, joinAlias = joinAlias j, joinOn = ?e\<rparr>)"
    using 1 2(1) 3 4(1) j(1) by (simp add: parseJoin_def match_def)
  with 4(2) show ?thesis by simp
qed

lemma parseJoins_print:
  assumes "list_all isJoin js" and "ready u (concat (map printJoin js) @ ts) p" and "ends ts" and "nextType ts \<noteq> TokenJoin"
  shows "\<exists>p'. parseJoins u acc p = (p', Inr (acc @ js)) \<and> ready u ts p'"
  using assms
proof (induction js arbitrary: acc p)
  case Nil
  with ready_curr [of u ts p] show ?case by (subst parseJoins.simps) simp
next
  case (Cons j js)
  let ?rest = "concat (map printJoin js) @ ts"
  have "ready u (word ''JOIN'' # tl (printJoin j) @ ?rest) p" using Cons.prems(2) by (simp add: printJoin_def [of j])
  note 1 = ready_Cons [OF this]
  have "ends ?rest" using Cons.prems(3) by (cases js) (simp_all add: printJoin_def)
  from parseJoin_print [OF _ conjunct2 [OF 1] this] Cons.prems(1) obtain p1 where
    2: "parseJoin u (nextToken u p) = (p1, Inr j)" "ready u ?rest p1" by auto
  from Cons.IH [OF _ 2(2) Cons.prems(3,4), of "acc @ [j]"] Cons.prems(1) obtain p' where
    "parseJoins u (acc @ [j]) p1 = (p', Inr ((acc @ [j]) @ js))" "ready u ts p'" by auto
  with 1 2 show ?case by (subst parseJoins.simps) simp
qed

lemma parseSelectExpressions_print:
  assumes "es = [Star] \<or> es \<noteq> [] \<and> list_all isExpression es" and "ready u (sepBy (map printExpr es) @ ts) p"
    and "ends ts" and "nextType ts \<noteq> TokenComma"
  shows "\<exists>p'. parseSelectExpressions u p = (p', Inr es) \<and> ready u ts p'"
proof (cases "es = [Star]")
  case True
  then have "ready u (symbol ''*'' # ts) p" using assms(2) by simp
  from ready_Cons [OF this] True show ?thesis by (simp add: parseSelectExpressions_def)
next
  case False
  with assms(1) have es: "es \<noteq> []" "list_all isExpression es" by auto
  from parseProjection_print [OF es assms(2-4), of "[]"] obtain p' where
    p': "parseProjection u [] p = (p', Inr es)" "ready u ts p'" by auto
  have "curr p \<noteq> TokenStar"
  proof
    assume "curr p = TokenStar"
    then have "parsePrimaryExpr u p = (p, unexpected ''expected expression primary element, got %q'' p)" by (simp add: parsePrimaryExpr_def)
    then have "parseExpression u p = (p, unexpected ''expected expression primary element, got %q'' p)"
      by (simp add: parseExpression_def parseOr_def parseAnd_def parseComparison_def parseAdditive_def unexpected_def)
    then have "parseProjection u [] p = (p, Inl (wrapf ''failed to parse select expression: %w'' []
        (Errorf ''expected expression primary element, got %q'' [ArgStr (tokValue (currTok p))])))"
      by (subst parseProjection.simps) (simp add: unexpected_def)
    with p'(1) show False by simp
  qed
  with p' es(1) show ?thesis by (simp add: parseSelectExpressions_def)
qed

lemma parseSelect_print:
  assumes "isStatement (SelectStmt es t a js w)" and "ready u (printStmt (SelectStmt es t a js w)) p"
  shows "\<exists>q. parseSelect u p = (q, Inr (SelectStmt es t a js w))"
proof -
  have st: "es = [Star] \<or> es \<noteq> [] \<and> list_all isExpression es" "isName t" "isAlias a" "list_all isJoin js" "isWhere w"
    using assms(1) by simp_all
  let ?tail = "concat (map printJoin js) @ printWhere w"
  have "ready u (sepBy (map printExpr es) @ word ''FROM'' # word t # printAlias a @ ?tail) (nextToken u p)"
    using ready_Cons [of u "word ''SELECT''"] assms(2) by simp
  from parseSelectExpressions_print [OF st(1) this] obtain p1 where
    1: "parseSelectExpressions u (nextToken u p) = (p1, Inr es)" "ready u (word ''FROM'' # word t # printAlias a @ ?tail) p1" by auto
  note 2 = expect_ready [OF 1(2), of TokenFrom]
  note 3 = expect_ready [OF conjunct2 [OF 2], of TokenIdentifier]
  have "nextType ?tail \<noteq> TokenIdentifier" using nextType_printWhere [of w] by (cases js) (auto simp: printJoin_def)
  from alias_print [OF st(3) _ this, of u "nextToken u (nextToken u p1)" "\<lambda>v. v \<noteq> ''JOIN'' \<and> v \<noteq> ''WHERE''"] 2 3 st(2) isName_no_keyword(2)
  obtain p2 where 4: "(if curr (nextToken u (nextToken u p1)) = TokenIdentifier \<and> tokValue (currTok (nextToken u (nextToken u p1))) \<noteq> ''JOIN'' \<and>
        tokValue (currTok (nextToken u (nextToken u p1))) \<noteq> ''WHERE''
      then (nextToken u (nextToken u (nextToken u p1)), tokValue (currTok (nextToken u (nextToken u p1))))
      else (nextToken u (nextToken u p1), [])) = (p2, a)" "ready u ?tail p2" by auto
  have "ends (printWhere w)" "nextType (printWhere w) \<noteq> TokenJoin" using nextType_printWhere [of w] by auto
  from parseJoins_print [OF st(4) 4(2) this, of "[]"] obtain p3 where
    5: "parseJoins u [] p2 = (p3, Inr js)" "ready u (printWhere w) p3" by auto
  from parseWhere_print [OF st(5) 5(2)] obtain p4 where 6: "parseWhere u p3 = (p4, Inr w)" "ready u [] p4" by blast
  from atEnd_step [OF 6(2), of "''unexpected token at end of SELECT statement: %q''" "SelectStmt es t a js w"] 1 2 3 4(1) 5(1) 6(1) st(2)
  show ?thesis by (simp add: parseSelect_def)
qed

lemma parseDelete_print:
  assumes "isStatement (DeleteStmt t w)" and "ready u (printStmt (DeleteStmt t w)) p"
  shows "\<exists>q. parseDelete u p = (q, Inr (DeleteStmt t w))"
proof -
  have "ready u (word ''FROM'' # word t # printWhere w) (nextToken u p)" using ready_Cons [of u "word ''DELETE''"] assms(2) by simp
  note 1 = expect_ready [OF this, of TokenFrom]
  note 2 = expect_ready [OF conjunct2 [OF 1], of TokenIdentifier]
  let ?p = "nextToken u (nextToken u (nextToken u p))"
  have "ready u (printWhere w) ?p" "isName t" using 1 2 assms(1) by auto
  from parseWhere_print [OF _ this(1)] assms(1) obtain p1 where 3: "parseWhere u ?p = (p1, Inr w)" "ready u [] p1" by auto
  from atEnd_step [OF 3(2), of "''unexpected tokens after DELETE statement: %q''" "DeleteStmt t w"] 1 2 3(1) \<open>isName t\<close>
  show ?thesis by (simp add: parseDelete_def)
qed

lemma parseUpdate_print:
  assumes "isStatement (UpdateStmt t as w)" and "ready u (printStmt (UpdateStmt t as w)) p"
  shows "\<exists>q. parseUpdate u p = (q, Inr (UpdateStmt t as w))"
proof -
  have st: "isName t" "as \<noteq> []" "list_all (\<lambda>a. isName (asgColumn a) \<and> isExpression (asgValue a)) as" "isWhere w" using assms(1) by simp_all
  have "ready u (word t # word ''SET'' # sepBy (map printAssignment as) @ printWhere w) (nextToken u p)"
    using ready_Cons [of u "word ''UPDATE''"] assms(2) by simp
  note 1 = expect_ready [OF this, of TokenIdentifier]
  note 2 = expect_ready [OF conjunct2 [OF 1], of TokenSet]
  let ?p = "nextToken u (nextToken u (nextToken u p))"
  have r: "ready u (sepBy (map printAssignment as) @ printWhere w) ?p" using 1 2 st(1) by auto
  have "ends (printWhere w)" "nextType (printWhere w) \<noteq> TokenComma" using nextType_printWhere [of w] by auto
  from parseAssignments_print [OF st(2,3) r this, of "[]"] obtain p1 where
    3: "parseAssignments u [] ?p = (p1, Inr as)" "ready u (printWhere w) p1" by auto
  from parseWhere_print [OF st(4) 3(2)] obtain p2 where 4: "parseWhere u p1 = (p2, Inr w)" "ready u [] p2" by blast
  from atEnd_step [OF 4(2), of "''unexpected tokens after UPDATE statement: %q''" "UpdateStmt t as w"] 1 2 3(1) 4(1) st(1)
  show ?thesis by (simp add: parseUpdate_def)
qed

lemma parseInsert_print:
  assumes "isStatement (InsertStmt t es)" and "ready u (printStmt (InsertStmt t es)) p"
  shows "\<exists>q. parseInsert u p = (q, Inr (InsertStmt t es))"
proof -
  have st: "isName t" "es \<noteq> []" "list_all (\<lambda>e. isLiteral e \<and> isPrimary e) es" using assms(1) by simp_all
  have "ready u (word ''INTO'' # word t # word ''VALUES'' # symbol ''('' # sepBy (map printExpr es) @ [symbol '')'']) (nextToken u p)"
    using ready_Cons [of u "word ''INSERT''"] assms(2) by simp
  note 1 = expect_ready [OF this, of TokenInto]
  note 2 = expect_ready [OF conjunct2 [OF 1], of TokenIdentifier]
  note 3 = expect_ready [OF conjunct2 [OF 2], of TokenValues]
  note 4 = expect_ready [OF conjunct2 [OF 3], of TokenOpenParen]
  let ?p = "nextToken u (nextToken u (nextToken u (nextToken u (nextToken u p))))"
  have r: "ready u (sepBy (map printExpr es) @ [symbol '')'']) ?p" using 1 2 3 4 st(1) by auto
  from parseValues_print [OF st(2,3) r, of "[]"] obtain p1 where
    5: "parseValues u [] ?p = (p1, Inr es)" "ready u [symbol '')''] p1" by auto
  note 6 = expect_ready [OF 5(2), of TokenCloseParen]
  from atEnd_step [OF conjunct2 [OF 6], of "''unexpected tokens after statement end: %q''" "InsertStmt t es"] 1 2 3 4 5(1) 6 st(1)
  show ?thesis by (simp add: parseInsert_def)
qed

lemma parseCreateTable_print:
  assumes "isStatement (CreateTableStmt t cols)" and "ready u (printStmt (CreateTableStmt t cols)) p"
  shows "\<exists>q. parseCreateTable u p = (q, Inr (CreateTableStmt t cols))"
proof -
  have st: "isName t" "cols \<noteq> []" "list_all (isName \<circ> colName) cols" using assms(1) by simp_all
  have "ready u (word ''TABLE'' # word t # symbol ''('' # sepBy (map printColumn cols) @ [symbol '')'']) (nextToken u p)"
    using ready_Cons [of u "word ''CREATE''"] assms(2) by simp
  note 1 = expect_ready [OF this, of TokenTable]
  note 2 = expect_ready [OF conjunct2 [OF 1], of TokenIdentifier]
  note 3 = expect_ready [OF conjunct2 [OF 2], of TokenOpenParen]
  let ?p = "nextToken u (nextToken u (nextToken u (nextToken u p)))"
  have r: "ready u (sepBy (map printColumn cols) @ [symbol '')'']) ?p" using 1 2 3 st(1) by auto
  from parseColumns_print [OF st(2,3) r, of "[]"] obtain p1 where
    4: "parseColumns u [] ?p = (p1, Inr cols)" "ready u [symbol '')''] p1" by auto
  note 5 = expect_ready [OF 4(2), of TokenCloseParen]
  from atEnd_step [OF conjunct2 [OF 5], of "''unexpected tokens after statement end: %q''" "CreateTableStmt t cols"] 1 2 3 4(1) 5 st(1)
  show ?thesis by (simp add: parseCreateTable_def)
qed

lemma parseCreateIndex_print:
  assumes "isStatement (CreateIndexStmt n t c)" and "ready u (printStmt (CreateIndexStmt n t c)) p"
  shows "\<exists>q. parseCreateIndex u p = (q, Inr (CreateIndexStmt n t c))"
proof -
  have st: "isAlias n" "isName t" "isName c" using assms(1) by simp_all
  let ?rest = "[word ''ON'', word t, symbol ''('', word c, symbol '')'']" and ?p = "nextToken u (nextToken u p)"
  have "ready u (printAlias n @ ?rest) ?p"
    using ready_Cons [of u "word ''CREATE''"] ready_Cons [of u "word ''INDEX''"] assms(2) by simp
  then have "\<exists>p'. (if curr ?p \<noteq> TokenOn then expect u TokenIdentifier ''expected index name or ON keyword, got %q'' ?p else (?p, Inr [])) =
      (p', Inr n) \<and> ready u ?rest p'"
    using st(1) expect_ready [of u "word n" ?rest ?p TokenIdentifier] ready_curr [of u "word n # ?rest" ?p] ready_curr [of u ?rest ?p]
    by (cases "n = []") (auto simp: printAlias_def)
  then obtain p1 where 1: "(if curr ?p \<noteq> TokenOn then expect u TokenIdentifier ''expected index name or ON keyword, got %q'' ?p else (?p, Inr [])) =
      (p1, Inr n)" "ready u ?rest p1" by blast
  note 2 = expect_ready [OF 1(2), of TokenOn]
  note 3 = expect_ready [OF conjunct2 [OF 2], of TokenIdentifier]
  note 4 = expect_ready [OF conjunct2 [OF 3], of TokenOpenParen]
  note 5 = expect_ready [OF conjunct2 [OF 4], of TokenIdentifier]
  note 6 = expect_ready [OF conjunct2 [OF 5], of TokenCloseParen]
  from atEnd_step [OF conjunct2 [OF 6], of "''unexpected tokens after CREATE INDEX statement: %q''" "CreateIndexStmt n t c"] 1(1) 2 3 4 5 6 st(2,3)
  show ?thesis by (simp add: parseCreateIndex_def Let_def)
qed

lemma parseStatement_print:
  "isStatement s \<Longrightarrow> ready u (printStmt s) p \<Longrightarrow> \<exists>q. parseStatement u p = (q, Inr s)"
proof (induction s arbitrary: p)
  case (CreateTableStmt t cols)
  then have "curr p = TokenCreate" "tokType (peekTok p) = TokenTable" by (simp_all add: ready_def)
  then show ?case using parseCreateTable_print [OF CreateTableStmt] by (subst parseStatement.simps) simp
next
  case (CreateIndexStmt n t c)
  then have "curr p = TokenCreate" "tokType (peekTok p) = TokenIndex" by (simp_all add: ready_def)
  then show ?case using parseCreateIndex_print [OF CreateIndexStmt] by (subst parseStatement.simps) simp
next
  case (InsertStmt t es)
  then have "curr p = TokenInsert" by (simp add: ready_def)
  then show ?case using parseInsert_print [OF InsertStmt] by (subst parseStatement.simps) simp
next
  case (SelectStmt es t a js w)
  then have "curr p = TokenSelect" by (simp add: ready_def)
  then show ?case using parseSelect_print [OF SelectStmt] by (subst parseStatement.simps) simp
next
  case (UpdateStmt t as w)
  then have "curr p = TokenUpdate" by (simp add: ready_def)
  then show ?case using parseUpdate_print [OF UpdateStmt] by (subst parseStatement.simps) simp
next
  case (DeleteStmt t w)
  then have "curr p = TokenDelete" by (simp add: ready_def)
  then show ?case using parseDelete_print [OF DeleteStmt] by (subst parseStatement.simps) simp
next
  case BeginStmt
  then have "ready u [] (nextToken u p)" "curr p = TokenBegin" using ready_Cons [of u "word ''BEGIN''" "[]" p] by auto
  then show ?case by (subst parseStatement.simps) (simp add: parseBegin_def skipTransaction_def atEnd_def ready_def)
next
  case CommitStmt
  then have "ready u [] (nextToken u p)" "curr p = TokenCommit" using ready_Cons [of u "word ''COMMIT''" "[]" p] by auto
  then show ?case by (subst parseStatement.simps) (simp add: parseCommit_def skipTransaction_def atEnd_def ready_def)
next
  case RollbackStmt
  then have "ready u [] (nextToken u p)" "curr p = TokenRollback" using ready_Cons [of u "word ''ROLLBACK''" "[]" p] by auto
  then show ?case by (subst parseStatement.simps) (simp add: parseRollback_def skipTransaction_def atEnd_def ready_def)
next
  case (ExplainStmt s)
  then have 1: "curr p = TokenExplain" "ready u (printStmt s) (nextToken u p)" using ready_Cons [of u "word ''EXPLAIN''" "printStmt s" p] by auto
  from ExplainStmt.IH [OF _ 1(2)] ExplainStmt.prems(1) obtain q where "parseStatement u (nextToken u p) = (q, Inr s)" by auto
  with 1(1) show ?case by (subst parseStatement.simps) simp
next
  case (AnalyzeStmt t)
  then have 1: "curr p = TokenAnalyze" "ready u [word t] (nextToken u p)" "isName t" using ready_Cons [of u "word ''ANALYZE''" "[word t]" p] by auto
  note 2 = expect_ready [OF 1(2), of TokenIdentifier]
  have "curr (nextToken u p) = TokenIdentifier" using ready_curr [OF 1(2)] 1(3) by simp
  with 1 2 atEnd_step [of u "nextToken u (nextToken u p)" "''unexpected token at end of ANALYZE statement: %q''" "AnalyzeStmt t"] show ?case
    by (subst parseStatement.simps) (simp add: parseAnalyze_def)
qed

section \<open>The text of a statement\<close>

lemma lexable_word [simp]: "isWord v \<Longrightarrow> lexable (word v)"
  by (simp add: lexable_def)

lemma isWord_name [simp]: "isName v \<Longrightarrow> isWord v"
  by (simp add: isName_def)

lemma isWord_keywords [simp]:
  "isWord ''AND''" "isWord ''OR''" "isWord ''true''" "isWord ''false''" "isWord ''SELECT''" "isWord ''FROM''" "isWord ''WHERE''"
  "isWord ''JOIN''" "isWord ''ON''" "isWord ''CREATE''" "isWord ''TABLE''" "isWord ''INDEX''" "isWord ''INSERT''" "isWord ''INTO''"
  "isWord ''VALUES''" "isWord ''UPDATE''" "isWord ''SET''" "isWord ''DELETE''" "isWord ''BEGIN''" "isWord ''COMMIT''" "isWord ''ROLLBACK''"
  "isWord ''EXPLAIN''" "isWord ''ANALYZE''" "isWord ''INT''" "isWord ''TEXT''" "isWord ''BOOL''"
  by (simp_all add: isWord_def wordStart_def wordChar_def)

lemma lexable_symbols [simp]:
  "lexable (Token TokenStar ''*'')" "lexable (Token TokenDot ''.'')" "lexable (Token TokenComma '','')"
  "lexable (Token TokenOpenParen ''('')" "lexable (Token TokenCloseParen '')'')" "lexable (Token TokenEq ''='')"
  "lexable (Token TokenNe ''<>'')" "lexable (Token TokenLt ''<'')" "lexable (Token TokenLe ''<='')"
  "lexable (Token TokenGt ''>'')" "lexable (Token TokenGe ''>='')" "lexable (Token TokenPlus ''+'')" "lexable (Token TokenMinus ''-'')"
  by (simp_all add: lexable_def symbols_def)

lemma lexable_name [simp]: "isName v \<Longrightarrow> lexable (Token TokenIdentifier v)"
  by (simp add: lexable_def)

lemma lexable_op [simp]: "lexable (opToken bop)"
  by (cases bop) (simp_all add: opToken_def)

lemma lexable_literal: "isConstant v \<Longrightarrow> lexable (printLiteral v)"
proof -
  assume "isConstant v"
  then consider i where "v = NewInt i" "0 \<le> sint i" | t where "v = NewText t" "isText t" | b where "v = NewBool b"
    by (auto simp: isConstant_def)
  then show ?thesis
    by cases (auto simp: printLiteral_def lexable_def dec_int_def show_bool_def isNumber_dec_nat)
qed

lemma lexable_primary: "isPrimary e \<Longrightarrow> list_all lexable (printExpr e)"
  by (cases e) (auto simp: lexable_literal)

lemma lexable_additive: "isAdditive e \<Longrightarrow> list_all lexable (printExpr e)"
  by (induction e) (auto simp: lexable_literal lexable_primary)

lemma lexable_comparison: "isComparison e \<Longrightarrow> list_all lexable (printExpr e)"
  by (cases e) (auto simp: lexable_literal lexable_primary lexable_additive)

lemma lexable_conjunction: "isConjunction e \<Longrightarrow> list_all lexable (printExpr e)"
  by (induction e) (auto simp: lexable_literal dest: lexable_comparison lexable_additive lexable_primary)

lemma lexable_expr: "isExpression e \<Longrightarrow> list_all lexable (printExpr e)"
  by (induction e) (auto simp: lexable_literal dest: lexable_conjunction lexable_comparison lexable_additive lexable_primary)

lemma lexable_sepBy: "list_all (list_all lexable) xs \<Longrightarrow> list_all lexable (sepBy xs)"
  by (induction xs rule: sepBy.induct) auto

lemma lexable_list: "(\<And>x. x \<in> set xs \<Longrightarrow> list_all lexable (f x)) \<Longrightarrow> list_all lexable (sepBy (map f xs))"
  by (rule lexable_sepBy) (simp add: list_all_iff)

lemma lexable_alias: "isAlias a \<Longrightarrow> list_all lexable (printAlias a)"
  by (auto simp: printAlias_def)

lemma lexable_where: "isWhere w \<Longrightarrow> list_all lexable (printWhere w)"
  by (auto simp: printWhere_def lexable_expr split: option.splits)

lemma lexable_joins: "list_all isJoin js \<Longrightarrow> list_all lexable (concat (map printJoin js))"
  by (induction js) (auto simp: printJoin_def isJoin_def lexable_expr printAlias_def)

lemma lexable_stmt: "isStatement s \<Longrightarrow> list_all lexable (printStmt s)"
proof (induction s)
  case (CreateTableStmt t cols)
  then have "list_all lexable (sepBy (map printColumn cols))"
    by (intro lexable_list) (auto simp: printColumn_def typeText_def list_all_iff split: columnType.splits)
  with CreateTableStmt show ?case by simp
next
  case (InsertStmt t es)
  then have "list_all lexable (sepBy (map printExpr es))" by (intro lexable_list lexable_primary) (auto simp: list_all_iff)
  with InsertStmt show ?case by simp
next
  case (SelectStmt es t a js w)
  then have "list_all lexable (sepBy (map printExpr es))" by (intro lexable_list) (auto simp: list_all_iff lexable_expr [unfolded list_all_iff])
  with SelectStmt show ?case by (simp add: lexable_alias lexable_where lexable_joins)
next
  case (UpdateStmt t as w)
  then have "list_all lexable (sepBy (map printAssignment as))"
    by (intro lexable_list) (auto simp: printAssignment_def list_all_iff lexable_expr [unfolded list_all_iff])
  with UpdateStmt show ?case by (simp add: lexable_where)
qed (auto simp: lexable_alias lexable_where)

text \<open>C28: Parsing a printed statement.  For every statement whose names and texts are ASCII and could be written in the
  language, whatever its nesting of AND, OR, comparisons and sums, the parser makes of its text, with
  the tokens separated by spaces, that very statement.\<close>

theorem parse_print:
  assumes "isStatement s"
  shows "Parse u (showTokens (printStmt s)) = Inr s"
proof -
  from parseStatement_print [OF assms ready_NewParser [OF lexable_stmt [OF assms], of u]] show ?thesis by (auto simp: Parse_def)
qed

definition demoStmt :: stmt where
  "demoStmt = SelectStmt [ColumnRef [] ''id''] ''users'' [] []
     (Some (BinaryExpr OpOr
       (BinaryExpr OpEq (ColumnRef [] ''id'') (Literal (NewInt 7)))
       (BinaryExpr OpAnd (Literal (NewBool True)) (BinaryExpr OpLt (ColumnRef [] ''id'') (Literal (NewInt 3))))))"

lemma demoStmt_ok: "isStatement demoStmt"
proof -
  have "wordType ''id'' = TokenIdentifier" "wordType ''users'' = TokenIdentifier" by code_simp+
  then show ?thesis
    by (simp add: demoStmt_def isName_def isWord_def wordStart_def wordChar_def isConstant_def NewInt_def NewBool_def)
qed

theorem parse_print_witness: "\<forall>u. Parse u (showTokens (printStmt demoStmt)) = Inr demoStmt"
  using parse_print [OF demoStmt_ok] by blast

end
