(* ===== verification/Float64.thy ===== *)
theory Float64
  imports Complex_Main "HOL-Library.Word" "HOL-Library.Signed_Division"
begin

text \<open>
  Go's \<^verbatim>\<open>float64\<close>, as far as the planner uses it: IEEE 754 double precision with rounding to nearest, ties
  to even, as rational numbers with infinities and NaN.  The sign of zero is not represented; the
  program divides by positive numbers only.
\<close>

datatype float64 = Fin rat | PosInf | NegInf | NaN

fun floorLog2 :: "nat \<Rightarrow> nat" where
  "floorLog2 n = (if n < 2 then 0 else Suc (floorLog2 (n div 2)))"

declare floorLog2.simps [simp del]

definition pow2 :: "int \<Rightarrow> rat" where
  "pow2 e = (if 0 \<le> e then 2 ^ nat e else 1 / 2 ^ nat (- e))"

text \<open>The exponent of the leading bit of a positive rational.\<close>

definition expo :: "rat \<Rightarrow> int" where
  "expo q = (case quotient_of q of (n, d) \<Rightarrow>
     let e = int (floorLog2 (nat n)) - int (floorLog2 (nat d)) in if pow2 e \<le> q then e else e - 1)"

definition roundHalfEven :: "rat \<Rightarrow> int" where
  "roundHalfEven x =
     (let f = \<lfloor>x\<rfloor>; d = x - of_int f in if d < 1 / 2 then f else if d > 1 / 2 then f + 1 else if even f then f else f + 1)"

definition fround :: "rat \<Rightarrow> float64" where
  "fround q =
     (if q = 0 then Fin 0
      else let u = pow2 (max (expo \<bar>q\<bar> - 52) (- 1074)); r = of_int (roundHalfEven (q / u)) * u
        in if r \<ge> 2 ^ 1024 then PosInf else if r \<le> - (2 ^ 1024) then NegInf else Fin r)"

fun fadd :: "float64 \<Rightarrow> float64 \<Rightarrow> float64" where
  "fadd (Fin a) (Fin b) = fround (a + b)"
| "fadd NaN _ = NaN"
| "fadd _ NaN = NaN"
| "fadd PosInf NegInf = NaN"
| "fadd NegInf PosInf = NaN"
| "fadd PosInf _ = PosInf"
| "fadd _ PosInf = PosInf"
| "fadd NegInf _ = NegInf"
| "fadd _ NegInf = NegInf"

fun fneg :: "float64 \<Rightarrow> float64" where
  "fneg (Fin a) = Fin (- a)"
| "fneg PosInf = NegInf"
| "fneg NegInf = PosInf"
| "fneg NaN = NaN"

definition fsub :: "float64 \<Rightarrow> float64 \<Rightarrow> float64" where
  "fsub a b = fadd a (fneg b)"

fun fmul :: "float64 \<Rightarrow> float64 \<Rightarrow> float64" where
  "fmul (Fin a) (Fin b) = fround (a * b)"
| "fmul NaN _ = NaN"
| "fmul _ NaN = NaN"
| "fmul (Fin a) PosInf = (if a = 0 then NaN else if a > 0 then PosInf else NegInf)"
| "fmul (Fin a) NegInf = (if a = 0 then NaN else if a > 0 then NegInf else PosInf)"
| "fmul PosInf (Fin a) = (if a = 0 then NaN else if a > 0 then PosInf else NegInf)"
| "fmul NegInf (Fin a) = (if a = 0 then NaN else if a > 0 then NegInf else PosInf)"
| "fmul PosInf PosInf = PosInf"
| "fmul NegInf NegInf = PosInf"
| "fmul PosInf NegInf = NegInf"
| "fmul NegInf PosInf = NegInf"

text \<open>\<^verbatim>\<open>1.0 / x\<close> for a positive finite number.\<close>

fun frecip :: "float64 \<Rightarrow> float64" where
  "frecip (Fin a) = fround (1 / a)"
| "frecip NaN = NaN"
| "frecip _ = Fin 0"

fun fless :: "float64 \<Rightarrow> float64 \<Rightarrow> bool" where
  "fless (Fin a) (Fin b) = (a < b)"
| "fless (Fin a) PosInf = True"
| "fless NegInf (Fin b) = True"
| "fless NegInf PosInf = True"
| "fless _ _ = False"

definition MaxFloat64 :: float64 where
  "MaxFloat64 = Fin ((2 - 1 / 2 ^ 52) * 2 ^ 1023)"

text \<open>\<^verbatim>\<open>float64(n)\<close> and \<^verbatim>\<open>int64(x)\<close>.  The conversion of a number that \<^verbatim>\<open>int64\<close> cannot represent depends on the
  machine; on amd64 it is the least \<^verbatim>\<open>int64\<close>.\<close>

definition floatOfInt :: "64 word \<Rightarrow> float64" where
  "floatOfInt w = fround (of_int (sint w))"

fun intOfFloat :: "float64 \<Rightarrow> 64 word" where
  "intOfFloat (Fin a) =
     (let t = (if a \<ge> 0 then \<lfloor>a\<rfloor> else \<lceil>a\<rceil>) in if - (2 ^ 63) \<le> t \<and> t < 2 ^ 63 then word_of_int t else word_of_int (- (2 ^ 63)))"
| "intOfFloat _ = word_of_int (- (2 ^ 63))"

section \<open>Order and rounding\<close>

lemma fless_irrefl: "\<not> fless x x"
  by (cases x) auto

lemma fless_trans: "fless x y \<Longrightarrow> fless y z \<Longrightarrow> fless x z"
  by (cases x; cases y; cases z) auto

lemma floorLog2_mono: "m \<le> n \<Longrightarrow> floorLog2 m \<le> floorLog2 n"
proof (induction m arbitrary: n rule: floorLog2.induct)
  case (1 m)
  show ?case
  proof (cases "m < 2")
    case True
    then show ?thesis by (simp add: floorLog2.simps [of m])
  next
    case False
    with "1.IH" [of "n div 2"] "1.prems" show ?thesis by (simp add: floorLog2.simps [of m] floorLog2.simps [of n] div_le_mono)
  qed
qed

lemma expo_unit:
  assumes "0 < q" and "q \<le> 1"
  shows "expo q \<le> 0"
proof -
  obtain n d where nd: "quotient_of q = (n, d)" by force
  have d: "0 < d" using quotient_of_denom_pos [OF nd] .
  have "q = of_int n / of_int d" using quotient_of_div [OF nd] .
  with assms d have "n \<le> d" by (simp add: divide_le_eq)
  then have "floorLog2 (nat n) \<le> floorLog2 (nat d)" by (intro floorLog2_mono) simp
  then show ?thesis by (simp add: expo_def nd Let_def)
qed

lemma roundHalfEven_bounds: "0 \<le> x \<Longrightarrow> 0 \<le> roundHalfEven x" "x \<le> of_int n \<Longrightarrow> roundHalfEven x \<le> n"
proof -
  show "0 \<le> x \<Longrightarrow> 0 \<le> roundHalfEven x" by (auto simp: roundHalfEven_def Let_def)
  assume x: "x \<le> of_int n"
  then have f: "\<lfloor>x\<rfloor> \<le> n" by linarith
  show "roundHalfEven x \<le> n"
  proof (cases "\<lfloor>x\<rfloor> = n")
    case True
    with x have "x = of_int n" by linarith
    then show ?thesis by (simp add: roundHalfEven_def)
  next
    case False
    with f show ?thesis by (auto simp: roundHalfEven_def Let_def)
  qed
qed

text \<open>Rounding stays inside the unit interval.\<close>

definition in_unit :: "float64 \<Rightarrow> bool" where
  "in_unit x \<longleftrightarrow> (\<exists>q. x = Fin q \<and> 0 \<le> q \<and> q \<le> 1)"

lemma fround_unit:
  assumes "0 \<le> q" and "q \<le> 1"
  shows "in_unit (fround q)"
proof (cases "q = 0")
  case False
  with assms have q: "0 < q" "\<bar>q\<bar> = q" by auto
  define k where "k = nat (- max (expo q - 52) (- 1074))"
  have u: "pow2 (max (expo q - 52) (- 1074)) = 1 / 2 ^ k" using expo_unit [OF q(1) assms(2)] by (auto simp: pow2_def k_def)
  let ?r = "roundHalfEven (q * 2 ^ k)"
  have "q * 2 ^ k \<le> of_int (2 ^ k)" using assms(2) by simp
  then have r: "0 \<le> ?r" "?r \<le> 2 ^ k" using roundHalfEven_bounds assms(1) by simp_all
  then have "(of_int ?r :: rat) \<le> of_int (2 ^ k)" by (subst of_int_le_iff)
  then have le: "(of_int ?r :: rat) / 2 ^ k \<le> 1" by simp
  moreover have ge: "0 \<le> (of_int ?r :: rat) / 2 ^ k" using r(1) by simp
  moreover have "\<not> (2 :: rat) ^ 1024 \<le> of_int ?r / 2 ^ k" "\<not> of_int ?r / 2 ^ k \<le> - ((2 :: rat) ^ 1024)"
    using le ge by (auto simp: not_le intro: le_less_trans [OF le] less_le_trans [OF _ ge])
  ultimately show ?thesis using False by (simp add: fround_def q(2) u in_unit_def)
qed (simp add: fround_def in_unit_def)

lemma floorLog2_bounds: "0 < n \<Longrightarrow> 2 ^ floorLog2 n \<le> n" "n < 2 * 2 ^ floorLog2 n"
proof -
  show "0 < n \<Longrightarrow> 2 ^ floorLog2 n \<le> n"
  proof (induction n rule: floorLog2.induct)
    case (1 n)
    then show ?case by (cases "n < 2") (auto simp: floorLog2.simps [of n])
  qed
  show "n < 2 * 2 ^ floorLog2 n"
  proof (induction n rule: floorLog2.induct)
    case (1 n)
    then show ?case by (cases "n < 2") (auto simp: floorLog2.simps [of n])
  qed
qed

lemma pow2_shift: "pow2 (int e - 52) * 2 ^ 52 = 2 ^ e"
proof (cases "52 \<le> e")
  case True
  then have "(2 :: rat) ^ e = 2 ^ (e - 52) * 2 ^ 52" by (simp only: power_add [symmetric]) simp
  with True show ?thesis by (simp add: pow2_def nat_diff_distrib)
next
  case False
  then have "(2 :: rat) ^ 52 = 2 ^ (52 - e) * 2 ^ e" by (simp only: power_add [symmetric]) simp
  moreover have "nat (52 - int e) = 52 - e" by simp
  ultimately show ?thesis using False by (simp only: pow2_def) (simp add: field_simps)
qed

lemma pow2_pos: "0 < pow2 e"
  by (simp add: pow2_def)

lemma roundHalfEven_ge: "of_int n \<le> x \<Longrightarrow> n \<le> roundHalfEven x"
proof -
  assume "of_int n \<le> x"
  then have "n \<le> \<lfloor>x\<rfloor>" by (simp add: le_floor_iff)
  then show ?thesis by (auto simp: roundHalfEven_def Let_def)
qed

lemma floatOfInt_pos:
  assumes "0 < sint n"
  shows "\<exists>q. floatOfInt n = Fin q \<and> 1 \<le> q"
proof -
  define m where "m = nat (sint n)"
  define e where "e = floorLog2 m"
  have m: "0 < m" "(of_int (sint n) :: rat) = of_nat m" "m < 2 ^ 63"
    using assms sint_lt [of n] by (auto simp: m_def nat_less_iff)
  note lo = floorLog2_bounds(1) [OF m(1), folded e_def] and hi = floorLog2_bounds(2) [of m, folded e_def]
  have e: "e < 63" by (rule power_less_imp_less_exp [OF _ le_less_trans [OF lo m(3)]]) simp
  have q: "(2 :: rat) ^ e \<le> of_nat m" "(of_nat m :: rat) \<le> 2 * 2 ^ e"
    using lo hi by (metis of_nat_le_iff of_nat_numeral of_nat_power, metis less_imp_le of_nat_le_iff of_nat_mult of_nat_numeral of_nat_power)
  have "quotient_of (of_int (int m)) = (int m, 1)" by (rule quotient_of_int [unfolded Rat.of_int_def])
  with q(1) have x: "expo (of_nat m) = int e" by (simp add: expo_def e_def floorLog2.simps [of "Suc 0"] pow2_def Let_def)
  define u where "u = pow2 (int e - 52)"
  have u: "0 < u" "u * 2 ^ 52 = 2 ^ e" by (simp_all only: u_def pow2_pos pow2_shift)
  let ?r = "roundHalfEven (of_nat m / u)"
  have "of_int (2 ^ 52) * u \<le> of_nat m" "of_nat m \<le> of_int (2 * 2 ^ 52) * u"
    using q u(2) by (simp_all only: of_int_power of_int_mult of_int_numeral mult.assoc mult.commute [of _ u])
  then have "2 ^ 52 \<le> ?r" "?r \<le> 2 * 2 ^ 52"
    by (simp_all only: roundHalfEven_ge roundHalfEven_bounds(2) pos_le_divide_eq [OF u(1)] pos_divide_le_eq [OF u(1)])
  then have "of_int (2 ^ 52) * u \<le> of_int ?r * u" "of_int ?r * u \<le> of_int (2 * 2 ^ 52) * u"
    by (simp_all only: of_int_le_iff mult_le_cancel_right_pos [OF u(1)])
  then have r: "2 ^ e \<le> of_int ?r * u" "of_int ?r * u \<le> 2 * 2 ^ e"
    using u(2) by (simp_all only: of_int_power of_int_mult of_int_numeral mult.assoc mult.commute [of _ u])
  have "(1 :: rat) \<le> 2 ^ e" by simp
  with r(1) have one: "1 \<le> of_int ?r * u" by linarith
  have "(2 :: rat) * 2 ^ e < 2 ^ 1024" unfolding power_Suc [symmetric] by (rule power_strict_increasing) (use e in simp_all)
  with r(2) have lt: "of_int ?r * u < 2 ^ 1024" by linarith
  have "\<not> of_int ?r * u \<le> - (2 ^ 1024)"
    using one neg_le_0_iff_le [of "(2 :: rat) ^ 1024"] zero_le_power [of "2 :: rat" 1024] by linarith
  moreover have "max (int e - 52) (- 1074) = int e - 52" by simp
  ultimately have "fround (of_nat m) = Fin (of_int ?r * u)" using m(1) lt
    by (simp only: fround_def x abs_of_nat Let_def u_def [symmetric] not_le [symmetric] if_False of_nat_eq_0_iff) simp
  with one show ?thesis by (simp only: floatOfInt_def m(2)) blast
qed

lemma frecip_unit: "0 < sint n \<Longrightarrow> in_unit (frecip (floatOfInt n))"
  by (drule floatOfInt_pos) (auto intro!: fround_unit)

lemma fsub_unit: "in_unit x \<Longrightarrow> in_unit (fsub (Fin 1) x)"
  by (auto simp: in_unit_def fsub_def intro!: fround_unit [unfolded in_unit_def])

lemma fmul_unit: "in_unit x \<Longrightarrow> in_unit y \<Longrightarrow> in_unit (fmul x y)"
  by (auto simp: in_unit_def intro!: fround_unit [unfolded in_unit_def] mult_le_one)

lemma half_unit: "in_unit (Fin (1 / 2))"
  unfolding in_unit_def by (rule exI [of _ "1 / 2"]) simp

end
