(* ===== verification/Planner.thy ===== *)
theory Planner
  imports Executor Float64 "HOL-Library.List_Lexorder" "HOL-Library.Char_ord" "HOL-Library.Multiset"
begin

text \<open>
  The cost-based planner (\<^verbatim>\<open>src/executor/planner\<close>): cardinality estimates, the cost model, and the search
  for a join order.  Row counts are \<^verbatim>\<open>int64\<close> and wrap around.  The order in which Go iterates over a map of
  tables is an input.
\<close>

section \<open>Plans and costs\<close>

text \<open>A \<^verbatim>\<open>Plan\<close> by its \<^verbatim>\<open>Type\<close>, with the fields that its maker sets: row count and cost first.\<close>

datatype plan =
  PlanScan "64 word" float64 string
| PlanIndexScan "64 word" float64 string
| PlanJoin "64 word" float64 plan plan "expr option"
| PlanFilter "64 word" float64 plan expr
| PlanProject "64 word" float64 plan

fun planRowCount :: "plan \<Rightarrow> 64 word" where
  "planRowCount (PlanScan n _ _) = n"
| "planRowCount (PlanIndexScan n _ _) = n"
| "planRowCount (PlanJoin n _ _ _ _) = n"
| "planRowCount (PlanFilter n _ _ _) = n"
| "planRowCount (PlanProject n _ _) = n"

fun planCost :: "plan \<Rightarrow> float64" where
  "planCost (PlanScan _ c _) = c"
| "planCost (PlanIndexScan _ c _) = c"
| "planCost (PlanJoin _ c _ _ _) = c"
| "planCost (PlanFilter _ c _ _) = c"
| "planCost (PlanProject _ c _) = c"

text \<open>The field \<^verbatim>\<open>Table\<close>, empty unless the plan reads one table.\<close>

fun planTable :: "plan \<Rightarrow> string" where
  "planTable (PlanScan _ _ t) = t"
| "planTable (PlanIndexScan _ _ t) = t"
| "planTable _ = []"

record costModel =
  SeqScanCostPerRow :: float64
  IndexScanCostPerRow :: float64
  JoinCostPerRow :: float64

definition NewCostModel :: costModel where
  "NewCostModel = \<lparr>SeqScanCostPerRow = Fin 1, IndexScanCostPerRow = fround (5 / 100), JoinCostPerRow = Fin 1\<rparr>"

fun CostPlan :: "costModel \<Rightarrow> plan \<Rightarrow> float64" where
  "CostPlan cm (PlanScan n _ _) = fmul (floatOfInt n) (SeqScanCostPerRow cm)"
| "CostPlan cm (PlanIndexScan n _ _) = fmul (floatOfInt n) (IndexScanCostPerRow cm)"
| "CostPlan cm (PlanJoin _ _ l r _) = fadd (CostPlan cm l) (fmul (floatOfInt (planRowCount l)) (CostPlan cm r))"
| "CostPlan cm (PlanFilter _ _ child _) = CostPlan cm child"
| "CostPlan cm (PlanProject _ _ child) = CostPlan cm child"

section \<open>Cardinalities\<close>

type_synonym statsMap = "string \<rightharpoonup> tableStats"

text \<open>\<^verbatim>\<open>ce.stats[table]\<close>, the zero \<^verbatim>\<open>TableStats\<close> for a missing table.\<close>

definition statsOf :: "statsMap \<Rightarrow> string \<Rightarrow> tableStats" where
  "statsOf stats t = (case stats t of Some st \<Rightarrow> st | None \<Rightarrow> \<lparr>RowCount = 0, statColumns = Map.empty\<rparr>)"

text \<open>A nil operand is \<open>None\<close>.\<close>

function estimateBinarySelectivity :: "statsMap \<Rightarrow> string \<Rightarrow> binOp \<Rightarrow> expr option \<Rightarrow> expr option \<Rightarrow> float64" where
  "estimateBinarySelectivity stats table bop left right =
     (case left of
        Some (ColumnRef _ name) \<Rightarrow>
          (case statColumns (statsOf stats table) name of
             None \<Rightarrow> Fin (1 / 2)
           | Some cs \<Rightarrow>
               let n = word_of_nat (DistinctCount cs) :: 64 word in
               if bop = OpEq then if 0 < sint n then frecip (floatOfInt n) else Fin (1 / 2)
               else if bop = OpNe then if 0 < sint n then fsub (Fin 1) (frecip (floatOfInt n)) else Fin (1 / 2)
               else if bop \<in> {OpLt, OpLe, OpGt, OpGe} then
                 if vNull (statMin cs) \<or> vNull (statMax cs) then fround (1 / 3) else fround (333 / 1000)
               else if bop = OpAnd then
                 fmul (estimateBinarySelectivity stats table OpEq left None) (estimateBinarySelectivity stats table OpEq right None)
               else if bop = OpOr then
                 let l = estimateBinarySelectivity stats table OpEq left None;
                     r = estimateBinarySelectivity stats table OpEq right None
                 in fsub (fadd l r) (fmul l r)
               else Fin (1 / 2))
      | _ \<Rightarrow> Fin (1 / 2))"
  by pat_completeness auto
termination
  by (relation "measure (\<lambda>(stats, table, bop, left, right). if bop = OpAnd \<or> bop = OpOr then 1 else 0)") auto

declare estimateBinarySelectivity.simps [simp del]

fun EstimateSelectivity :: "statsMap \<Rightarrow> string \<Rightarrow> expr \<Rightarrow> float64" where
  "EstimateSelectivity stats table (BinaryExpr bop l r) = estimateBinarySelectivity stats table bop (Some l) (Some r)"
| "EstimateSelectivity stats table _ = Fin 1"

definition EstimateJoinSize :: "statsMap \<Rightarrow> string \<Rightarrow> string \<Rightarrow> expr option \<Rightarrow> 64 word" where
  "EstimateJoinSize stats leftTable rightTable on =
     (let leftStats = statsOf stats leftTable; rightStats = statsOf stats rightTable;
          product = word_of_nat (RowCount leftStats) * word_of_nat (RowCount rightStats);
          distinctOf = (\<lambda>st col. case statColumns st col of
             Some cs \<Rightarrow> let n = word_of_nat (DistinctCount cs) :: 64 word in if 0 < sint n then n else 1
           | None \<Rightarrow> 1)
      in case on of
           Some (BinaryExpr _ (ColumnRef _ joinCol) _) \<Rightarrow>
             let l = distinctOf leftStats joinCol; r = distinctOf rightStats joinCol;
                 maxDistinct = (if sint r > sint l then r else l)
             in if maxDistinct = 0 then product else word_of_int (sint product sdiv sint maxDistinct)
         | _ \<Rightarrow> product)"

section \<open>The optimizer\<close>

record optimizer =
  optStats :: statsMap
  optCostModel :: costModel

definition NewOptimizer :: optimizer where
  "NewOptimizer = \<lparr>optStats = Map.empty, optCostModel = NewCostModel\<rparr>"

text \<open>A plan with its cost filled in.\<close>

definition scanPlan :: "optimizer \<Rightarrow> 64 word \<Rightarrow> string \<Rightarrow> plan" where
  "scanPlan opt n t = PlanScan n (CostPlan (optCostModel opt) (PlanScan n (Fin 0) t)) t"

definition joinPlan :: "optimizer \<Rightarrow> 64 word \<Rightarrow> plan \<Rightarrow> plan \<Rightarrow> expr option \<Rightarrow> plan" where
  "joinPlan opt n l r p = PlanJoin n (CostPlan (optCostModel opt) (PlanJoin n (Fin 0) l r p)) l r p"

definition bestAccessPath :: "optimizer \<Rightarrow> string \<Rightarrow> plan" where
  "bestAccessPath opt table = scanPlan opt (word_of_nat (RowCount (statsOf (optStats opt) table))) table"

definition subsetKey :: "string list \<Rightarrow> string" where
  "subsetKey tables = concat (map (\<lambda>t. t @ '','') (sort tables))"

text \<open>The subset of the list that a bit mask selects, and the subsets of the masks with the given number of bits.
  From 63 tables on \<^verbatim>\<open>1 << n\<close> is not positive and there are none.\<close>

definition maskSubset :: "nat \<Rightarrow> string list \<Rightarrow> string list" where
  "maskSubset bits tables = map snd (filter (\<lambda>(i, _). bit bits i) (enumerate 0 tables))"

definition generateSubsets :: "string list \<Rightarrow> nat \<Rightarrow> string list list" where
  "generateSubsets tables sz =
     (if sz > length tables then []
      else map (\<lambda>bits. maskSubset bits tables)
        (filter (\<lambda>bits. length (filter (bit bits) [0..<length tables]) = sz)
          [0..<(if length tables < 63 then 2 ^ length tables else 0)]))"

text \<open>The candidates for a subset: every table in turn on the right, with every join clause that names it.\<close>

definition joinCandidates :: "optimizer \<Rightarrow> string list \<Rightarrow> (string \<rightharpoonup> plan) \<Rightarrow> joinClause list \<Rightarrow> plan list" where
  "joinCandidates opt tbs memo joins =
     concat (map (\<lambda>i.
       let rightTable = tbs ! i in
       case memo (subsetKey [rightTable]) of
         None \<Rightarrow> []
       | Some rightPlan \<Rightarrow>
           (case memo (subsetKey (take i tbs @ drop (Suc i) tbs)) of
              None \<Rightarrow> []
            | Some leftPlan \<Rightarrow>
                map (\<lambda>join. joinPlan opt (EstimateJoinSize (optStats opt) (planTable leftPlan) (planTable rightPlan) (Some (joinOn join)))
                    leftPlan rightPlan (Some (joinOn join)))
                  (filter (\<lambda>join. joinTable join = rightTable) joins)))
       [0..<length tbs])"

definition cheapest :: "plan list \<Rightarrow> plan option" where
  "cheapest plans =
     fst (foldl (\<lambda>(best, bestCost) p. if fless (planCost p) bestCost then (Some p, planCost p) else (best, bestCost))
       (None, MaxFloat64) plans)"

definition findBestJoinForSubset :: "optimizer \<Rightarrow> string list \<Rightarrow> (string \<rightharpoonup> plan) \<Rightarrow> joinClause list \<Rightarrow> plan option" where
  "findBestJoinForSubset opt tbs memo joins =
     (if length tbs < 2 then None else cheapest (joinCandidates opt tbs memo joins))"

text \<open>The fallback: the tables joined one after the other.\<close>

definition buildLeftDeepPlan :: "optimizer \<Rightarrow> string list \<Rightarrow> joinClause list \<Rightarrow> plan option" where
  "buildLeftDeepPlan opt tables joins =
     (case tables of
        [] \<Rightarrow> None
      | t0 # ts \<Rightarrow>
          Some (foldl (\<lambda>plan t.
            let predicate = map_option joinOn (find (\<lambda>join. joinTable join = t) joins)
            in joinPlan opt (EstimateJoinSize (optStats opt) t0 t predicate) plan (bestAccessPath opt t) predicate)
          (bestAccessPath opt t0) ts))"

definition planSubset :: "optimizer \<Rightarrow> joinClause list \<Rightarrow> nat \<Rightarrow> string list \<Rightarrow> (string \<rightharpoonup> plan) \<Rightarrow> (string \<rightharpoonup> plan)" where
  "planSubset opt joins sz tbs memo =
     (if sz = 1 then memo(subsetKey tbs \<mapsto> bestAccessPath opt (hd tbs))
      else case findBestJoinForSubset opt tbs memo joins of
          None \<Rightarrow> memo
        | Some best \<Rightarrow> memo(subsetKey tbs \<mapsto> best))"

text \<open>\<open>tableList\<close> holds the keys of the map of tables in the order of the iteration.\<close>

definition findBestJoinOrder :: "optimizer \<Rightarrow> string list \<Rightarrow> joinClause list \<Rightarrow> plan option" where
  "findBestJoinOrder opt tableList joins =
     (if length tableList = 1 then Some (bestAccessPath opt (hd tableList))
      else
        let memo = fold (\<lambda>sz. fold (planSubset opt joins sz) (generateSubsets tableList sz)) [1..<Suc (length tableList)] Map.empty
        in case memo (subsetKey tableList) of
             Some plan \<Rightarrow> Some plan
           | None \<Rightarrow> buildLeftDeepPlan opt tableList joins)"

text \<open>The statistics of the tables of the query, with the default for a table that has none.\<close>

fun collectStats :: "('s, 'i) storageEngine \<Rightarrow> string list \<Rightarrow> statsMap \<Rightarrow> 's \<Rightarrow> 's \<times> statsMap res" where
  "collectStats eng [] stats s = (s, Inr stats)"
| "collectStats eng (t # ts) stats s =
     andThen (eStats eng t s) (\<lambda>found s.
       collectStats eng ts (stats(t \<mapsto> (case found of Some st \<Rightarrow> st | None \<Rightarrow> \<lparr>RowCount = 1000, statColumns = Map.empty\<rparr>))) s)"

text \<open>The filter and the projection on top of the join.  A nil plan under them is a run-time panic.\<close>

definition finishPlan :: "optimizer \<Rightarrow> string \<Rightarrow> expr option \<Rightarrow> plan \<Rightarrow> plan" where
  "finishPlan opt from w best =
     (let best = (case w of
          None \<Rightarrow> best
        | Some p \<Rightarrow>
            let n = intOfFloat (fmul (floatOfInt (planRowCount best)) (EstimateSelectivity (optStats opt) from p))
            in PlanFilter n (CostPlan (optCostModel opt) (PlanFilter n (Fin 0) best p)) best p)
      in PlanProject (planRowCount best) (CostPlan (optCostModel opt) (PlanProject (planRowCount best) (Fin 0) best)) best)"

definition Optimize :: "('s, 'i) storageEngine \<Rightarrow> string list \<Rightarrow> string \<Rightarrow> joinClause list \<Rightarrow> expr option \<Rightarrow> optimizer \<Rightarrow> 's \<Rightarrow>
    's \<times> (optimizer \<times> plan) res" where
  "Optimize eng tableList from joins w opt s =
     andThen (collectStats eng (from # map joinTable joins) (optStats opt) s) (\<lambda>stats s.
       let opt = opt\<lparr>optStats := stats\<rparr> in
       case findBestJoinOrder opt tableList joins of
         None \<Rightarrow> (s, Inl (Panic ''nil pointer dereference''))
       | Some best \<Rightarrow> (s, Inr (opt, finishPlan opt from w best)))"

section \<open>The tables of a plan\<close>

fun planLeaves :: "plan \<Rightarrow> string multiset" where
  "planLeaves (PlanScan _ _ t) = {#t#}"
| "planLeaves (PlanIndexScan _ _ t) = {#t#}"
| "planLeaves (PlanJoin _ _ l r _) = planLeaves l + planLeaves r"
| "planLeaves (PlanFilter _ _ child _) = planLeaves child"
| "planLeaves (PlanProject _ _ child) = planLeaves child"

lemma planLeaves_scan [simp]: "planLeaves (bestAccessPath opt t) = {#t#}" "planLeaves (joinPlan opt n l r p) = planLeaves l + planLeaves r"
  by (simp_all add: bestAccessPath_def scanPlan_def joinPlan_def)

lemma planLeaves_finish [simp]: "planLeaves (finishPlan opt t w p) = planLeaves p"
  by (simp add: finishPlan_def Let_def split: option.splits)

lemma buildLeftDeepPlan_leaves:
  assumes "tables \<noteq> []"
  shows "\<exists>p. buildLeftDeepPlan opt tables joins = Some p \<and> planLeaves p = mset tables"
proof -
  have "planLeaves (foldl (\<lambda>plan t. joinPlan opt (f t) plan (bestAccessPath opt t) (g t)) p ts) = planLeaves p + mset ts" for f g p ts
    by (induction ts arbitrary: p) simp_all
  with assms show ?thesis by (cases tables) (auto simp: buildLeftDeepPlan_def Let_def)
qed

text \<open>The key of a set of tables determines it, if no name has a comma.\<close>

definition no_comma :: "string \<Rightarrow> bool" where
  "no_comma t \<longleftrightarrow> CHR '','' \<notin> set t"

lemma comma_prefix:
  "no_comma a \<Longrightarrow> no_comma b \<Longrightarrow> a @ CHR '','' # xs = b @ CHR '','' # ys \<longleftrightarrow> a = b \<and> xs = ys"
proof (induction a arbitrary: b)
  case Nil
  then show ?case by (cases b) (auto simp: no_comma_def)
next
  case (Cons c a)
  then show ?case by (cases b) (auto simp: no_comma_def)
qed

lemma concat_commas:
  "list_all no_comma xs \<Longrightarrow> list_all no_comma ys \<Longrightarrow>
   concat (map (\<lambda>t. t @ '','') xs) = concat (map (\<lambda>t. t @ '','') ys) \<Longrightarrow> xs = ys"
proof (induction xs arbitrary: ys)
  case Nil
  then show ?case by (cases ys) auto
next
  case (Cons x xs)
  then obtain y ys' where ys: "ys = y # ys'" by (cases ys) auto
  from Cons.prems ys have "x @ CHR '','' # concat (map (\<lambda>t. t @ '','') xs) = y @ CHR '','' # concat (map (\<lambda>t. t @ '','') ys')" by simp
  with Cons.prems ys have "x = y" "concat (map (\<lambda>t. t @ '','') xs) = concat (map (\<lambda>t. t @ '','') ys')"
    by (simp_all only: comma_prefix list.pred_inject(2))
  with Cons.IH [of ys'] Cons.prems ys show ?case by simp
qed

lemma subsetKey_inj:
  assumes "subsetKey xs = subsetKey ys" and "list_all no_comma xs" and "list_all no_comma ys"
  shows "mset xs = mset ys"
proof -
  have "sort xs = sort ys" using assms by (intro concat_commas) (simp_all add: subsetKey_def list_all_iff)
  then show ?thesis by (metis mset_sort)
qed

lemma generateSubsets_ok:
  assumes "tbs \<in> set (generateSubsets tables sz)"
  shows "set tbs \<subseteq> set tables" and "length tbs = sz"
proof -
  from assms obtain bits where b: "tbs = maskSubset bits tables" "length (filter (bit bits) [0..<length tables]) = sz"
    by (auto simp: generateSubsets_def split: if_splits)
  have "map fst (filter (\<lambda>(i, _). bit bits i) xs) = filter (bit bits) (map fst xs)" for xs :: "(nat \<times> string) list"
    by (induction xs) auto
  then have "length tbs = length (filter (bit bits) [0..<length tables])"
    unfolding b(1) maskSubset_def by (metis length_map map_fst_enumerate plus_nat.add_0)
  with b(2) show "length tbs = sz" by simp
  show "set tbs \<subseteq> set tables" unfolding b(1) maskSubset_def by (auto simp: in_set_enumerate_eq)
qed

lemma foldl_cheapest:
  assumes "foldl (\<lambda>(best, bestCost) p. if fless (planCost p) bestCost then (Some p, planCost p) else (best, bestCost)) (b, c) ps = (b', c')"
  shows "(b' = b \<and> c' = c \<or> (\<exists>p \<in> set ps. b' = Some p \<and> c' = planCost p \<and> fless c' c)) \<and> (\<forall>p \<in> set ps. \<not> fless (planCost p) c')"
  using assms
proof (induction ps arbitrary: b c)
  case (Cons q ps)
  show ?case
  proof (cases "fless (planCost q) c")
    case True
    with Cons.prems Cons.IH [of "Some q" "planCost q"] have
      I: "(b' = Some q \<and> c' = planCost q \<or> (\<exists>p \<in> set ps. b' = Some p \<and> c' = planCost p \<and> fless c' (planCost q))) \<and>
        (\<forall>p \<in> set ps. \<not> fless (planCost p) c')" by simp
    then have "\<not> fless (planCost q) c'" using fless_irrefl fless_trans by metis
    with I True show ?thesis by (auto dest: fless_trans)
  next
    case False
    with Cons.prems Cons.IH [of b c] have
      I: "(b' = b \<and> c' = c \<or> (\<exists>p \<in> set ps. b' = Some p \<and> c' = planCost p \<and> fless c' c)) \<and> (\<forall>p \<in> set ps. \<not> fless (planCost p) c')" by simp
    then have "\<not> fless (planCost q) c'" using False fless_trans by metis
    with I show ?thesis by auto
  qed
qed simp

lemma cheapest_ok:
  "cheapest ps = Some p \<Longrightarrow> p \<in> set ps \<and> (\<forall>q \<in> set ps. \<not> fless (planCost q) (planCost p))"
  "cheapest ps = None \<Longrightarrow> \<forall>q \<in> set ps. \<not> fless (planCost q) MaxFloat64"
proof -
  obtain b c where f: "foldl (\<lambda>(best, bestCost) p. if fless (planCost p) bestCost then (Some p, planCost p) else (best, bestCost)) (None, MaxFloat64) ps = (b, c)"
    by force
  note F = foldl_cheapest [OF f]
  show "cheapest ps = Some p \<Longrightarrow> p \<in> set ps \<and> (\<forall>q \<in> set ps. \<not> fless (planCost q) (planCost p))" using F by (auto simp: cheapest_def f)
  show "cheapest ps = None \<Longrightarrow> \<forall>q \<in> set ps. \<not> fless (planCost q) MaxFloat64" using F by (auto simp: cheapest_def f)
qed

text \<open>Every entry of the table of plans reads the tables of its key, each once.\<close>

definition memo_ok :: "string list \<Rightarrow> (string \<rightharpoonup> plan) \<Rightarrow> bool" where
  "memo_ok tables memo \<longleftrightarrow> (\<forall>S p. set S \<subseteq> set tables \<longrightarrow> memo (subsetKey S) = Some p \<longrightarrow> planLeaves p = mset S)"

lemma joinCandidates_leaves:
  assumes "memo_ok tables memo" and "set tbs \<subseteq> set tables" and "p \<in> set (joinCandidates opt tbs memo joins)"
  shows "planLeaves p = mset tbs"
proof -
  from assms(3) obtain i l r n q where i: "i < length tbs" "p = joinPlan opt n l r q"
    "memo (subsetKey [tbs ! i]) = Some r" "memo (subsetKey (take i tbs @ drop (Suc i) tbs)) = Some l"
    by (auto simp: joinCandidates_def Let_def split: option.splits)
  have "set (take i tbs @ drop (Suc i) tbs) \<subseteq> set tables" "set [tbs ! i] \<subseteq> set tables"
    using assms(2) i(1) by (auto dest: in_set_takeD in_set_dropD)
  with assms(1) i(3,4) have "planLeaves l = mset (take i tbs @ drop (Suc i) tbs)" "planLeaves r = mset [tbs ! i]"
    unfolding memo_ok_def by blast+
  moreover have "mset tbs = mset (take i tbs @ tbs ! i # drop (Suc i) tbs)" using id_take_nth_drop [OF i(1)] by simp
  ultimately show ?thesis using i(2) by simp
qed

lemma planSubset_ok:
  assumes "memo_ok tables memo" and "list_all no_comma tables" and "tbs \<in> set (generateSubsets tables sz)"
  shows "memo_ok tables (planSubset opt joins sz tbs memo)"
proof -
  note sub = generateSubsets_ok [OF assms(3)]
  have entry: "memo_ok tables (memo(subsetKey tbs \<mapsto> p))" if "planLeaves p = mset tbs" for p
    unfolding memo_ok_def
  proof (intro allI impI)
    fix S q assume S: "set S \<subseteq> set tables" "(memo(subsetKey tbs \<mapsto> p)) (subsetKey S) = Some q"
    show "planLeaves q = mset S"
    proof (cases "subsetKey S = subsetKey tbs")
      case True
      have "mset S = mset tbs"
        by (rule subsetKey_inj [OF True]) (use S(1) sub(1) assms(2) in \<open>auto simp: list_all_iff\<close>)
      with True S(2) that show ?thesis by simp
    next
      case False
      with S assms(1) show ?thesis by (simp add: memo_ok_def)
    qed
  qed
  show ?thesis
  proof (cases "sz = 1")
    case True
    with sub(2) obtain t where "tbs = [t]" by (cases tbs) auto
    with True entry show ?thesis by (simp add: planSubset_def)
  next
    case False
    have "planLeaves p = mset tbs" if "findBestJoinForSubset opt tbs memo joins = Some p" for p
    proof -
      from that have "cheapest (joinCandidates opt tbs memo joins) = Some p" by (simp add: findBestJoinForSubset_def split: if_splits)
      from joinCandidates_leaves [OF assms(1) sub(1) conjunct1 [OF cheapest_ok(1) [OF this]]] show ?thesis .
    qed
    with False entry assms(1) show ?thesis by (simp add: planSubset_def split: option.splits)
  qed
qed

lemma findBestJoinOrder_leaves:
  assumes "tables \<noteq> []" and "list_all no_comma tables"
  shows "\<exists>p. findBestJoinOrder opt tables joins = Some p \<and> planLeaves p = mset tables"
proof (cases "length tables = 1")
  case True
  then obtain t where "tables = [t]" by (cases tables) auto
  then show ?thesis by (simp add: findBestJoinOrder_def)
next
  case False
  have step: "memo_ok tables (fold (planSubset opt joins sz) subsets memo)"
    if "memo_ok tables memo" "set subsets \<subseteq> set (generateSubsets tables sz)" for sz subsets memo
    using that by (induction subsets arbitrary: memo) (simp_all add: planSubset_ok assms(2))
  have all: "memo_ok tables memo \<Longrightarrow> memo_ok tables (fold (\<lambda>sz. fold (planSubset opt joins sz) (generateSubsets tables sz)) sizes memo)" for sizes memo
    by (induction sizes arbitrary: memo) (simp_all add: step)
  have "memo_ok tables (fold (\<lambda>sz. fold (planSubset opt joins sz) (generateSubsets tables sz)) [1..<Suc (length tables)] Map.empty)"
    by (rule all) (simp add: memo_ok_def)
  then have "\<And>p. fold (\<lambda>sz. fold (planSubset opt joins sz) (generateSubsets tables sz)) [1..<Suc (length tables)] Map.empty (subsetKey tables) = Some p \<Longrightarrow>
      planLeaves p = mset tables" unfolding memo_ok_def by blast
  with False buildLeftDeepPlan_leaves [OF assms(1), of opt joins] show ?thesis
    by (simp add: findBestJoinOrder_def Let_def del: upt_Suc split: option.splits)
qed

section \<open>Selectivities\<close>

lemma estimateBinarySelectivity_eq_unit: "in_unit (estimateBinarySelectivity stats table OpEq left right)"
  by (subst estimateBinarySelectivity.simps)
    (auto simp: Let_def half_unit frecip_unit split: option.splits expr.splits)

end
