(* ===== verification/PlannerProps.thy ===== *)
theory PlannerProps
  imports Planner MemstoreOps
begin

text \<open>
  What the planner promises: its plans read every table of the query once, each step of its search takes a
  cheapest candidate, and its selectivities are probabilities.
\<close>

text \<open>C33: Plans are complete.  For a query whose table names have no comma, in whatever order Go iterates over the
  set of its tables, the optimizer returns a plan, records the statistics it used, and the plan reads each table of the
  query exactly once.\<close>

theorem Optimize_complete:
  assumes "distinct tableList" and "set tableList = set (from # map joinTable joins)" and "list_all no_comma tableList"
    and "collectStats eng (from # map joinTable joins) (optStats opt) s = (s', Inr stats)"
  shows "\<exists>p. Optimize eng tableList from joins w opt s = (s', Inr (opt\<lparr>optStats := stats\<rparr>, p)) \<and>
    planLeaves p = mset_set (insert from (joinTable ` set joins))"
proof -
  have ne: "tableList \<noteq> []" using assms(2) by auto
  have "mset tableList = mset_set (set tableList)" using assms(1) by (rule mset_set_set [symmetric])
  then have tabs: "mset tableList = mset_set (insert from (joinTable ` set joins))" using assms(2) by simp
  obtain p where "findBestJoinOrder (opt\<lparr>optStats := stats\<rparr>) tableList joins = Some p" "planLeaves p = mset tableList"
    using findBestJoinOrder_leaves [OF ne assms(3)] by blast
  with tabs show ?thesis by (simp add: Optimize_def assms(4) Let_def del: collectStats.simps)
qed

theorem Optimize_complete_witness:
  "\<exists>p. Optimize memOps [''b'', ''a''] ''a'' [\<lparr>joinTable = ''b'', joinAlias = [], joinOn = Literal (NewInt 1)\<rparr>] None NewOptimizer mem_New =
      (mem_New, Inr (NewOptimizer\<lparr>optStats := [''a'' \<mapsto> \<lparr>RowCount = 1000, statColumns = Map.empty\<rparr>,
        ''b'' \<mapsto> \<lparr>RowCount = 1000, statColumns = Map.empty\<rparr>]\<rparr>, p)) \<and>
    planLeaves p = mset_set {''a'', ''b''}"
proof -
  have "collectStats memOps [''a'', ''b''] Map.empty mem_New =
      (mem_New, Inr [''a'' \<mapsto> \<lparr>RowCount = 1000, statColumns = Map.empty\<rparr>, ''b'' \<mapsto> \<lparr>RowCount = 1000, statColumns = Map.empty\<rparr>])"
    by (simp add: memOps_def mem_Stats_def mem_New_def)
  then show ?thesis
    using Optimize_complete [of "[''b'', ''a'']" "''a''" "[\<lparr>joinTable = ''b'', joinAlias = [], joinOn = Literal (NewInt 1)\<rparr>]"
        memOps NewOptimizer mem_New mem_New _ None]
    by (simp add: no_comma_def NewOptimizer_def insert_commute del: collectStats.simps)
qed

text \<open>C34: Local optimality.  When the search joins the tables of a subset, the plan it keeps is one of the candidates and
  no candidate is cheaper; it keeps none only if every candidate costs at least the largest float.\<close>

theorem findBestJoinForSubset_cheapest:
  assumes "2 \<le> length tbs"
  shows "case findBestJoinForSubset opt tbs memo joins of
      Some p \<Rightarrow> p \<in> set (joinCandidates opt tbs memo joins) \<and>
        (\<forall>q \<in> set (joinCandidates opt tbs memo joins). \<not> fless (planCost q) (planCost p))
    | None \<Rightarrow> (\<forall>q \<in> set (joinCandidates opt tbs memo joins). \<not> fless (planCost q) MaxFloat64)"
  using assms cheapest_ok [of "joinCandidates opt tbs memo joins"]
  by (auto simp: findBestJoinForSubset_def split: option.splits)

definition twoScans :: "string \<rightharpoonup> plan" where
  "twoScans = [''a,'' \<mapsto> bestAccessPath NewOptimizer ''a'', ''b,'' \<mapsto> bestAccessPath NewOptimizer ''b'']"

theorem findBestJoinForSubset_cheapest_witness:
  "let joins = [\<lparr>joinTable = ''b'', joinAlias = [], joinOn = Literal (NewInt 1)\<rparr>];
       candidates = joinCandidates NewOptimizer [''a'', ''b''] twoScans joins
   in length candidates = 1 \<and>
     (case findBestJoinForSubset NewOptimizer [''a'', ''b''] twoScans joins of
        Some p \<Rightarrow> p \<in> set candidates \<and> (\<forall>q \<in> set candidates. \<not> fless (planCost q) (planCost p))
      | None \<Rightarrow> (\<forall>q \<in> set candidates. \<not> fless (planCost q) MaxFloat64))"
proof -
  let ?joins = "[\<lparr>joinTable = ''b'', joinAlias = [], joinOn = Literal (NewInt 1)\<rparr>]"
  have "length (joinCandidates NewOptimizer [''a'', ''b''] twoScans ?joins) = 1"
    by (simp add: joinCandidates_def subsetKey_def twoScans_def Let_def)
  then show ?thesis
    using findBestJoinForSubset_cheapest [of "[''a'', ''b'']" NewOptimizer twoScans ?joins] by (simp add: Let_def)
qed

text \<open>The estimate of a join whose left side is itself a join is 0: such a plan has no table of its own.\<close>

lemma EstimateJoinSize_of_join:
  assumes "optStats opt [] = None"
  shows "EstimateJoinSize (optStats opt) (planTable (PlanJoin n c l r q)) t on = 0"
  using assms by (auto simp: EstimateJoinSize_def statsOf_def Let_def split: option.splits expr.splits)

text \<open>C35: Selectivities.  The estimated selectivity of a predicate that is no disjunction is a number between 0 and 1.\<close>

theorem EstimateSelectivity_bounds:
  assumes "\<And>l r. p \<noteq> BinaryExpr OpOr l r"
  shows "in_unit (EstimateSelectivity stats t p)"
proof (cases p)
  case (BinaryExpr bop l r)
  with assms have "bop \<noteq> OpOr" by auto
  then have "in_unit (estimateBinarySelectivity stats t bop (Some l) (Some r))"
    by (subst estimateBinarySelectivity.simps)
      (auto simp: Let_def half_unit frecip_unit fsub_unit fmul_unit fround_unit estimateBinarySelectivity_eq_unit split: option.splits expr.splits)
  with BinaryExpr show ?thesis by simp
qed (simp_all add: in_unit_def)

theorem EstimateSelectivity_bounds_witness:
  "in_unit (EstimateSelectivity Map.empty ''t'' (BinaryExpr OpEq (ColumnRef [] ''id'') (Literal (NewInt 1))))"
  using EstimateSelectivity_bounds [of "BinaryExpr OpEq (ColumnRef [] ''id'') (Literal (NewInt 1))" Map.empty "''t''"] by simp

end
