(* ===== verification/Page.thy ===== *)
theory Page
  imports Core
begin

text \<open>
  The slotted page and the row codec (\<^verbatim>\<open>src/storage/page.go\<close>).  A page is a 4096-byte array: a
  header (slot count, free-space pointer), a slot directory that grows up, and row data that grows
  down.  Every read of the array that Go would refuse at run time is a \<open>Panic\<close> branch.  The
  lemmas show that a row survives \<open>Serialize\<close> and \<open>Deserialize\<close> (up to the type of a NULL),
  and that a well-formed page is an append-only list of byte strings: \<open>page_rows\<close> is the
  abstraction, and every operation is the list operation it stands for.
\<close>

section \<open>Pages\<close>

definition PageSize :: nat where
  "PageSize = 4096"

record page =
  pgPageID :: int
  Data :: "byte list"
  IsDirty :: bool

text \<open>\<^verbatim>\<open>&Page{}\<close>: all bytes zero.\<close>

definition zeroPage :: page where
  "zeroPage = \<lparr>pgPageID = 0, Data = replicate PageSize 0, IsDirty = False\<rparr>"

definition NewPage :: page where
  "NewPage = zeroPage\<lparr>Data := bsplice 2 (putUint 2 PageSize) (Data zeroPage)\<rparr>"

section \<open>Row codec\<close>

definition NullTag :: byte where
  "NullTag = 255"

definition Serialize_value :: "val \<Rightarrow> byte list" where
  "Serialize_value v =
     (if vNull v then [NullTag]
      else word_of_nat (ColumnType_iota (vType v)) #
        (case vType v of
           TypeInt \<Rightarrow> putUint 8 (unat (vInt v))
         | TypeBool \<Rightarrow> [if vBool v then 1 else 0]
         | TypeText \<Rightarrow> putUint 2 (length (vStr v)) @ map byte_of_char (vStr v)))"

definition Serialize :: "row \<Rightarrow> byte list" where
  "Serialize r =
     putUint 8 (unat (Xmin r)) @ putUint 8 (unat (Xmax r)) @
     concat (map Serialize_value (Values r))"

text \<open>A Go slice of a page shares the page's array: reading \<^verbatim>\<open>s[a:b]\<close> is checked against the
  capacity of \<^verbatim>\<open>s\<close>, not its length.  A byte slice is therefore modelled by its bytes and the
  bytes of its spare capacity.\<close>

type_synonym goslice = "byte list \<times> byte list"

text \<open>The loop of \<^verbatim>\<open>Deserialize\<close> on the bytes from the cursor on, with the spare capacity.  A tag
  that is none of the four known ones is skipped.\<close>

function Deserialize_values :: "byte list \<Rightarrow> byte list \<Rightarrow> val list res" where
  "Deserialize_values [] spare = Inr []"
| "Deserialize_values (tag # rest) spare =
     (if tag = NullTag then
        (case Deserialize_values rest spare of
           Inl e \<Rightarrow> Inl e
         | Inr vs \<Rightarrow> Inr (zeroValue\<lparr>vNull := True\<rparr> # vs))
      else if unat tag = ColumnType_iota TypeInt then
        (if length (rest @ spare) < 8 then Inl (Panic ''slice bounds out of range'')
         else case Deserialize_values (drop 8 rest) spare of
           Inl e \<Rightarrow> Inl e
         | Inr vs \<Rightarrow> Inr (NewInt (word_of_nat (getUint (take 8 (rest @ spare)))) # vs))
      else if unat tag = ColumnType_iota TypeBool then
        (case rest of
           [] \<Rightarrow> Inl (Panic ''index out of range'')
         | b # rest' \<Rightarrow>
             (case Deserialize_values rest' spare of
                Inl e \<Rightarrow> Inl e
              | Inr vs \<Rightarrow> Inr (NewBool (b = 1) # vs)))
      else if unat tag = ColumnType_iota TypeText then
        (let strLen = getUint (take 2 (rest @ spare)) in
         if length (rest @ spare) < 2 \<or> length (rest @ spare) < 2 + strLen then
           Inl (Panic ''slice bounds out of range'')
         else case Deserialize_values (drop (2 + strLen) rest) spare of
           Inl e \<Rightarrow> Inl e
         | Inr vs \<Rightarrow>
             Inr (NewText (map char_of_byte (bslice 2 strLen (rest @ spare))) # vs))
      else Deserialize_values rest spare)"
  by pat_completeness auto
termination
  by (relation "measure (length \<circ> fst)") auto

fun Deserialize :: "goslice \<Rightarrow> row res" where
  "Deserialize (d, spare) =
     (if length (d @ spare) < 16 then Inl (Panic ''slice bounds out of range'')
      else case Deserialize_values (drop 16 d) spare of
        Inl e \<Rightarrow> Inl e
      | Inr vs \<Rightarrow> Inr \<lparr>Values = vs, Xmin = word_of_nat (getUint (bslice 0 8 (d @ spare))),
                       Xmax = word_of_nat (getUint (bslice 8 8 (d @ spare)))\<rparr>)"

section \<open>Page operations\<close>

definition slotCount :: "page \<Rightarrow> nat" where
  "slotCount p = getUint (bslice 0 2 (Data p))"

definition freeSpace :: "page \<Rightarrow> nat" where
  "freeSpace p = getUint (bslice 2 2 (Data p))"

text \<open>The directory entry of a slot: offset and length of its row.\<close>

definition slotOff :: "nat \<Rightarrow> page \<Rightarrow> nat" where
  "slotOff i p = getUint (bslice (4 + i * 4) 2 (Data p))"

definition slotLen :: "nat \<Rightarrow> page \<Rightarrow> nat" where
  "slotLen i p = getUint (bslice (4 + i * 4 + 2) 2 (Data p))"

definition Page_Insert :: "page \<Rightarrow> byte list \<Rightarrow> page \<times> nat res" where
  "Page_Insert p rowBytes =
     (let sc = slotCount p; fs = freeSpace p;
          slotOffset = 4 + sc * 4;
          requiredSpace = length rowBytes + 4
      in if int fs - int slotOffset < int requiredSpace then (p, Inl (Errorf ''page is full'' []))
         else if length (Data p) < fs then (p, Inl (Panic ''slice bounds out of range''))
         else
           let newFreeSpace = fs - length rowBytes;
               d1 = bsplice newFreeSpace rowBytes (Data p);
               d2 = bsplice slotOffset (putUint 2 newFreeSpace) d1;
               d3 = bsplice (slotOffset + 2) (putUint 2 (length rowBytes)) d2;
               d4 = bsplice 0 (putUint 2 (sc + 1)) d3;
               d5 = bsplice 2 (putUint 2 newFreeSpace) d4
           in (p\<lparr>Data := d5\<rparr>, Inr sc))"

definition Page_Get :: "page \<Rightarrow> int \<Rightarrow> goslice res" where
  "Page_Get p slotIndex =
     (if slotIndex < 0 \<or> slotIndex \<ge> int (slotCount p) then Inl (Errorf ''invalid slot index'' [])
      else let i = nat slotIndex in
        if length (Data p) < 4 + i * 4 + 4 \<or> length (Data p) < slotOff i p + slotLen i p
        then Inl (Panic ''slice bounds out of range'')
        else Inr (bslice (slotOff i p) (slotLen i p) (Data p), drop (slotOff i p + slotLen i p) (Data p)))"

definition Page_Delete :: "page \<Rightarrow> int \<Rightarrow> page \<times> unit res" where
  "Page_Delete p slotIndex =
     (if slotIndex < 0 \<or> slotIndex \<ge> int (slotCount p) then
        (p, Inl (Errorf ''invalid slot index'' []))
      else let slotOffset = 4 + nat slotIndex * 4 in
        if length (Data p) < slotOffset + 4 then (p, Inl (Panic ''slice bounds out of range''))
        else (p\<lparr>Data := bsplice (slotOffset + 2) (putUint 2 0)
                         (bsplice slotOffset (putUint 2 0) (Data p))\<rparr>, Inr ()))"

definition Page_Update :: "page \<Rightarrow> int \<Rightarrow> byte list \<Rightarrow> page \<times> unit res" where
  "Page_Update p slotIndex rowBytes =
     (if slotIndex < 0 \<or> slotIndex \<ge> int (slotCount p) then
        (p, Inl (Errorf ''invalid slot index'' []))
      else let i = nat slotIndex; entryOffset = 4 + i * 4 in
        if length (Data p) < entryOffset + 4 then (p, Inl (Panic ''slice bounds out of range''))
        else if length rowBytes \<le> slotLen i p then
          (if length (Data p) < slotOff i p + length rowBytes then
             (p, Inl (Panic ''slice bounds out of range''))
           else (p\<lparr>Data := bsplice (entryOffset + 2) (putUint 2 (length rowBytes))
                            (bsplice (slotOff i p) rowBytes (Data p))\<rparr>, Inr ()))
        else (p, Inl (Errorf ''row too large'' [])))"

section \<open>Specification: a page is a list of byte strings\<close>

definition slotBytes :: "page \<Rightarrow> nat \<Rightarrow> byte list" where
  "slotBytes p i = bslice (slotOff i p) (slotLen i p) (Data p)"

definition page_rows :: "page \<Rightarrow> byte list list" where
  "page_rows p = map (slotBytes p) [0..<slotCount p]"

text \<open>The layout invariant: directory below the free-space pointer, row data above it, rows of
  different slots apart (a slot of length 0 owns no bytes).\<close>

definition wf_page :: "page \<Rightarrow> bool" where
  "wf_page p \<longleftrightarrow>
     length (Data p) = PageSize \<and>
     4 + slotCount p * 4 \<le> freeSpace p \<and> freeSpace p \<le> PageSize \<and>
     (\<forall>i < slotCount p. slotLen i p = 0 \<or>
        freeSpace p \<le> slotOff i p \<and> slotOff i p + slotLen i p \<le> PageSize) \<and>
     (\<forall>i < slotCount p. slotLen i p = 0 \<longrightarrow> slotOff i p \<le> PageSize) \<and>
     (\<forall>i < slotCount p. \<forall>j < i. slotLen i p = 0 \<or> slotLen j p = 0 \<or>
        slotOff i p + slotLen i p \<le> slotOff j p)"

section \<open>Lemmas on the row codec\<close>

text \<open>What \<open>Deserialize\<close> gives back for a value: the same cell, with the type of a NULL lost.\<close>

definition stored_value :: "val \<Rightarrow> val" where
  "stored_value v =
     (if vNull v then zeroValue\<lparr>vNull := True\<rparr>
      else case vType v of
        TypeInt \<Rightarrow> NewInt (vInt v) | TypeBool \<Rightarrow> NewBool (vBool v) | TypeText \<Rightarrow> NewText (vStr v))"

definition stored_row :: "row \<Rightarrow> row" where
  "stored_row r = r\<lparr>Values := map stored_value (Values r)\<rparr>"

definition storable :: "row \<Rightarrow> bool" where
  "storable r \<longleftrightarrow> (\<forall>v \<in> set (Values r). vType v = TypeText \<longrightarrow> length (vStr v) < 65536)"

lemma tag_bytes [simp]:
  "unat (word_of_nat (ColumnType_iota t) :: byte) = ColumnType_iota t"
  "(word_of_nat (ColumnType_iota t) :: byte) \<noteq> NullTag"
  by (cases t; simp add: NullTag_def)+

lemma Deserialize_values_Serialize_value:
  assumes "vType v = TypeText \<longrightarrow> length (vStr v) < 65536"
    and "Deserialize_values rest spare = Inr vs"
  shows "Deserialize_values (Serialize_value v @ rest) spare = Inr (stored_value v # vs)"
proof (cases "vNull v")
  case True
  with assms show ?thesis by (simp add: Serialize_value_def stored_value_def)
next
  case False
  then show ?thesis
  proof (cases "vType v")
    case TypeInt
    with False assms show ?thesis
      by (simp add: Serialize_value_def stored_value_def NullTag_def)
  next
    case TypeBool
    with False assms show ?thesis
      by (simp add: Serialize_value_def stored_value_def NullTag_def)
  next
    case TypeText
    with False assms show ?thesis
      by (simp add: Serialize_value_def stored_value_def NullTag_def bslice_def comp_def)
  qed
qed

lemma Deserialize_values_concat:
  "(\<forall>v \<in> set vs. vType v = TypeText \<longrightarrow> length (vStr v) < 65536) \<Longrightarrow>
   Deserialize_values (concat (map Serialize_value vs)) spare = Inr (map stored_value vs)"
  by (induction vs) (simp_all add: Deserialize_values_Serialize_value)

lemma Deserialize_Serialize:
  "storable r \<Longrightarrow> Deserialize (Serialize r, spare) = Inr (stored_row r)"
  by (simp add: Serialize_def storable_def stored_row_def Deserialize_values_concat bslice_def)

lemma stored_value_idem [simp]: "stored_value (stored_value v) = stored_value v"
  by (auto simp: stored_value_def zeroValue_def split: columnType.splits)

section \<open>Lemmas on page operations\<close>

lemma PageSize_pos [simp]: "0 < PageSize" "4 \<le> PageSize" "PageSize < 65536"
  by (simp_all add: PageSize_def)

lemma wf_pageD:
  assumes "wf_page p"
  shows "length (Data p) = PageSize"
    and "4 + slotCount p * 4 \<le> freeSpace p" and "freeSpace p \<le> PageSize"
    and "i < slotCount p \<Longrightarrow> slotLen i p \<noteq> 0 \<Longrightarrow> freeSpace p \<le> slotOff i p"
    and "i < slotCount p \<Longrightarrow> slotOff i p + slotLen i p \<le> PageSize"
    and "i < slotCount p \<Longrightarrow> j < i \<Longrightarrow> slotLen i p \<noteq> 0 \<Longrightarrow> slotLen j p \<noteq> 0 \<Longrightarrow>
      slotOff i p + slotLen i p \<le> slotOff j p"
  using assms unfolding wf_page_def by (fastforce+)

lemma length_page_rows [simp]: "length (page_rows p) = slotCount p"
  by (simp add: page_rows_def)

lemma nth_page_rows: "i < slotCount p \<Longrightarrow> page_rows p ! i = slotBytes p i"
  by (simp add: page_rows_def)

lemma length_slotBytes: "wf_page p \<Longrightarrow> i < slotCount p \<Longrightarrow> length (slotBytes p i) = slotLen i p"
  by (simp add: slotBytes_def length_bslice wf_pageD)

text \<open>The new page is well formed and has no rows.\<close>

lemma NewPage_header [simp]: "slotCount NewPage = 0" "freeSpace NewPage = PageSize"
  by (simp_all add: NewPage_def zeroPage_def slotCount_def freeSpace_def bytes_simps PageSize_def)
    (simp add: bslice_def numeral_2_eq_2)

lemma wf_NewPage: "wf_page NewPage"
  by (simp add: wf_page_def) (simp add: NewPage_def zeroPage_def bytes_simps)

lemma page_rows_NewPage [simp]: "page_rows NewPage = []"
  by (simp add: page_rows_def)

text \<open>\<open>Page_Insert\<close> on a well-formed page: it succeeds exactly when the row and its directory
  entry fit, and then only the header, the new entry and the new row change.\<close>

lemma Page_Insert_full:
  "freeSpace p < 4 + slotCount p * 4 + (length bs + 4) \<Longrightarrow>
   Page_Insert p bs = (p, Inl (Errorf ''page is full'' []))"
  by (simp add: Page_Insert_def Let_def)

lemma Page_Insert_ok:
  assumes "wf_page p" and "4 + slotCount p * 4 + (length bs + 4) \<le> freeSpace p"
  shows "Page_Insert p bs = (fst (Page_Insert p bs), Inr (slotCount p))"
  using assms wf_pageD(1,3) [OF assms(1)] by (simp add: Page_Insert_def Let_def)

lemma Page_Insert_parts:
  assumes wf: "wf_page p" and fit: "4 + slotCount p * 4 + (length bs + 4) \<le> freeSpace p"
  defines "p' \<equiv> fst (Page_Insert p bs)"
  shows "length (Data p') = PageSize"
    and "slotCount p' = Suc (slotCount p)"
    and "freeSpace p' = freeSpace p - length bs"
    and "slotOff (slotCount p) p' = freeSpace p - length bs"
    and "slotLen (slotCount p) p' = length bs"
    and "i < slotCount p \<Longrightarrow> slotOff i p' = slotOff i p"
    and "i < slotCount p \<Longrightarrow> slotLen i p' = slotLen i p"
    and "bslice (freeSpace p - length bs) (length bs) (Data p') = bs"
    and "freeSpace p \<le> a \<Longrightarrow> bslice a n (Data p') = bslice a n (Data p)"
proof -
  note D = wf_pageD(1-3) [OF wf]
  have small: "slotCount p < 1024" "length bs < 4096" "freeSpace p \<le> 4096"
    using D fit by (simp_all add: PageSize_def)
  have p': "Data p' = bsplice 2 (putUint 2 (freeSpace p - length bs))
      (bsplice 0 (putUint 2 (slotCount p + 1))
        (bsplice (4 + slotCount p * 4 + 2) (putUint 2 (length bs))
          (bsplice (4 + slotCount p * 4) (putUint 2 (freeSpace p - length bs))
            (bsplice (freeSpace p - length bs) bs (Data p)))))"
    using D fit by (simp add: p'_def Page_Insert_def Let_def)
  show "length (Data p') = PageSize"
    using D fit by (simp add: p' bytes_simps)
  show "slotCount p' = Suc (slotCount p)"
    using D fit small by (simp add: slotCount_def [of p'] p' bytes_simps)
  show "freeSpace p' = freeSpace p - length bs"
    using D fit small by (simp add: freeSpace_def [of p'] p' bytes_simps)
  show "slotOff (slotCount p) p' = freeSpace p - length bs"
    using D fit small by (simp add: slotOff_def [of _ p'] p' bytes_simps)
  show "slotLen (slotCount p) p' = length bs"
    using D fit small by (simp add: slotLen_def [of _ p'] p' bytes_simps)
  show "i < slotCount p \<Longrightarrow> slotOff i p' = slotOff i p"
    using D fit by (simp add: slotOff_def p' bytes_simps)
  show "i < slotCount p \<Longrightarrow> slotLen i p' = slotLen i p"
    using D fit by (simp add: slotLen_def p' bytes_simps)
  show "bslice (freeSpace p - length bs) (length bs) (Data p') = bs"
    using D fit by (simp add: p' bytes_simps)
  show "freeSpace p \<le> a \<Longrightarrow> bslice a n (Data p') = bslice a n (Data p)"
    using D fit by (simp add: p' bytes_simps)
qed

lemma Page_Insert_wf:
  assumes wf: "wf_page p" and fit: "4 + slotCount p * 4 + (length bs + 4) \<le> freeSpace p"
  shows "wf_page (fst (Page_Insert p bs))"
proof -
  let ?p' = "fst (Page_Insert p bs)"
  note P = Page_Insert_parts [OF wf fit] and D = wf_pageD [OF wf]
  have off: "slotOff i ?p' = (if i = slotCount p then freeSpace p - length bs else slotOff i p)"
    and len: "slotLen i ?p' = (if i = slotCount p then length bs else slotLen i p)"
    if "i < Suc (slotCount p)" for i
    using P that by (auto simp: less_Suc_eq)
  have range: "slotLen i p = 0 \<or> freeSpace p \<le> slotOff i p \<and> slotOff i p + slotLen i p \<le> PageSize"
    and low: "slotOff i p + slotLen i p \<le> PageSize" if "i < slotCount p" for i
    using D(4,5) that by auto
  show ?thesis unfolding wf_page_def P(1-3)
  proof (intro conjI allI impI)
    show "4 + Suc (slotCount p) * 4 \<le> freeSpace p - length bs" using fit by simp
    show "freeSpace p - length bs \<le> PageSize" using D(3) by simp
  next
    fix i assume i: "i < Suc (slotCount p)"
    then show "slotLen i ?p' = 0 \<or>
        freeSpace p - length bs \<le> slotOff i ?p' \<and> slotOff i ?p' + slotLen i ?p' \<le> PageSize"
      using range [of i] D(3) fit by (auto simp: off len)
    show "slotOff i ?p' \<le> PageSize" using i low [of i] D(3) by (auto simp: off less_Suc_eq)
    fix j assume j: "j < i"
    show "slotLen i ?p' = 0 \<or> slotLen j ?p' = 0 \<or> slotOff i ?p' + slotLen i ?p' \<le> slotOff j ?p'"
    proof (cases "i = slotCount p")
      case True
      with j range [of j] fit show ?thesis by (auto simp: off len)
    next
      case False
      with i j D(6) [of i j] show ?thesis by (auto simp: off len)
    qed
  qed simp
qed

lemma Page_Insert_rows:
  assumes wf: "wf_page p" and fit: "4 + slotCount p * 4 + (length bs + 4) \<le> freeSpace p"
  shows "page_rows (fst (Page_Insert p bs)) = page_rows p @ [bs]"
proof -
  note P = Page_Insert_parts [OF wf fit] and D = wf_pageD [OF wf]
  have "slotBytes (fst (Page_Insert p bs)) i = slotBytes p i" if "i < slotCount p" for i
    using that P(6,7) [OF that] P(9) [of "slotOff i p"] D(4) [OF that]
    by (cases "slotLen i p = 0") (simp_all add: slotBytes_def)
  then show ?thesis by (simp add: page_rows_def P(2)) (simp add: slotBytes_def P)
qed

text \<open>\<open>Page_Get\<close> reads the row of the slot; the page never refuses a slot of the directory.\<close>

lemma Page_Get_eq:
  assumes "wf_page p"
  shows "Page_Get p s =
    (if 0 \<le> s \<and> s < int (slotCount p)
     then Inr (page_rows p ! nat s, drop (slotOff (nat s) p + slotLen (nat s) p) (Data p))
     else Inl (Errorf ''invalid slot index'' []))"
proof (cases "0 \<le> s \<and> s < int (slotCount p)")
  case True
  then have "nat s < slotCount p" by (simp add: nat_less_iff)
  with True wf_pageD(1-3) [OF assms] wf_pageD(5) [OF assms, of "nat s"] show ?thesis
    by (auto simp: Page_Get_def Let_def page_rows_def slotBytes_def)
qed (auto simp: Page_Get_def)

text \<open>\<open>Page_Update\<close> replaces a row by one that is no longer, in place.\<close>

lemma Page_Update_parts:
  assumes wf: "wf_page p" and i: "i < slotCount p" and fit: "length bs \<le> slotLen i p"
  defines "p' \<equiv> fst (Page_Update p (int i) bs)"
  shows "Page_Update p (int i) bs = (p', Inr ())"
    and "length (Data p') = PageSize"
    and "slotCount p' = slotCount p" and "freeSpace p' = freeSpace p"
    and "j < slotCount p \<Longrightarrow> slotOff j p' = slotOff j p"
    and "j < slotCount p \<Longrightarrow> slotLen j p' = (if j = i then length bs else slotLen j p)"
    and "slotBytes p' i = bs"
    and "j < slotCount p \<Longrightarrow> j \<noteq> i \<Longrightarrow> slotBytes p' j = slotBytes p j"
proof -
  note D = wf_pageD [OF wf]
  have bounds: "slotOff i p + slotLen i p \<le> PageSize" "4 + slotCount p * 4 \<le> freeSpace p"
    "freeSpace p \<le> PageSize" "length (Data p) = PageSize" "slotCount p < 1024" "length bs < 65536"
    using D(1-3) D(5) [OF i] fit by (auto simp: PageSize_def)
  have high: "bs = [] \<or> freeSpace p \<le> slotOff i p" using D(4) [OF i] fit by (cases "slotLen i p = 0") auto
  define d1 where "d1 = bsplice (slotOff i p) bs (Data p)"
  have d1_low: "bslice a n d1 = bslice a n (Data p)" if "a + n \<le> freeSpace p" for a n
    using high that bounds fit by (auto simp: d1_def bytes_simps)
  have eq: "Page_Update p (int i) bs = (p\<lparr>Data := bsplice (4 + i * 4 + 2) (putUint 2 (length bs)) d1\<rparr>, Inr ())"
    using i fit bounds by (simp add: Page_Update_def Let_def d1_def)
  then have p': "Data p' = bsplice (4 + i * 4 + 2) (putUint 2 (length bs)) d1"
    by (simp add: p'_def)
  from eq show "Page_Update p (int i) bs = (p', Inr ())" by (simp add: p'_def)
  have len_d1: "length d1 = PageSize" using bounds fit by (simp add: d1_def bytes_simps)
  then show "length (Data p') = PageSize" using bounds i by (simp add: p' bytes_simps)
  show sc: "slotCount p' = slotCount p"
    using bounds i len_d1 by (simp add: slotCount_def p' bytes_simps d1_low)
  show "freeSpace p' = freeSpace p"
    using bounds i len_d1 by (simp add: freeSpace_def p' bytes_simps d1_low)
  show off: "slotOff j p' = slotOff j p" if "j < slotCount p" for j
    using bounds i that len_d1 by (cases "j < i"; cases "j = i") (simp_all add: slotOff_def p' bytes_simps d1_low)
  show len: "slotLen j p' = (if j = i then length bs else slotLen j p)" if "j < slotCount p" for j
    using bounds i that len_d1 by (cases "j < i"; cases "j = i") (simp_all add: slotLen_def p' bytes_simps d1_low)
  have data: "bslice a n (Data p') = bslice a n d1" if "freeSpace p \<le> a" for a n
    using bounds i that len_d1 by (simp add: p' bytes_simps)
  show "slotBytes p' i = bs"
    using i high bounds fit by (cases "bs = []") (simp_all add: slotBytes_def off len data d1_def bytes_simps)
  show "slotBytes p' j = slotBytes p j" if j: "j < slotCount p" "j \<noteq> i" for j
  proof (cases "slotLen j p = 0 \<or> bs = []")
    case True
    then show ?thesis
      using j off len data [of "slotOff j p"] D(4) [OF j(1)]
      by (cases "slotLen j p = 0") (auto simp: slotBytes_def d1_def)
  next
    case False
    with fit have "slotLen i p \<noteq> 0" by (cases bs) auto
    with False have "slotOff j p + slotLen j p \<le> slotOff i p \<or> slotOff i p + length bs \<le> slotOff j p"
      using D(6) [OF i, of j] D(6) [OF j(1), of i] fit j(2) by (cases "j < i") auto
    then show ?thesis
      using j False bounds fit D(4) [OF j(1)] by (simp add: slotBytes_def off len data d1_def bytes_simps)
  qed
qed

lemma Page_Update_wf:
  assumes wf: "wf_page p" and i: "i < slotCount p" and fit: "length bs \<le> slotLen i p"
  shows "wf_page (fst (Page_Update p (int i) bs))"
proof -
  let ?p' = "fst (Page_Update p (int i) bs)"
  note P = Page_Update_parts [OF wf i fit] and D = wf_pageD [OF wf]
  show ?thesis unfolding wf_page_def P(2-4)
  proof (intro conjI allI impI)
    fix k assume k: "k < slotCount p"
    show "slotLen k ?p' = 0 \<or> freeSpace p \<le> slotOff k ?p' \<and> slotOff k ?p' + slotLen k ?p' \<le> PageSize"
      using D(4) [OF k] D(5) [OF k] fit k by (cases "slotLen k p = 0") (auto simp: P(5,6))
    show "slotOff k ?p' \<le> PageSize" using D(5) [OF k] k by (simp add: P(5))
    fix j assume j: "j < k"
    with k have j': "j < slotCount p" by simp
    show "slotLen k ?p' = 0 \<or> slotLen j ?p' = 0 \<or> slotOff k ?p' + slotLen k ?p' \<le> slotOff j ?p'"
      using D(6) [OF k j] fit P(5,6) [OF k] P(5,6) [OF j']
      by (cases "slotLen i p = 0"; cases "slotLen j p = 0") (auto split: if_splits)
  qed (use D in simp_all)
qed

lemma Page_Update_rows:
  assumes wf: "wf_page p" and i: "i < slotCount p" and fit: "length bs \<le> slotLen i p"
  shows "page_rows (fst (Page_Update p (int i) bs)) = (page_rows p)[i := bs]"
  using Page_Update_parts [OF wf i fit] i
  by (auto intro!: nth_equalityI [where xs = "page_rows _"] simp: nth_page_rows nth_list_update)

lemma Page_Update_eq:
  assumes "wf_page p"
  shows "Page_Update p s bs =
    (if \<not> (0 \<le> s \<and> s < int (slotCount p)) then (p, Inl (Errorf ''invalid slot index'' []))
     else if length bs \<le> length (page_rows p ! nat s) then (fst (Page_Update p s bs), Inr ())
     else (p, Inl (Errorf ''row too large'' [])))"
proof (cases "0 \<le> s \<and> s < int (slotCount p)")
  case True
  then obtain i where s: "s = int i" and i: "i < slotCount p"
    by (metis nat_eq_iff2 of_nat_less_iff)
  have len: "length (page_rows p ! i) = slotLen i p"
    using assms i by (simp add: nth_page_rows length_slotBytes)
  show ?thesis
  proof (cases "length bs \<le> slotLen i p")
    case True
    with Page_Update_parts(1) [OF assms i True] show ?thesis by (simp add: s i len)
  next
    case False
    with wf_pageD(1-3) [OF assms] i show ?thesis
      by (simp add: s Page_Update_def Let_def len)
  qed
qed (auto simp: Page_Update_def)

text \<open>\<open>Page_Delete\<close> leaves an empty row behind.\<close>

lemma Page_Delete_parts:
  assumes wf: "wf_page p" and i: "i < slotCount p"
  defines "p' \<equiv> fst (Page_Delete p (int i))"
  shows "Page_Delete p (int i) = (p', Inr ())"
    and "length (Data p') = PageSize"
    and "slotCount p' = slotCount p" and "freeSpace p' = freeSpace p"
    and "j < slotCount p \<Longrightarrow> slotOff j p' = (if j = i then 0 else slotOff j p)"
    and "j < slotCount p \<Longrightarrow> slotLen j p' = (if j = i then 0 else slotLen j p)"
    and "j < slotCount p \<Longrightarrow> slotBytes p' j = (if j = i then [] else slotBytes p j)"
proof -
  note D = wf_pageD [OF wf]
  have eq: "Page_Delete p (int i) = (p\<lparr>Data := bsplice (4 + i * 4 + 2) (putUint 2 0)
      (bsplice (4 + i * 4) (putUint 2 0) (Data p))\<rparr>, Inr ())"
    using i D(1-3) by (simp add: Page_Delete_def Let_def)
  then have p': "Data p' = bsplice (4 + i * 4 + 2) (putUint 2 0)
      (bsplice (4 + i * 4) (putUint 2 0) (Data p))"
    by (simp add: p'_def)
  from eq show "Page_Delete p (int i) = (p', Inr ())" by (simp add: p'_def)
  show "length (Data p') = PageSize" using D(1-3) i by (simp add: p' bytes_simps)
  show "slotCount p' = slotCount p" using D(1-3) i by (simp add: slotCount_def p' bytes_simps)
  show "freeSpace p' = freeSpace p" using D(1-3) i by (simp add: freeSpace_def p' bytes_simps)
  show off: "slotOff j p' = (if j = i then 0 else slotOff j p)" if "j < slotCount p" for j
    using D(1-3) i that by (cases "j < i"; cases "j = i") (simp_all add: slotOff_def p' bytes_simps)
  show len: "slotLen j p' = (if j = i then 0 else slotLen j p)" if "j < slotCount p" for j
    using D(1-3) i that by (cases "j < i"; cases "j = i") (simp_all add: slotLen_def p' bytes_simps)
  show "slotBytes p' j = (if j = i then [] else slotBytes p j)" if j: "j < slotCount p" for j
    using D(1-3) D(4) [OF j] i j
    by (cases "slotLen j p = 0") (auto simp: slotBytes_def off len p' bytes_simps)
qed

lemma Page_Delete_wf:
  assumes wf: "wf_page p" and i: "i < slotCount p"
  shows "wf_page (fst (Page_Delete p (int i)))"
proof -
  note P = Page_Delete_parts [OF wf i] and D = wf_pageD [OF wf]
  show ?thesis unfolding wf_page_def P(2-4)
  proof (intro conjI allI impI)
    fix k j assume "k < slotCount p" and "j < k"
    then show "slotLen k (fst (Page_Delete p (int i))) = 0 \<or> slotLen j (fst (Page_Delete p (int i))) = 0 \<or>
        slotOff k (fst (Page_Delete p (int i))) + slotLen k (fst (Page_Delete p (int i)))
        \<le> slotOff j (fst (Page_Delete p (int i)))"
      using D(6) [of k j] by (auto simp: P(5,6))
  next
    fix k assume k: "k < slotCount p"
    show "slotOff k (fst (Page_Delete p (int i))) \<le> PageSize" using D(5) [OF k] k by (simp add: P(5))
  qed (use D in \<open>auto simp: P(5,6)\<close>)
qed

lemma Page_Delete_rows:
  assumes wf: "wf_page p" and i: "i < slotCount p"
  shows "page_rows (fst (Page_Delete p (int i))) = (page_rows p)[i := []]"
  using Page_Delete_parts [OF wf i] i
  by (auto intro!: nth_equalityI [where xs = "page_rows _"] simp: nth_page_rows nth_list_update)

lemma Page_Delete_eq:
  assumes "wf_page p"
  shows "Page_Delete p s =
    (if 0 \<le> s \<and> s < int (slotCount p) then (fst (Page_Delete p s), Inr ())
     else (p, Inl (Errorf ''invalid slot index'' [])))"
proof (cases "0 \<le> s \<and> s < int (slotCount p)")
  case True
  then obtain i where "s = int i" "i < slotCount p" by (metis nat_eq_iff2 of_nat_less_iff)
  with Page_Delete_parts(1) [OF assms] show ?thesis by auto
qed (auto simp: Page_Delete_def)

section \<open>The interface of a page to its clients\<close>

text \<open>What the heap file relies on: a container whose rows are numbered in the order of
  insertion, with failed calls that change nothing.\<close>

locale row_container =
  fixes wf :: "'p \<Rightarrow> bool"
    and rows :: "'p \<Rightarrow> byte list list"
    and ins :: "'p \<Rightarrow> byte list \<Rightarrow> 'p \<times> nat res"
    and get :: "'p \<Rightarrow> int \<Rightarrow> goslice res"
    and upd :: "'p \<Rightarrow> int \<Rightarrow> byte list \<Rightarrow> 'p \<times> unit res"
    and del :: "'p \<Rightarrow> int \<Rightarrow> 'p \<times> unit res"
  assumes ins_ok: "wf p \<Longrightarrow> ins p bs = (p', Inr k) \<Longrightarrow>
      wf p' \<and> k = length (rows p) \<and> rows p' = rows p @ [bs]"
    and ins_err: "wf p \<Longrightarrow> ins p bs = (p', Inl e) \<Longrightarrow> p' = p \<and> e = Errorf ''page is full'' []"
    and get_ok: "wf p \<Longrightarrow> i < length (rows p) \<Longrightarrow> \<exists>sp. get p (int i) = Inr (rows p ! i, sp)"
    and get_err: "wf p \<Longrightarrow> length (rows p) \<le> i \<Longrightarrow>
      get p (int i) = Inl (Errorf ''invalid slot index'' [])"
    and upd_ok: "wf p \<Longrightarrow> i < length (rows p) \<Longrightarrow> length bs \<le> length (rows p ! i) \<Longrightarrow>
      \<exists>p'. upd p (int i) bs = (p', Inr ()) \<and> wf p' \<and> rows p' = (rows p)[i := bs]"
    and upd_large: "wf p \<Longrightarrow> i < length (rows p) \<Longrightarrow> length (rows p ! i) < length bs \<Longrightarrow>
      upd p (int i) bs = (p, Inl (Errorf ''row too large'' []))"
    and upd_err: "wf p \<Longrightarrow> length (rows p) \<le> i \<Longrightarrow>
      upd p (int i) bs = (p, Inl (Errorf ''invalid slot index'' []))"
    and del_ok: "wf p \<Longrightarrow> i < length (rows p) \<Longrightarrow>
      \<exists>p'. del p (int i) = (p', Inr ()) \<and> wf p' \<and> rows p' = (rows p)[i := []]"
    and del_err: "wf p \<Longrightarrow> length (rows p) \<le> i \<Longrightarrow>
      del p (int i) = (p, Inl (Errorf ''invalid slot index'' []))"
begin

lemma get_inserted:
  assumes "wf p" and "ins p bs = (p', Inr k)"
  shows "\<exists>sp. get p' (int k) = Inr (bs, sp)"
  using ins_ok [OF assms] get_ok [of p' k] by auto

lemma get_other_after_insert:
  assumes "wf p" and "ins p bs = (p', Inr k)" and "i < length (rows p)"
  shows "\<exists>sp. get p' (int i) = Inr (rows p ! i, sp)"
  using ins_ok [OF assms(1,2)] get_ok [of p' i] assms(3) by (auto simp: nth_append)

lemma get_updated:
  assumes "wf p" and "upd p (int i) bs = (p', Inr ())"
  shows "wf p' \<and> (\<exists>sp. get p' (int i) = Inr (bs, sp))"
proof -
  from assms upd_err [of p i bs] have i: "i < length (rows p)" by (cases "i < length (rows p)") auto
  with assms upd_large [of p i bs] have "length bs \<le> length (rows p ! i)"
    by (cases "length bs \<le> length (rows p ! i)") auto
  from upd_ok [OF assms(1) i this] assms(2) have "wf p'" "rows p' = (rows p)[i := bs]" by auto
  with get_ok [of p' i] i show ?thesis by auto
qed

lemma deleted_is_tombstone:
  assumes "wf p" and "del p (int i) = (p', Inr ())" and "bs \<noteq> []"
  shows "(\<exists>sp. get p' (int i) = Inr ([], sp)) \<and> upd p' (int i) bs = (p', Inl (Errorf ''row too large'' []))"
proof -
  from assms del_err [of p i] have i: "i < length (rows p)" by (cases "i < length (rows p)") auto
  from del_ok [OF assms(1) i] assms(2) have "wf p'" "rows p' = (rows p)[i := []]" by auto
  with get_ok [of p' i] upd_large [of p' i bs] i assms(3) show ?thesis by auto
qed

end

interpretation pg: row_container wf_page page_rows Page_Insert Page_Get Page_Update Page_Delete
proof
  fix p bs p' k assume wf: "wf_page p" and eq: "Page_Insert p bs = (p', Inr k)"
  then have fit: "4 + slotCount p * 4 + (length bs + 4) \<le> freeSpace p"
    using Page_Insert_full [of p bs] by (cases "freeSpace p < 4 + slotCount p * 4 + (length bs + 4)") auto
  from eq Page_Insert_ok [OF wf fit] have "p' = fst (Page_Insert p bs)" "k = slotCount p" by auto
  with Page_Insert_wf [OF wf fit] Page_Insert_rows [OF wf fit]
  show "wf_page p' \<and> k = length (page_rows p) \<and> page_rows p' = page_rows p @ [bs]" by simp
next
  fix p bs p' e assume wf: "wf_page p" and eq: "Page_Insert p bs = (p', Inl e)"
  then show "p' = p \<and> e = Errorf ''page is full'' []"
    using Page_Insert_full [of p bs] Page_Insert_ok [OF wf, of bs]
    by (cases "freeSpace p < 4 + slotCount p * 4 + (length bs + 4)") auto
next
  fix p i and bs :: "byte list" assume wf: "wf_page p" and i: "i < length (page_rows p)"
    and fit: "length bs \<le> length (page_rows p ! i)"
  then have "i < slotCount p" "length bs \<le> slotLen i p"
    by (simp_all add: nth_page_rows length_slotBytes)
  with wf show "\<exists>p'. Page_Update p (int i) bs = (p', Inr ()) \<and> wf_page p' \<and> page_rows p' = (page_rows p)[i := bs]"
    using Page_Update_parts(1) Page_Update_wf Page_Update_rows by blast
next
  fix p i assume "wf_page p" and "i < length (page_rows p)"
  then show "\<exists>p'. Page_Delete p (int i) = (p', Inr ()) \<and> wf_page p' \<and> page_rows p' = (page_rows p)[i := []]"
    using Page_Delete_parts(1) Page_Delete_wf Page_Delete_rows by (metis length_page_rows)
qed (auto simp: Page_Get_eq Page_Update_eq Page_Delete_eq)

section \<open>Properties\<close>

text \<open>C15: every row whose texts are shorter than 65536 bytes is read back from its serialized
  form, whatever bytes follow it in the page: header, number of values and every non-null cell are
  the same, and a NULL stays a NULL.\<close>

theorem row_codec_roundtrip:
  assumes "storable r"
  shows "Deserialize (Serialize r, spare) = Inr (stored_row r)"
  using assms by (rule Deserialize_Serialize)

theorem row_codec_roundtrip_witness:
  "Deserialize (Serialize \<lparr>Values = [NewInt 7, NewText ''ab'', NullValue TypeBool], Xmin = 3, Xmax = 0\<rparr>, [1]) =
   Inr \<lparr>Values = [NewInt 7, NewText ''ab'', zeroValue\<lparr>vNull := True\<rparr>], Xmin = 3, Xmax = 0\<rparr>"
  using row_codec_roundtrip [of "\<lparr>Values = [NewInt 7, NewText ''ab'', NullValue TypeBool], Xmin = 3, Xmax = 0\<rparr>" "[1]"]
  by (simp add: storable_def stored_row_def stored_value_def)

text \<open>C16: on a well-formed page \<open>Page_Insert\<close> either appends the row under the next slot number,
  keeps every other row and the layout invariant, or reports a full page and changes nothing; it
  succeeds exactly when the row and its 4-byte directory entry fit between directory and data.\<close>

theorem Page_Insert_refines_append:
  assumes "wf_page p"
  shows "if slotCount p * 4 + length bs + 8 \<le> freeSpace p
    then \<exists>p'. Page_Insert p bs = (p', Inr (length (page_rows p))) \<and> wf_page p' \<and>
      page_rows p' = page_rows p @ [bs]
    else Page_Insert p bs = (p, Inl (Errorf ''page is full'' []))"
  using Page_Insert_full [of p bs] Page_Insert_ok [OF assms, of bs] Page_Insert_wf [OF assms, of bs]
    Page_Insert_rows [OF assms, of bs]
  by (auto simp: algebra_simps not_le)

theorem Page_Insert_refines_append_witness:
  "\<exists>p'. Page_Insert NewPage [1, 2, 3] = (p', Inr 0) \<and> wf_page p' \<and> page_rows p' = [[1, 2, 3]]"
  using Page_Insert_refines_append [OF wf_NewPage, of "[1, 2, 3]"] by (simp add: PageSize_def)

end
