(* ===== verification/HeapFile.thy ===== *)
theory HeapFile
  imports Page
begin

text \<open>
  The heap file and its buffer pool (\<^verbatim>\<open>src/storage/heapfile.go\<close>, \<^verbatim>\<open>src/storage/bufferpool.go\<close>).
  A heap file is the bytes of its file on disk together with the cache in front of it; every
  operation takes and returns the whole.  Go's map iteration order, which chooses the page to
  evict, is not specified: the field \<open>mapOrder\<close> lists the rotations that the next iterations
  start with, so every page can be the first one met.  The lemmas show that the cache is transparent
  (\<open>pageAt\<close>, the page a client sees, is never changed by fetching, evicting or flushing) and
  that the heap file is a map from row identifiers to byte strings.
\<close>

unbundle bit_operations_syntax

section \<open>Row identifiers\<close>

definition encodeRowID :: "nat \<Rightarrow> nat \<Rightarrow> rowID" where
  "encodeRowID pageID slotIndex = push_bit 16 (word_of_nat pageID) OR word_of_nat slotIndex"

definition decodeRowID :: "rowID \<Rightarrow> nat \<times> nat" where
  "decodeRowID rid = (unat (drop_bit 16 rid), unat (rid AND 0xFFFF))"

section \<open>State\<close>

record bufferPool =
  pages :: "(nat \<times> page) list"
  dirty :: "nat list"
  capacity :: nat
  mapOrder :: "nat list"

record heapFile =
  fileBytes :: "byte list"
  pool :: bufferPool

definition NewBufferPool :: "nat \<Rightarrow> nat list \<Rightarrow> bufferPool" where
  "NewBufferPool cap ord = \<lparr>pages = [], dirty = [], capacity = cap, mapOrder = ord\<rparr>"

text \<open>\<^verbatim>\<open>NewHeapFile\<close> on a file with the given contents (empty when it is created), with its pool.\<close>

definition NewHeapFile :: "byte list \<Rightarrow> bufferPool \<Rightarrow> heapFile" where
  "NewHeapFile contents bp = \<lparr>fileBytes = contents, pool = bp\<rparr>"

text \<open>The order of \<^verbatim>\<open>for k := range m\<close> over a map with these keys.\<close>

definition range_keys :: "bufferPool \<Rightarrow> nat list \<Rightarrow> bufferPool \<times> nat list" where
  "range_keys bp ks =
     (case mapOrder bp of [] \<Rightarrow> (bp, ks) | r # rs \<Rightarrow> (bp\<lparr>mapOrder := rs\<rparr>, rotate r ks))"

section \<open>Disk access\<close>

text \<open>\<^verbatim>\<open>File.WriteAt\<close>: writing past the end of the file fills the gap with zeros.\<close>

definition writeAt :: "byte list \<Rightarrow> nat \<Rightarrow> byte list \<Rightarrow> byte list" where
  "writeAt f off bs = take off (f @ replicate (off - length f) 0) @ bs @ drop (off + length bs) f"

text \<open>\<^verbatim>\<open>File.ReadAt\<close> of a page reads \<open>n\<close> bytes and reports \<^verbatim>\<open>io.EOF\<close> when \<open>n\<close> is less than
  the page size.\<close>

definition readPage :: "byte list \<Rightarrow> nat \<Rightarrow> page res" where
  "readPage f pageID =
     (let bs = bslice (pageID * PageSize) PageSize f; n = length bs in
      if n = PageSize then Inr (zeroPage\<lparr>Data := bs\<rparr>)
      else if n = 0 then Inr zeroPage
      else Inl (Errorf ''EOF'' []))"

definition writePage :: "byte list \<Rightarrow> nat \<Rightarrow> page \<Rightarrow> byte list" where
  "writePage f pageID p = writeAt f (pageID * PageSize) (Data p)"

definition getPageCount :: "byte list \<Rightarrow> nat" where
  "getPageCount f = length f div PageSize"

section \<open>Buffer pool\<close>

definition MarkDirty :: "heapFile \<Rightarrow> nat \<Rightarrow> heapFile" where
  "MarkDirty hf pageID = hf\<lparr>pool := (pool hf)\<lparr>dirty := List.insert pageID (dirty (pool hf))\<rparr>\<rparr>"

definition Flush :: "heapFile \<Rightarrow> nat \<Rightarrow> heapFile \<times> unit res" where
  "Flush hf pageID =
     (if pageID \<in> set (dirty (pool hf)) then
        (case map_of (pages (pool hf)) pageID of
           None \<Rightarrow> (hf, Inl (Errorf ''cannot flush: page not in cache'' []))
         | Some p \<Rightarrow>
             (hf\<lparr>fileBytes := writePage (fileBytes hf) pageID p,
                 pool := (pool hf)\<lparr>dirty := removeAll pageID (dirty (pool hf))\<rparr>\<rparr>, Inr ()))
      else (hf, Inr ()))"

fun Flush_each :: "heapFile \<Rightarrow> nat list \<Rightarrow> heapFile \<times> unit res" where
  "Flush_each hf [] = (hf, Inr ())"
| "Flush_each hf (i # is) =
     (case Flush hf i of
        (hf', Inl e) \<Rightarrow> (hf', Inl e)
      | (hf', Inr _) \<Rightarrow> Flush_each hf' is)"

definition FlushAll :: "heapFile \<Rightarrow> heapFile \<times> unit res" where
  "FlushAll hf =
     (case range_keys (pool hf) (dirty (pool hf)) of
        (bp, ks) \<Rightarrow> Flush_each (hf\<lparr>pool := bp\<rparr>) ks)"

definition dropPage :: "heapFile \<Rightarrow> nat \<Rightarrow> heapFile" where
  "dropPage hf i =
     hf\<lparr>pool := (pool hf)\<lparr>pages := AList.delete i (pages (pool hf)),
                           dirty := removeAll i (dirty (pool hf))\<rparr>\<rparr>"

text \<open>Without a clean page, and without any page at all, the target stays -1 (\<open>None\<close>): flushing
  and removing page -1 do nothing.\<close>

definition evictPage :: "heapFile \<Rightarrow> heapFile \<times> unit res" where
  "evictPage hf =
     (case range_keys (pool hf) (map fst (pages (pool hf))) of
        (bp, ks) \<Rightarrow>
          (case List.find (\<lambda>k. k \<notin> set (dirty bp)) ks of
             Some k \<Rightarrow> (dropPage (hf\<lparr>pool := bp\<rparr>) k, Inr ())
           | None \<Rightarrow>
               (case range_keys bp (map fst (pages bp)) of
                  (bp', []) \<Rightarrow> (hf\<lparr>pool := bp'\<rparr>, Inr ())
                | (bp', k # _) \<Rightarrow>
                    (case Flush (hf\<lparr>pool := bp'\<rparr>) k of
                       (hf', Inl e) \<Rightarrow> (hf', Inl e)
                     | (hf', Inr _) \<Rightarrow> (dropPage hf' k, Inr ())))))"

text \<open>A cached page is changed in place through the pointer that \<^verbatim>\<open>FetchPage\<close> returned.\<close>

definition putPage :: "heapFile \<Rightarrow> nat \<Rightarrow> page \<Rightarrow> heapFile" where
  "putPage hf i p = hf\<lparr>pool := (pool hf)\<lparr>pages := AList.update i p (pages (pool hf))\<rparr>\<rparr>"

definition FetchPage :: "heapFile \<Rightarrow> nat \<Rightarrow> heapFile \<times> page res" where
  "FetchPage hf pageID =
     (case map_of (pages (pool hf)) pageID of
        Some p \<Rightarrow> (hf, Inr p)
      | None \<Rightarrow>
          (case (if length (pages (pool hf)) \<ge> capacity (pool hf) then evictPage hf
                 else (hf, Inr ())) of
             (hf', Inl e) \<Rightarrow> (hf', Inl e)
           | (hf', Inr _) \<Rightarrow>
               (case readPage (fileBytes hf') pageID of
                  Inl e \<Rightarrow> (hf', Inl e)
                | Inr p \<Rightarrow> (putPage hf' pageID p, Inr p))))"

section \<open>Heap file operations\<close>

text \<open>The loop of \<^verbatim>\<open>Insert\<close> over the existing pages: the first page with room takes the row.\<close>

fun HeapFile_tryPages :: "heapFile \<Rightarrow> byte list \<Rightarrow> nat list \<Rightarrow> heapFile \<times> rowID option res" where
  "HeapFile_tryPages hf rowBytes [] = (hf, Inr None)"
| "HeapFile_tryPages hf rowBytes (i # is) =
     (case FetchPage hf i of
        (hf1, Inl e) \<Rightarrow> (hf1, Inl e)
      | (hf1, Inr page) \<Rightarrow>
          (case Page_Insert page rowBytes of
             (page', Inr slotIndex) \<Rightarrow>
               (MarkDirty (putPage hf1 i page') i, Inr (Some (encodeRowID i slotIndex)))
           | (page', Inl e) \<Rightarrow>
               if abnormal e then (hf1, Inl e) else HeapFile_tryPages hf1 rowBytes is))"

definition HeapFile_Insert :: "heapFile \<Rightarrow> byte list \<Rightarrow> heapFile \<times> rowID res" where
  "HeapFile_Insert hf rowBytes =
     (let pageCount = getPageCount (fileBytes hf) in
      case HeapFile_tryPages hf rowBytes [0..<pageCount] of
        (hf1, Inl e) \<Rightarrow> (hf1, Inl e)
      | (hf1, Inr (Some rid)) \<Rightarrow> (hf1, Inr rid)
      | (hf1, Inr None) \<Rightarrow>
          (case Page_Insert NewPage rowBytes of
             (newPage, Inl e) \<Rightarrow> (hf1, Inl e)
           | (newPage, Inr slotIndex) \<Rightarrow>
               (putPage (hf1\<lparr>fileBytes := writePage (fileBytes hf1) pageCount newPage\<rparr>) pageCount newPage,
                Inr (encodeRowID pageCount slotIndex))))"

definition HeapFile_Get :: "heapFile \<Rightarrow> rowID \<Rightarrow> heapFile \<times> goslice res" where
  "HeapFile_Get hf rid =
     (case decodeRowID rid of (pageID, slotIndex) \<Rightarrow>
        (case FetchPage hf pageID of
           (hf1, Inl e) \<Rightarrow> (hf1, Inl e)
         | (hf1, Inr page) \<Rightarrow> (hf1, Page_Get page (int slotIndex))))"

definition HeapFile_Update :: "heapFile \<Rightarrow> rowID \<Rightarrow> byte list \<Rightarrow> heapFile \<times> unit res" where
  "HeapFile_Update hf rid rowBytes =
     (case decodeRowID rid of (pageID, slotIndex) \<Rightarrow>
        (case FetchPage hf pageID of
           (hf1, Inl e) \<Rightarrow> (hf1, Inl e)
         | (hf1, Inr page) \<Rightarrow>
             (case Page_Update page (int slotIndex) rowBytes of
                (page', Inr _) \<Rightarrow> (MarkDirty (putPage hf1 pageID page') pageID, Inr ())
              | (page', Inl e) \<Rightarrow> (hf1, Inl e))))"

definition HeapFile_Delete :: "heapFile \<Rightarrow> rowID \<Rightarrow> heapFile \<times> unit res" where
  "HeapFile_Delete hf rid =
     (case decodeRowID rid of (pageID, slotIndex) \<Rightarrow>
        (case FetchPage hf pageID of
           (hf1, Inl e) \<Rightarrow> (hf1, Inl e)
         | (hf1, Inr page) \<Rightarrow>
             (case Page_Delete page (int slotIndex) of
                (page', Inl e) \<Rightarrow> (hf1, Inl e)
              | (page', Inr _) \<Rightarrow> (MarkDirty (putPage hf1 pageID page') pageID, Inr ()))))"

section \<open>Specification\<close>

text \<open>The page with a number, as the file alone and as a client of the pool sees it.\<close>

definition diskPage :: "byte list \<Rightarrow> nat \<Rightarrow> page" where
  "diskPage f i =
     (if i < getPageCount f then zeroPage\<lparr>Data := bslice (i * PageSize) PageSize f\<rparr> else zeroPage)"

definition pageAt :: "heapFile \<Rightarrow> nat \<Rightarrow> page" where
  "pageAt hf i =
     (case map_of (pages (pool hf)) i of Some p \<Rightarrow> p | None \<Rightarrow> diskPage (fileBytes hf) i)"

abbreviation pageCount :: "heapFile \<Rightarrow> nat" where
  "pageCount hf \<equiv> getPageCount (fileBytes hf)"

text \<open>A page as the program makes them: a full array, the two unused fields at their zero value.\<close>

definition plainPage :: "page \<Rightarrow> bool" where
  "plainPage p \<longleftrightarrow> length (Data p) = PageSize \<and> pgPageID p = 0 \<and> \<not> IsDirty p"

text \<open>The cache invariant: only whole pages on disk, one cache entry per page, every dirty page is
  cached and exists on disk, every clean cached page equals its page on disk.\<close>

definition pool_inv :: "heapFile \<Rightarrow> bool" where
  "pool_inv hf \<longleftrightarrow>
     length (fileBytes hf) mod PageSize = 0 \<and>
     distinct (map fst (pages (pool hf))) \<and>
     set (dirty (pool hf)) \<subseteq> fst ` set (pages (pool hf)) \<and>
     (\<forall>i \<in> set (dirty (pool hf)). i < pageCount hf) \<and>
     (\<forall>i p. map_of (pages (pool hf)) i = Some p \<longrightarrow>
        plainPage p \<and> (i \<notin> set (dirty (pool hf)) \<longrightarrow> p = diskPage (fileBytes hf) i))"

section \<open>Row identifiers are read back\<close>

lemma unat_encodeRowID:
  assumes "p < 2 ^ 48" and "s < 2 ^ 16"
  shows "unat (encodeRowID p s) = p * 65536 + s"
proof -
  have "push_bit 16 (word_of_nat p :: rowID) AND word_of_nat s = 0"
  proof (rule bit_word_eqI)
    fix n assume "n < LENGTH(64)"
    have "\<not> bit s n" if "16 \<le> n"
    proof -
      from assms(2) that have "s < 2 ^ n"
        by (metis (no_types, lifting) less_le_trans one_le_numeral power_increasing)
      then show ?thesis by (simp add: bit_iff_odd)
    qed
    then show "bit (push_bit 16 (word_of_nat p :: rowID) AND word_of_nat s) n = bit (0 :: rowID) n"
      by (auto simp: bit_simps)
  qed
  then have "encodeRowID p s = push_bit 16 (word_of_nat p) + word_of_nat s"
    by (simp add: encodeRowID_def disjunctive_add_eq_or)
  also have "\<dots> = word_of_nat (p * 65536 + s)"
    by (simp add: push_bit_eq_mult)
  finally have "encodeRowID p s = word_of_nat (p * 65536 + s)" .
  moreover have "p * 65536 + s < 2 ^ 64" using assms by simp
  ultimately show ?thesis by (simp only: unat_of_nat) simp
qed

lemma decodeRowID_eq: "decodeRowID rid = (unat rid div 65536, unat rid mod 65536)"
proof -
  have "unat (rid AND mask 16) = unat rid mod 65536"
    by (simp add: take_bit_eq_mod unat_mod flip: take_bit_eq_mask)
  then show ?thesis
    by (simp add: decodeRowID_def drop_bit_eq_div unat_div mask_eq_exp_minus_1)
qed

lemma decode_encodeRowID [simp]:
  "p < 2 ^ 48 \<Longrightarrow> s < 2 ^ 16 \<Longrightarrow> decodeRowID (encodeRowID p s) = (p, s)"
  by (simp add: decodeRowID_eq unat_encodeRowID)

lemma encode_decodeRowID: "decodeRowID rid = (p, s) \<Longrightarrow> encodeRowID p s = rid"
proof -
  assume d: "decodeRowID rid = (p, s)"
  have "unat rid < 2 ^ 64" using unsigned_less [of rid, where 'a = nat] by simp
  with d have "p < 2 ^ 48" "s < 2 ^ 16" by (auto simp: decodeRowID_eq)
  then have "unat (encodeRowID p s) = unat rid"
    using d by (auto simp: unat_encodeRowID decodeRowID_eq)
  then show ?thesis by (simp add: unsigned_word_eqI)
qed

section \<open>Pages on disk\<close>

lemma plain_zeroPage [simp]: "plainPage zeroPage"
  by (simp add: plainPage_def zeroPage_def)

lemma plain_NewPage [simp]: "plainPage NewPage"
  by (simp add: plainPage_def NewPage_def zeroPage_def bytes_simps)

lemma plainPage_eq: "plainPage p \<Longrightarrow> zeroPage\<lparr>Data := Data p\<rparr> = p"
  by (simp add: plainPage_def zeroPage_def)

lemma PageSize_not_0 [simp]: "PageSize \<noteq> 0"
  by (simp add: PageSize_def)

lemma file_length: "length f mod PageSize = 0 \<Longrightarrow> length f = getPageCount f * PageSize"
  unfolding getPageCount_def by (metis add.right_neutral div_mult_mod_eq)

lemma plain_diskPage: "length f mod PageSize = 0 \<Longrightarrow> plainPage (diskPage f i)"
proof -
  assume "length f mod PageSize = 0"
  then have len: "length f = getPageCount f * PageSize" by (rule file_length)
  have "i * PageSize + PageSize \<le> length f" if "i < getPageCount f"
    using that mult_le_mono1 [of "Suc i" "getPageCount f" PageSize] by (simp add: len)
  then show ?thesis
    by (auto simp: diskPage_def plainPage_def zeroPage_def length_bslice)
qed

lemma readPage_ok:
  assumes "length f mod PageSize = 0"
  shows "readPage f i = Inr (diskPage f i)"
proof (cases "i < getPageCount f")
  case True
  with plain_diskPage [OF assms, of i] show ?thesis
    by (simp add: readPage_def Let_def diskPage_def plainPage_def)
next
  case False
  then have "length f \<le> i * PageSize"
    using file_length [OF assms] mult_le_mono1 [of "getPageCount f" i PageSize] by simp
  then show ?thesis using False by (simp add: readPage_def Let_def diskPage_def bslice_def)
qed

lemma writePage_inside:
  assumes f: "length f mod PageSize = 0" and i: "i < getPageCount f" and p: "plainPage p"
  shows "writePage f i p = bsplice (i * PageSize) (Data p) f"
    and "length (writePage f i p) = length f"
    and "diskPage (writePage f i p) = (diskPage f)(i := p)"
proof -
  have len: "length f = getPageCount f * PageSize" by (rule file_length [OF f])
  have fits: "k * PageSize + PageSize \<le> length f" if "k < getPageCount f" for k
    using that mult_le_mono1 [of "Suc k" "getPageCount f" PageSize] by (simp add: len)
  have pd: "length (Data p) = PageSize" using p by (simp add: plainPage_def)
  show eq: "writePage f i p = bsplice (i * PageSize) (Data p) f"
    using fits [OF i] by (simp add: writePage_def writeAt_def bsplice_def)
  show l: "length (writePage f i p) = length f"
    using fits [OF i] pd by (simp add: eq bytes_simps)
  show "diskPage (writePage f i p) = (diskPage f)(i := p)"
  proof
    fix j
    have cnt: "getPageCount (writePage f i p) = getPageCount f" by (simp add: getPageCount_def l)
    have "bslice (j * PageSize) PageSize (writePage f i p) = bslice (j * PageSize) PageSize f"
      if "j < getPageCount f" "j \<noteq> i"
    proof -
      from that(2) have "j * PageSize + PageSize \<le> i * PageSize \<or> i * PageSize + PageSize \<le> j * PageSize"
        using mult_le_mono1 [of "Suc j" i PageSize] mult_le_mono1 [of "Suc i" j PageSize]
        by (cases "j < i") auto
      then show ?thesis using fits [OF i] pd by (simp add: eq bytes_simps)
    qed
    moreover have "bslice (i * PageSize) PageSize (writePage f i p) = Data p"
      using fits [OF i] pd by (simp add: eq bytes_simps)
    ultimately show "diskPage (writePage f i p) j = ((diskPage f)(i := p)) j"
      using i p by (auto simp: diskPage_def cnt plainPage_eq)
  qed
qed

lemma writePage_append:
  assumes f: "length f mod PageSize = 0" and p: "plainPage p"
  shows "writePage f (getPageCount f) p = f @ Data p"
    and "length (writePage f (getPageCount f) p) mod PageSize = 0"
    and "getPageCount (writePage f (getPageCount f) p) = Suc (getPageCount f)"
    and "diskPage (writePage f (getPageCount f) p) = (diskPage f)(getPageCount f := p)"
proof -
  have len: "length f = getPageCount f * PageSize" by (rule file_length [OF f])
  have pd: "length (Data p) = PageSize" using p by (simp add: plainPage_def)
  show eq: "writePage f (getPageCount f) p = f @ Data p"
    using len by (simp add: writePage_def writeAt_def)
  show "length (writePage f (getPageCount f) p) mod PageSize = 0" using f by (simp add: eq pd)
  show cnt: "getPageCount (writePage f (getPageCount f) p) = Suc (getPageCount f)"
    unfolding eq by (simp add: getPageCount_def pd div_add_self2)
  show "diskPage (writePage f (getPageCount f) p) = (diskPage f)(getPageCount f := p)"
  proof
    fix j
    have "bslice (j * PageSize) PageSize (f @ Data p) = bslice (j * PageSize) PageSize f"
      if "j < getPageCount f"
      using that mult_le_mono1 [of "Suc j" "getPageCount f" PageSize] by (simp add: bslice_def len)
    then show "diskPage (writePage f (getPageCount f) p) j = ((diskPage f)(getPageCount f := p)) j"
      using p len by (auto simp: diskPage_def cnt [unfolded eq] eq less_Suc_eq bslice_def plainPage_eq pd)
  qed
qed

section \<open>The cache is transparent\<close>

lemma pool_invD:
  assumes "pool_inv hf"
  shows "length (fileBytes hf) mod PageSize = 0" and "distinct (map fst (pages (pool hf)))"
    and "i \<in> set (dirty (pool hf)) \<Longrightarrow> i \<in> fst ` set (pages (pool hf))"
    and "i \<in> set (dirty (pool hf)) \<Longrightarrow> i < pageCount hf"
    and "map_of (pages (pool hf)) i = Some p \<Longrightarrow> plainPage p"
    and "map_of (pages (pool hf)) i = Some p \<Longrightarrow> i \<notin> set (dirty (pool hf)) \<Longrightarrow>
      p = diskPage (fileBytes hf) i"
  using assms by (auto simp: pool_inv_def)

lemma plain_pageAt: "pool_inv hf \<Longrightarrow> plainPage (pageAt hf i)"
  by (auto simp: pageAt_def plain_diskPage pool_invD split: option.splits)

lemma pageAt_beyond: "pool_inv hf \<Longrightarrow> pageCount hf \<le> i \<Longrightarrow> pageAt hf i = zeroPage"
  using pool_invD(4,6) by (fastforce simp: pageAt_def diskPage_def split: option.splits)

lemma mapOrder_irrelevant [simp]:
  "pool_inv (hf\<lparr>pool := (pool hf)\<lparr>mapOrder := x\<rparr>\<rparr>) = pool_inv hf"
  "pageAt (hf\<lparr>pool := (pool hf)\<lparr>mapOrder := x\<rparr>\<rparr>) = pageAt hf"
  by (simp_all add: pool_inv_def pageAt_def fun_eq_iff cong: option.case_cong)

lemma range_keys_cases:
  obtains x r where "range_keys bp ks = (bp\<lparr>mapOrder := x\<rparr>, rotate r ks)"
proof (cases "mapOrder bp")
  case Nil
  then have "range_keys bp ks = (bp\<lparr>mapOrder := mapOrder bp\<rparr>, rotate 0 ks)"
    by (simp add: range_keys_def)
  then show ?thesis by (rule that)
next
  case (Cons r rs)
  then show ?thesis using that by (simp add: range_keys_def)
qed

lemma Flush_ok:
  assumes inv: "pool_inv hf"
  obtains hf' where "Flush hf i = (hf', Inr ())" "pool_inv hf'" "pageAt hf' = pageAt hf"
    "pageCount hf' = pageCount hf" "pages (pool hf') = pages (pool hf)"
    "dirty (pool hf') = removeAll i (dirty (pool hf))"
proof (cases "i \<in> set (dirty (pool hf))")
  case False
  with inv show ?thesis by (intro that [of hf]) (simp_all add: Flush_def)
next
  case True
  with pool_invD(3) [OF inv] obtain p where p: "map_of (pages (pool hf)) i = Some p"
    by (metis map_of_eq_None_iff not_None_eq)
  note W = writePage_inside [OF pool_invD(1) [OF inv] pool_invD(4) [OF inv True] pool_invD(5) [OF inv p]]
  let ?hf' = "hf\<lparr>fileBytes := writePage (fileBytes hf) i p,
    pool := (pool hf)\<lparr>dirty := removeAll i (dirty (pool hf))\<rparr>\<rparr>"
  have cnt: "pageCount ?hf' = pageCount hf" by (simp add: getPageCount_def W(2))
  have "pool_inv ?hf'"
    using inv p cnt by (auto simp: pool_inv_def W(2,3) simp del: map_of_eq_Some_iff)
  moreover have "pageAt ?hf' = pageAt hf"
    using p by (auto simp: pageAt_def W(3) fun_eq_iff split: option.splits)
  ultimately show ?thesis using True p cnt by (intro that [of ?hf']) (simp_all add: Flush_def)
qed

lemma dropPage_ok:
  assumes inv: "pool_inv hf" and i: "i \<notin> set (dirty (pool hf))"
  shows "pool_inv (dropPage hf i)" and "pageAt (dropPage hf i) = pageAt hf"
    and "fileBytes (dropPage hf i) = fileBytes hf"
    and "i \<in> fst ` set (pages (pool hf)) \<Longrightarrow>
      Suc (length (pages (pool (dropPage hf i)))) = length (pages (pool hf))"
proof -
  have mo: "map_of (AList.delete i (pages (pool hf))) = (map_of (pages (pool hf)))(i := None)"
    by (rule AList.delete_conv')
  show "pool_inv (dropPage hf i)"
    using inv i
    by (auto simp: pool_inv_def dropPage_def mo AList.distinct_delete
        simp del: map_of_eq_Some_iff simp flip: dom_map_of_conv_image_fst)
  show "pageAt (dropPage hf i) = pageAt hf"
    using pool_invD(6) [OF inv, of i] i by (auto simp: pageAt_def dropPage_def mo fun_eq_iff split: option.splits)
  show "fileBytes (dropPage hf i) = fileBytes hf" by (simp add: dropPage_def)
  assume "i \<in> fst ` set (pages (pool hf))"
  with pool_invD(2) [OF inv] show "Suc (length (pages (pool (dropPage hf i)))) = length (pages (pool hf))"
    by (simp add: dropPage_def length_delete_key)
qed

lemma evictPage_ok:
  assumes inv: "pool_inv hf"
  obtains hf' where "evictPage hf = (hf', Inr ())" "pool_inv hf'" "pageAt hf' = pageAt hf"
    "pageCount hf' = pageCount hf" "length (pages (pool hf')) = length (pages (pool hf)) - 1"
    "map_of (pages (pool hf)) i = None \<Longrightarrow> map_of (pages (pool hf')) i = None"
proof -
  let ?ks = "map fst (pages (pool hf))"
  obtain x r where 1: "range_keys (pool hf) ?ks = ((pool hf)\<lparr>mapOrder := x\<rparr>, rotate r ?ks)"
    by (rule range_keys_cases)
  let ?h1 = "hf\<lparr>pool := (pool hf)\<lparr>mapOrder := x\<rparr>\<rparr>"
  show ?thesis
  proof (cases "List.find (\<lambda>k. k \<notin> set (dirty (pool hf))) (rotate r ?ks)")
    case (Some k)
    then have k: "k \<in> fst ` set (pages (pool hf))" "k \<notin> set (dirty (pool hf))"
      by (auto simp: find_Some_iff) (metis length_map length_rotate list.set_map nth_mem set_rotate)
    from inv have "pool_inv ?h1" by simp
    note D = dropPage_ok [OF this, of k]
    show ?thesis
      using 1 Some k D
      by (intro that [of "dropPage ?h1 k"]) (simp_all add: evictPage_def dropPage_def AList.delete_conv' flip: length_0_conv)
  next
    case None
    obtain y q where 2: "range_keys ((pool hf)\<lparr>mapOrder := x\<rparr>) ?ks = ((pool hf)\<lparr>mapOrder := y\<rparr>, rotate q ?ks)"
      by (rule range_keys_cases [of "(pool hf)\<lparr>mapOrder := x\<rparr>" ?ks]) simp
    let ?h2 = "hf\<lparr>pool := (pool hf)\<lparr>mapOrder := y\<rparr>\<rparr>"
    show ?thesis
    proof (cases "rotate q ?ks")
      case Nil
      then show ?thesis
        using inv 1 2 None by (intro that [of ?h2]) (simp_all add: evictPage_def)
    next
      case (Cons k ks)
      then have k: "k \<in> fst ` set (pages (pool hf))"
        by (metis list.set_intros(1) list.set_map set_rotate)
      from inv have "pool_inv ?h2" by simp
      then obtain h3 where h3: "Flush ?h2 k = (h3, Inr ())" "pool_inv h3" "pageAt h3 = pageAt ?h2"
        "pageCount h3 = pageCount ?h2" "pages (pool h3) = pages (pool ?h2)"
        "dirty (pool h3) = removeAll k (dirty (pool ?h2))" by (rule Flush_ok)
      then have "k \<notin> set (dirty (pool h3))" by simp
      note D = dropPage_ok [OF h3(2) this]
      show ?thesis
        using 1 2 None Cons h3 D k
        by (intro that [of "dropPage h3 k"]) (simp_all add: evictPage_def dropPage_def AList.delete_conv')
    qed
  qed
qed

lemma putPage_clean:
  assumes inv: "pool_inv hf" and miss: "map_of (pages (pool hf)) i = None"
  shows "pool_inv (putPage hf i (diskPage (fileBytes hf) i))"
    and "pageAt (putPage hf i (diskPage (fileBytes hf) i)) = pageAt hf"
  using inv miss plain_diskPage [OF pool_invD(1) [OF inv], of i]
  by (auto simp: pool_inv_def putPage_def pageAt_def update_conv' AList.distinct_update fun_eq_iff
      simp del: map_of_eq_Some_iff simp flip: dom_map_of_conv_image_fst split: option.splits)

lemma FetchPage_ok:
  assumes inv: "pool_inv hf"
  obtains hf' where "FetchPage hf i = (hf', Inr (pageAt hf i))" "pool_inv hf'"
    "pageAt hf' = pageAt hf" "pageCount hf' = pageCount hf"
proof (cases "map_of (pages (pool hf)) i")
  case (Some p)
  with inv show ?thesis by (intro that [of hf]) (simp_all add: FetchPage_def pageAt_def)
next
  case None
  obtain h1 where h1: "(if length (pages (pool hf)) \<ge> capacity (pool hf) then evictPage hf else (hf, Inr ())) = (h1, Inr ())"
    "pool_inv h1" "pageAt h1 = pageAt hf" "pageCount h1 = pageCount hf"
    "map_of (pages (pool h1)) i = None"
  proof (cases "length (pages (pool hf)) \<ge> capacity (pool hf)")
    case True
    obtain h where "evictPage hf = (h, Inr ())" "pool_inv h" "pageAt h = pageAt hf"
      "pageCount h = pageCount hf" "map_of (pages (pool h)) i = None"
      using evictPage_ok [OF inv, of i] None by metis
    with True show ?thesis by (intro that [of h]) simp_all
  next
    case False
    with inv None show ?thesis by (intro that [of hf]) simp_all
  qed
  note R = readPage_ok [OF pool_invD(1) [OF h1(2)], of i]
  note P = putPage_clean [OF h1(2,5)]
  have "pageAt hf i = diskPage (fileBytes h1) i"
    using h1(3,5) by (metis option.simps(4) pageAt_def)
  then show ?thesis
    using None h1 R P by (intro that [of "putPage h1 i (diskPage (fileBytes h1) i)"])
      (simp_all add: FetchPage_def putPage_def)
qed

text \<open>A page changed in place and marked dirty; a new page at the end of the file.\<close>

lemma store_ok:
  assumes inv: "pool_inv hf" and i: "i < pageCount hf" and p: "plainPage p"
  shows "pool_inv (MarkDirty (putPage hf i p) i)"
    and "pageAt (MarkDirty (putPage hf i p) i) = (pageAt hf)(i := p)"
    and "fileBytes (MarkDirty (putPage hf i p) i) = fileBytes hf"
proof -
  show "fileBytes (MarkDirty (putPage hf i p) i) = fileBytes hf" by (simp add: MarkDirty_def putPage_def)
  show "pool_inv (MarkDirty (putPage hf i p) i)"
    using inv i p
    by (auto simp: pool_inv_def MarkDirty_def putPage_def update_conv' AList.distinct_update
        simp del: map_of_eq_Some_iff simp flip: dom_map_of_conv_image_fst)
  show "pageAt (MarkDirty (putPage hf i p) i) = (pageAt hf)(i := p)"
    by (auto simp: pageAt_def MarkDirty_def putPage_def update_conv' fun_eq_iff split: option.splits)
qed

lemma append_ok:
  assumes inv: "pool_inv hf" and p: "plainPage p"
  defines "hf' \<equiv> putPage (hf\<lparr>fileBytes := writePage (fileBytes hf) (pageCount hf) p\<rparr>) (pageCount hf) p"
  shows "pool_inv hf'" and "pageAt hf' = (pageAt hf)(pageCount hf := p)"
    and "pageCount hf' = Suc (pageCount hf)"
proof -
  note W = writePage_append [OF pool_invD(1) [OF inv] p]
  have nd: "pageCount hf \<notin> set (dirty (pool hf))" using pool_invD(4) [OF inv] by blast
  show "pageCount hf' = Suc (pageCount hf)" by (simp add: hf'_def putPage_def W(3))
  show "pool_inv hf'"
    using inv p nd W(2,3)
    by (auto simp: pool_inv_def hf'_def putPage_def update_conv' AList.distinct_update W(4) less_Suc_eq
        simp del: map_of_eq_Some_iff simp flip: dom_map_of_conv_image_fst)
  show "pageAt hf' = (pageAt hf)(pageCount hf := p)"
    by (auto simp: pageAt_def hf'_def putPage_def update_conv' fun_eq_iff W(4) split: option.splits)
qed

section \<open>The interface of the pool to its clients\<close>

text \<open>What the heap file and the B+-tree rely on: reading a page gives the page last stored
  there, and storing changes that page only.\<close>

locale page_store =
  fixes inv :: "'s \<Rightarrow> bool"
    and view :: "'s \<Rightarrow> nat \<Rightarrow> page"
    and cnt :: "'s \<Rightarrow> nat"
    and fetch :: "'s \<Rightarrow> nat \<Rightarrow> 's \<times> page res"
    and store :: "'s \<Rightarrow> nat \<Rightarrow> page \<Rightarrow> 's"
  assumes view_plain: "inv s \<Longrightarrow> plainPage (view s i)"
    and fetch_view: "inv s \<Longrightarrow>
      \<exists>s'. fetch s i = (s', Inr (view s i)) \<and> inv s' \<and> view s' = view s \<and> cnt s' = cnt s"
    and store_view: "inv s \<Longrightarrow> i < cnt s \<Longrightarrow> plainPage p \<Longrightarrow>
      inv (store s i p) \<and> view (store s i p) = (view s)(i := p) \<and> cnt (store s i p) = cnt s"
begin

lemma fetch_cases:
  assumes "inv s"
  obtains s' where "fetch s i = (s', Inr (view s i))" "inv s'" "view s' = view s" "cnt s' = cnt s"
  using fetch_view [OF assms, of i] by blast

lemma fetch_result:
  assumes "inv s" and "fetch s i = (s', r)"
  shows "r = Inr (view s i)" and "inv s'" and "view s' = view s" and "cnt s' = cnt s"
  using fetch_view [OF assms(1), of i] assms(2) by auto

lemma read_modify_write:
  assumes "inv s" and "i < cnt s" and "fetch s i = (s', Inr p)" and "plainPage q"
  shows "inv (store s' i q)" and "view (store s' i q) = (view s)(i := q)"
    and "cnt (store s' i q) = cnt s"
  using fetch_result [OF assms(1,3)] store_view [of s' i q] assms(2,4) by simp_all

lemma read_your_write:
  assumes "inv s" and "i < cnt s" and "plainPage q"
  shows "\<exists>s'. fetch (store s i q) j = (s', Inr (if j = i then q else view s j)) \<and>
    inv s' \<and> view s' = (view s)(i := q)"
proof -
  from store_view [OF assms] have "inv (store s i q)" and v: "view (store s i q) = (view s)(i := q)"
    by simp_all
  from fetch_view [OF this(1), of j] show ?thesis by (auto simp: v)
qed

end

interpretation bp: page_store pool_inv pageAt pageCount FetchPage "\<lambda>hf i p. MarkDirty (putPage hf i p) i"
proof
  fix s i assume "pool_inv s"
  then show "\<exists>s'. FetchPage s i = (s', Inr (pageAt s i)) \<and> pool_inv s' \<and> pageAt s' = pageAt s \<and>
      pageCount s' = pageCount s"
    by (rule FetchPage_ok [of s i]) auto
qed (auto simp: plain_pageAt store_ok)

section \<open>A heap file is a map from row identifiers to byte strings\<close>

definition page_entries :: "nat \<Rightarrow> page \<Rightarrow> (rowID \<times> byte list) list" where
  "page_entries i p = map (\<lambda>s. (encodeRowID i s, page_rows p ! s)) [0..<slotCount p]"

text \<open>All entries, in the order in which a scan visits them.\<close>

definition heap_entries :: "heapFile \<Rightarrow> (rowID \<times> byte list) list" where
  "heap_entries hf = concat (map (\<lambda>i. page_entries i (pageAt hf i)) [0..<pageCount hf])"

definition heap_inv :: "heapFile \<Rightarrow> bool" where
  "heap_inv hf \<longleftrightarrow>
     pool_inv hf \<and> (\<forall>i < pageCount hf. wf_page (pageAt hf i)) \<and> pageCount hf \<le> 2 ^ 48"

lemma heap_invD:
  assumes "heap_inv hf"
  shows "pool_inv hf" and "i < pageCount hf \<Longrightarrow> wf_page (pageAt hf i)" and "pageCount hf \<le> 2 ^ 48"
  using assms by (simp_all add: heap_inv_def)

lemma heap_inv_cong:
  "heap_inv hf \<Longrightarrow> pool_inv hf' \<Longrightarrow> pageAt hf' = pageAt hf \<Longrightarrow> pageCount hf' = pageCount hf \<Longrightarrow>
   heap_inv hf' \<and> heap_entries hf' = heap_entries hf"
  by (simp add: heap_inv_def heap_entries_def)

lemma wf_page_slotCount: "wf_page p \<Longrightarrow> slotCount p < 2 ^ 16"
  using wf_pageD(2,3) [of p] by (simp add: PageSize_def)

lemma slotCount_zeroPage [simp]: "slotCount zeroPage = 0"
  by (simp add: slotCount_def zeroPage_def bslice_def numeral_2_eq_2 PageSize_def)

lemma plain_Page_ops:
  "plainPage p \<Longrightarrow> wf_page (fst (Page_Insert p bs)) \<Longrightarrow> plainPage (fst (Page_Insert p bs))"
  "plainPage p \<Longrightarrow> wf_page (fst (Page_Update p s bs)) \<Longrightarrow> plainPage (fst (Page_Update p s bs))"
  "plainPage p \<Longrightarrow> wf_page (fst (Page_Delete p s)) \<Longrightarrow> plainPage (fst (Page_Delete p s))"
  by (auto simp: plainPage_def wf_page_def Page_Insert_def Page_Update_def Page_Delete_def Let_def
      split: if_splits)

lemma heap_entries_iff:
  assumes "heap_inv hf" and "decodeRowID rid = (i, s)"
  shows "(rid, bs) \<in> set (heap_entries hf) \<longleftrightarrow>
    i < pageCount hf \<and> s < slotCount (pageAt hf i) \<and> bs = page_rows (pageAt hf i) ! s"
proof -
  have dec: "decodeRowID (encodeRowID j t) = (j, t)"
    if "j < pageCount hf" "t < slotCount (pageAt hf j)" for j t
    using that heap_invD [OF assms(1)] wf_page_slotCount [of "pageAt hf j"] by simp
  have enc: "encodeRowID i s = rid" using assms(2) by (rule encode_decodeRowID)
  show ?thesis
  proof
    assume "(rid, bs) \<in> set (heap_entries hf)"
    then obtain j t where "j < pageCount hf" "t < slotCount (pageAt hf j)" "rid = encodeRowID j t"
      "bs = page_rows (pageAt hf j) ! t"
      by (auto simp: heap_entries_def page_entries_def)
    with dec assms(2) show "i < pageCount hf \<and> s < slotCount (pageAt hf i) \<and> bs = page_rows (pageAt hf i) ! s"
      by auto
  qed (use enc in \<open>force simp: heap_entries_def page_entries_def\<close>)
qed

lemma distinct_heap_entries:
  assumes "heap_inv hf"
  shows "distinct (map fst (heap_entries hf))"
proof -
  let ?P = "\<lambda>i. map (encodeRowID i) [0..<slotCount (pageAt hf i)]"
  have dec: "decodeRowID (encodeRowID j t) = (j, t)"
    if "j < pageCount hf" "t < slotCount (pageAt hf j)" for j t
    using that heap_invD [OF assms(1)] wf_page_slotCount [of "pageAt hf j"] by simp
  have "distinct (concat (map ?P [0..<n]))" if "n \<le> pageCount hf" for n
    using that
  proof (induction n)
    case (Suc n)
    have "distinct (?P n)"
      using dec [of n] Suc.prems by (auto simp: distinct_map inj_on_def) (metis less_eq_Suc_le prod.inject)
    moreover have "set (concat (map ?P [0..<n])) \<inter> set (?P n) = {}"
    proof (rule ccontr)
      assume "set (concat (map ?P [0..<n])) \<inter> set (?P n) \<noteq> {}"
      then obtain t i u where "t < slotCount (pageAt hf n)" "i < n" "u < slotCount (pageAt hf i)"
        "encodeRowID n t = encodeRowID i u" by auto
      with dec [of n t] dec [of i u] Suc.prems show False by simp
    qed
    ultimately show ?case using Suc by simp
  qed simp
  moreover have "map fst (heap_entries hf) = concat (map ?P [0..<pageCount hf])"
    by (simp add: heap_entries_def page_entries_def map_concat comp_def)
  ultimately show ?thesis by simp
qed

lemma heap_entries_upd:
  assumes i: "i < pageCount hf" and v: "pageAt hf' = (pageAt hf)(i := q)" and c: "pageCount hf' = pageCount hf"
  defines "E \<equiv> \<lambda>ks. concat (map (\<lambda>k. page_entries k (pageAt hf k)) ks)"
  shows "heap_entries hf = E [0..<i] @ page_entries i (pageAt hf i) @ E [Suc i..<pageCount hf]"
    and "heap_entries hf' = E [0..<i] @ page_entries i q @ E [Suc i..<pageCount hf]"
proof -
  have "(\<lambda>k. page_entries k (pageAt hf' k)) = (\<lambda>k. page_entries k (pageAt hf k))(i := page_entries i q)"
    by (auto simp: v)
  then show "heap_entries hf' = E [0..<i] @ page_entries i q @ E [Suc i..<pageCount hf]"
    unfolding heap_entries_def c by (simp only: concat_map_upd [OF i] E_def)
  show "heap_entries hf = E [0..<i] @ page_entries i (pageAt hf i) @ E [Suc i..<pageCount hf]"
    by (simp add: heap_entries_def E_def upt_split_at [OF i])
qed

lemma heap_entries_append:
  assumes "pageAt hf' = (pageAt hf)(pageCount hf := q)" and "pageCount hf' = Suc (pageCount hf)"
  shows "heap_entries hf' = heap_entries hf @ page_entries (pageCount hf) q"
proof -
  have "map (\<lambda>i. page_entries i (pageAt hf' i)) [0..<pageCount hf] =
      map (\<lambda>i. page_entries i (pageAt hf i)) [0..<pageCount hf]"
    by (rule map_cong) (simp_all add: assms(1))
  then have "concat (map (\<lambda>i. page_entries i (pageAt hf' i)) [0..<pageCount hf]) = heap_entries hf"
    unfolding heap_entries_def by (rule arg_cong)
  then show ?thesis by (simp add: heap_entries_def [of hf'] assms)
qed

lemma page_entries_snoc:
  "page_rows q = page_rows p @ [bs] \<Longrightarrow> page_entries i q = page_entries i p @ [(encodeRowID i (slotCount p), bs)]"
proof -
  assume r: "page_rows q = page_rows p @ [bs]"
  then have "slotCount q = Suc (slotCount p)"
    by (metis length_append_singleton length_page_rows)
  with r show ?thesis by (simp add: page_entries_def nth_append)
qed

text \<open>The scan of the existing pages: no page has room and nothing changes for a client, or the
  first page with room takes the row.\<close>

lemma tryPages_cases:
  assumes "heap_inv hf" and "set is \<subseteq> {..<pageCount hf}" and "HeapFile_tryPages hf bs is = (hf', r)"
  shows "pool_inv hf' \<and> pageCount hf' = pageCount hf \<and>
    (r = Inr None \<and> pageAt hf' = pageAt hf \<and> (\<forall>i \<in> set is. \<exists>q e. Page_Insert (pageAt hf i) bs = (q, Inl e)) \<or>
     (\<exists>i q s. i < pageCount hf \<and> Page_Insert (pageAt hf i) bs = (q, Inr s) \<and>
        r = Inr (Some (encodeRowID i s)) \<and> pageAt hf' = (pageAt hf)(i := q)))"
  using assms
proof (induction "is" arbitrary: hf)
  case Nil
  then show ?case by (simp add: heap_invD)
next
  case (Cons i "is")
  note inv = heap_invD(1) [OF Cons.prems(1)]
  from Cons.prems(2) have i: "i < pageCount hf" by simp
  obtain h1 where h1: "FetchPage hf i = (h1, Inr (pageAt hf i))" "pool_inv h1" "pageAt h1 = pageAt hf"
    "pageCount h1 = pageCount hf" by (rule bp.fetch_cases [OF inv])
  note wf = heap_invD(2) [OF Cons.prems(1) i]
  obtain q t where ins: "Page_Insert (pageAt hf i) bs = (q, t)" by fastforce
  show ?case
  proof (cases t)
    case (Inr s)
    from pg.ins_ok [OF wf, of bs q s] ins Inr have "wf_page q" by simp
    with plain_Page_ops(1) [OF plain_pageAt [OF inv], of i bs] ins have "plainPage q" by simp
    with bp.read_modify_write [OF inv i h1(1)] h1 have
      "pool_inv (MarkDirty (putPage h1 i q) i)" "pageAt (MarkDirty (putPage h1 i q) i) = (pageAt hf)(i := q)"
      "pageCount (MarkDirty (putPage h1 i q) i) = pageCount hf" by simp_all
    with Cons.prems(3) h1 ins Inr i show ?thesis by auto
  next
    case (Inl e)
    with ins pg.ins_err [OF wf, of bs q e] have "\<not> abnormal e" by simp
    with Cons.prems(3) h1(1) ins Inl have "HeapFile_tryPages h1 bs is = (hf', r)" by simp
    moreover have "heap_inv h1" using heap_inv_cong [OF Cons.prems(1) h1(2-4)] by simp
    ultimately show ?thesis
      using Cons.IH [of h1] Cons.prems(2) h1 ins Inl by auto
  qed
qed

lemma upt_below: "set [0..<n] \<subseteq> {..<n}"
  by auto

lemma NewPage_insert:
  "length bs \<le> 4088 \<Longrightarrow> \<exists>q. Page_Insert NewPage bs = (q, Inr 0) \<and> wf_page q \<and> plainPage q \<and> page_rows q = [bs]"
  "4088 < length bs \<Longrightarrow> Page_Insert NewPage bs = (NewPage, Inl (Errorf ''page is full'' []))"
proof -
  assume "length bs \<le> 4088"
  then have fit: "4 + slotCount NewPage * 4 + (length bs + 4) \<le> freeSpace NewPage"
    by (simp add: PageSize_def)
  note I = Page_Insert_ok [OF wf_NewPage fit] Page_Insert_wf [OF wf_NewPage fit] Page_Insert_rows [OF wf_NewPage fit]
  with plain_Page_ops(1) [OF plain_NewPage]
  show "\<exists>q. Page_Insert NewPage bs = (q, Inr 0) \<and> wf_page q \<and> plainPage q \<and> page_rows q = [bs]"
    by (intro exI [of _ "fst (Page_Insert NewPage bs)"]) simp
qed (simp add: Page_Insert_full PageSize_def)

lemma HeapFile_Insert_ok:
  assumes hinv: "heap_inv hf" and room: "pageCount hf < 2 ^ 48" and len: "length bs \<le> 4088"
  shows "\<exists>hf' rid xs ys. HeapFile_Insert hf bs = (hf', Inr rid) \<and> heap_inv hf' \<and>
    heap_entries hf = xs @ ys \<and> heap_entries hf' = xs @ (rid, bs) # ys"
proof -
  obtain h1 r where trial: "HeapFile_tryPages hf bs [0..<pageCount hf] = (h1, r)" by fastforce
  have T: "pool_inv h1" "pageCount h1 = pageCount hf"
    "r = Inr None \<and> pageAt h1 = pageAt hf \<or>
     (\<exists>i q s. i < pageCount hf \<and> Page_Insert (pageAt hf i) bs = (q, Inr s) \<and>
        r = Inr (Some (encodeRowID i s)) \<and> pageAt h1 = (pageAt hf)(i := q))"
    using tryPages_cases [OF hinv upt_below trial] by auto
  from T(3) show ?thesis
  proof (elim disjE exE conjE)
    fix i q s
    assume i: "i < pageCount hf" and ins: "Page_Insert (pageAt hf i) bs = (q, Inr s)"
      and r: "r = Inr (Some (encodeRowID i s))" and v: "pageAt h1 = (pageAt hf)(i := q)"
    note Q = pg.ins_ok [OF heap_invD(2) [OF hinv i] ins]
    have "heap_inv h1" using hinv T(1,2) v Q by (auto simp: heap_inv_def)
    moreover have "HeapFile_Insert hf bs = (h1, Inr (encodeRowID i s))"
      using trial r by (simp add: HeapFile_Insert_def Let_def)
    moreover have q: "page_entries i q = page_entries i (pageAt hf i) @ [(encodeRowID i s, bs)]"
      using page_entries_snoc [of q "pageAt hf i" bs i] Q by simp
    note U = heap_entries_upd [OF i v T(2)]
    obtain A B where "heap_entries hf = A @ page_entries i (pageAt hf i) @ B"
      "heap_entries h1 = A @ page_entries i q @ B" using U by blast
    then have "heap_entries hf = (A @ page_entries i (pageAt hf i)) @ B"
      "heap_entries h1 = (A @ page_entries i (pageAt hf i)) @ (encodeRowID i s, bs) # B" by (simp_all add: q)
    ultimately show ?thesis by blast
  next
    assume r: "r = Inr None" and v: "pageAt h1 = pageAt hf"
    obtain q where q: "Page_Insert NewPage bs = (q, Inr 0)" "wf_page q" "plainPage q" "page_rows q = [bs]"
      using NewPage_insert(1) [OF len] by blast
    let ?h2 = "putPage (h1\<lparr>fileBytes := writePage (fileBytes h1) (pageCount h1) q\<rparr>) (pageCount h1) q"
    note A = append_ok [OF T(1) q(3)]
    have "heap_inv ?h2"
      using hinv room A T(2) v q(2) by (auto simp: heap_inv_def less_Suc_eq)
    moreover have "HeapFile_Insert hf bs = (?h2, Inr (encodeRowID (pageCount hf) 0))"
      using trial r q(1) T(2) by (simp add: HeapFile_Insert_def Let_def)
    moreover have "heap_entries ?h2 = heap_entries hf @ [(encodeRowID (pageCount hf) 0, bs)]"
      using heap_entries_append [OF A(2,3)] heap_inv_cong [OF hinv T(1) v T(2)] T(2)
        page_entries_snoc [of q NewPage bs "pageCount hf"] q(4) by (simp add: page_entries_def)
    ultimately show ?thesis by (metis append_Nil2)
  qed
qed

lemma HeapFile_Insert_too_large:
  assumes hinv: "heap_inv hf" and len: "4088 < length bs"
  shows "\<exists>hf'. HeapFile_Insert hf bs = (hf', Inl (Errorf ''page is full'' [])) \<and> heap_inv hf' \<and>
    heap_entries hf' = heap_entries hf"
proof -
  obtain h1 r where trial: "HeapFile_tryPages hf bs [0..<pageCount hf] = (h1, r)" by fastforce
  have "Page_Insert (pageAt hf i) bs \<noteq> (q, Inr s)" if "i < pageCount hf" for i q s
  proof -
    have "freeSpace (pageAt hf i) \<le> 4096" using wf_pageD(3) [OF heap_invD(2) [OF hinv that]] by (simp add: PageSize_def)
    with len Page_Insert_full [of "pageAt hf i" bs] show ?thesis by simp
  qed
  with tryPages_cases [OF hinv upt_below trial]
  have "r = Inr None" "pool_inv h1" "pageAt h1 = pageAt hf" "pageCount h1 = pageCount hf" by blast+
  with heap_inv_cong [OF hinv] trial NewPage_insert(2) [OF len] show ?thesis
    by (simp add: HeapFile_Insert_def Let_def)
qed

lemma HeapFile_Get_ok:
  assumes hinv: "heap_inv hf"
  shows "\<exists>hf'. heap_inv hf' \<and> heap_entries hf' = heap_entries hf \<and>
    (case map_of (heap_entries hf) rid of
       None \<Rightarrow> HeapFile_Get hf rid = (hf', Inl (Errorf ''invalid slot index'' []))
     | Some bs \<Rightarrow> \<exists>sp. HeapFile_Get hf rid = (hf', Inr (bs, sp)))"
proof -
  obtain i s where d: "decodeRowID rid = (i, s)" by fastforce
  note inv = heap_invD(1) [OF hinv] and iff = heap_entries_iff [OF hinv d]
  obtain h1 where h1: "FetchPage hf i = (h1, Inr (pageAt hf i))" "pool_inv h1" "pageAt h1 = pageAt hf"
    "pageCount h1 = pageCount hf" by (rule bp.fetch_cases [OF inv])
  have eq: "HeapFile_Get hf rid = (h1, Page_Get (pageAt hf i) (int s))"
    by (simp add: HeapFile_Get_def d h1)
  note H = heap_inv_cong [OF hinv h1(2-4)]
  show ?thesis
  proof (cases "i < pageCount hf \<and> s < slotCount (pageAt hf i)")
    case True
    with iff distinct_heap_entries [OF hinv] have
      "map_of (heap_entries hf) rid = Some (page_rows (pageAt hf i) ! s)" by simp
    with True pg.get_ok [OF heap_invD(2) [OF hinv], of i s] H eq show ?thesis
      by (intro exI [of _ h1]) auto
  next
    case False
    with iff have none: "map_of (heap_entries hf) rid = None" by (auto simp: map_of_eq_None_iff)
    have "Page_Get (pageAt hf i) (int s) = Inl (Errorf ''invalid slot index'' [])"
    proof (cases "i < pageCount hf")
      case True
      with False pg.get_err [OF heap_invD(2) [OF hinv True], of s] show ?thesis by simp
    next
      case False
      then show ?thesis by (simp add: pageAt_beyond [OF inv] Page_Get_def)
    qed
    with none H eq show ?thesis by (intro exI [of _ h1]) simp
  qed
qed

text \<open>The change of one slot, as the change of one entry.\<close>

lemma page_entries_upd:
  assumes "heap_inv hf" and "i < pageCount hf" and "s < slotCount (pageAt hf i)"
    and "page_rows q = (page_rows (pageAt hf i))[s := bs]"
  shows "page_entries i q = replace_key (encodeRowID i s) bs (page_entries i (pageAt hf i))"
proof -
  have sc: "slotCount q = slotCount (pageAt hf i)"
    using assms(4) by (metis length_list_update length_page_rows)
  have "encodeRowID i t = encodeRowID i s \<longleftrightarrow> t = s" if "t < slotCount (pageAt hf i)" for t
    using decode_encodeRowID [of i t] decode_encodeRowID [of i s] heap_invD [OF assms(1)] assms(2,3) that
      wf_page_slotCount [of "pageAt hf i"] by (metis less_le_trans order.strict_trans prod.inject)
  then show ?thesis
    using assms(3,4) by (auto simp: page_entries_def replace_key_def sc nth_list_update)
qed

lemma store_entry:
  assumes hinv: "heap_inv hf" and d: "decodeRowID rid = (i, s)"
    and h1: "FetchPage hf i = (h1, Inr (pageAt hf i))"
    and i: "i < pageCount hf" and s: "s < slotCount (pageAt hf i)"
    and q: "wf_page q" "plainPage q" "page_rows q = (page_rows (pageAt hf i))[s := bs]"
  shows "heap_inv (MarkDirty (putPage h1 i q) i) \<and>
    heap_entries (MarkDirty (putPage h1 i q) i) = replace_key rid bs (heap_entries hf)"
proof -
  note R = bp.read_modify_write [OF heap_invD(1) [OF hinv] i h1 q(2)]
  note U = heap_entries_upd [OF i R(2,3)]
  have enc: "encodeRowID i s = rid" using d by (rule encode_decodeRowID)
  have "rid \<notin> fst ` set (page_entries k (pageAt hf k))" if "k < pageCount hf" "k \<noteq> i" for k
  proof
    assume "rid \<in> fst ` set (page_entries k (pageAt hf k))"
    then obtain t where "t < slotCount (pageAt hf k)" "rid = encodeRowID k t"
      by (auto simp: page_entries_def)
    with that d heap_invD [OF hinv] wf_page_slotCount [of "pageAt hf k"] show False by simp
  qed
  then have "replace_key rid bs (concat (map (\<lambda>k. page_entries k (pageAt hf k)) ks)) =
      concat (map (\<lambda>k. page_entries k (pageAt hf k)) ks)" if "set ks \<subseteq> {..<pageCount hf} - {i}" for ks
    using that by (intro replace_key_notin) auto
  moreover have "set [0..<i] \<subseteq> {..<pageCount hf} - {i}" "set [Suc i..<pageCount hf] \<subseteq> {..<pageCount hf} - {i}"
    using i by auto
  ultimately have "heap_entries (MarkDirty (putPage h1 i q) i) = replace_key rid bs (heap_entries hf)"
    using U page_entries_upd [OF hinv i s q(3)] by (simp only: enc replace_key_append)
  moreover have "heap_inv (MarkDirty (putPage h1 i q) i)"
    using hinv R q(1) by (auto simp: heap_inv_def)
  ultimately show ?thesis by simp
qed

lemma HeapFile_Update_ok:
  assumes hinv: "heap_inv hf"
  shows "\<exists>hf'. heap_inv hf' \<and>
    (case map_of (heap_entries hf) rid of
       None \<Rightarrow> HeapFile_Update hf rid bs = (hf', Inl (Errorf ''invalid slot index'' [])) \<and>
         heap_entries hf' = heap_entries hf
     | Some old \<Rightarrow>
         if length bs \<le> length old
         then HeapFile_Update hf rid bs = (hf', Inr ()) \<and>
           heap_entries hf' = replace_key rid bs (heap_entries hf)
         else HeapFile_Update hf rid bs = (hf', Inl (Errorf ''row too large'' [])) \<and>
           heap_entries hf' = heap_entries hf)"
proof -
  obtain i s where d: "decodeRowID rid = (i, s)" by fastforce
  note inv = heap_invD(1) [OF hinv] and iff = heap_entries_iff [OF hinv d]
  obtain h1 where h1: "FetchPage hf i = (h1, Inr (pageAt hf i))" "pool_inv h1" "pageAt h1 = pageAt hf"
    "pageCount h1 = pageCount hf" by (rule bp.fetch_cases [OF inv])
  note H = heap_inv_cong [OF hinv h1(2-4)]
  show ?thesis
  proof (cases "i < pageCount hf \<and> s < slotCount (pageAt hf i)")
    case True
    note wf = heap_invD(2) [OF hinv, of i]
    from True iff distinct_heap_entries [OF hinv] have
      some: "map_of (heap_entries hf) rid = Some (page_rows (pageAt hf i) ! s)" by simp
    show ?thesis
    proof (cases "length bs \<le> length (page_rows (pageAt hf i) ! s)")
      case fit: True
      with True pg.upd_ok [OF wf, of s bs] obtain q where
        q: "Page_Update (pageAt hf i) (int s) bs = (q, Inr ())" "wf_page q" "page_rows q = (page_rows (pageAt hf i))[s := bs]"
        by auto
      with plain_Page_ops(2) [OF plain_pageAt [OF inv], of i "int s" bs] have "plainPage q" by simp
      with store_entry [OF hinv d h1(1)] True q some fit show ?thesis
        by (intro exI [of _ "MarkDirty (putPage h1 i q) i"]) (simp add: HeapFile_Update_def d h1(1))
    next
      case False
      with True pg.upd_large [OF wf, of s bs] some H show ?thesis
        by (intro exI [of _ h1]) (simp add: HeapFile_Update_def d h1(1))
    qed
  next
    case False
    with iff have none: "map_of (heap_entries hf) rid = None" by (auto simp: map_of_eq_None_iff)
    have "Page_Update (pageAt hf i) (int s) bs = (pageAt hf i, Inl (Errorf ''invalid slot index'' []))"
    proof (cases "i < pageCount hf")
      case True
      with False pg.upd_err [OF heap_invD(2) [OF hinv True], of s] show ?thesis by simp
    next
      case False
      then show ?thesis by (simp add: pageAt_beyond [OF inv] Page_Update_def)
    qed
    with none H show ?thesis
      by (intro exI [of _ h1]) (simp add: HeapFile_Update_def d h1(1))
  qed
qed

lemma HeapFile_Delete_ok:
  assumes hinv: "heap_inv hf"
  shows "\<exists>hf'. heap_inv hf' \<and>
    (case map_of (heap_entries hf) rid of
       None \<Rightarrow> HeapFile_Delete hf rid = (hf', Inl (Errorf ''invalid slot index'' [])) \<and>
         heap_entries hf' = heap_entries hf
     | Some old \<Rightarrow> HeapFile_Delete hf rid = (hf', Inr ()) \<and>
         heap_entries hf' = replace_key rid [] (heap_entries hf))"
proof -
  obtain i s where d: "decodeRowID rid = (i, s)" by fastforce
  note inv = heap_invD(1) [OF hinv] and iff = heap_entries_iff [OF hinv d]
  obtain h1 where h1: "FetchPage hf i = (h1, Inr (pageAt hf i))" "pool_inv h1" "pageAt h1 = pageAt hf"
    "pageCount h1 = pageCount hf" by (rule bp.fetch_cases [OF inv])
  note H = heap_inv_cong [OF hinv h1(2-4)]
  show ?thesis
  proof (cases "i < pageCount hf \<and> s < slotCount (pageAt hf i)")
    case True
    from True iff distinct_heap_entries [OF hinv] have
      some: "map_of (heap_entries hf) rid = Some (page_rows (pageAt hf i) ! s)" by simp
    from True pg.del_ok [OF heap_invD(2) [OF hinv], of i s] obtain q where
      q: "Page_Delete (pageAt hf i) (int s) = (q, Inr ())" "wf_page q" "page_rows q = (page_rows (pageAt hf i))[s := []]"
      by auto
    with plain_Page_ops(3) [OF plain_pageAt [OF inv], of i "int s"] have "plainPage q" by simp
    with store_entry [OF hinv d h1(1)] True q some show ?thesis
      by (intro exI [of _ "MarkDirty (putPage h1 i q) i"]) (simp add: HeapFile_Delete_def d h1(1))
  next
    case False
    with iff have none: "map_of (heap_entries hf) rid = None" by (auto simp: map_of_eq_None_iff)
    have "Page_Delete (pageAt hf i) (int s) = (pageAt hf i, Inl (Errorf ''invalid slot index'' []))"
    proof (cases "i < pageCount hf")
      case True
      with False pg.del_err [OF heap_invD(2) [OF hinv True], of s] show ?thesis by simp
    next
      case False
      then show ?thesis by (simp add: pageAt_beyond [OF inv] Page_Delete_def)
    qed
    with none H show ?thesis
      by (intro exI [of _ h1]) (simp add: HeapFile_Delete_def d h1(1))
  qed
qed

section \<open>The interface of a heap file to the engine\<close>

text \<open>What the storage engine relies on: rows keep their identifier, an insertion adds exactly one
  entry, and an in-place change of a row that does not grow succeeds and changes that row only.\<close>

locale row_store =
  fixes hinv :: "'h \<Rightarrow> bool"
    and room :: "'h \<Rightarrow> bool"
    and entries :: "'h \<Rightarrow> (rowID \<times> byte list) list"
    and ins :: "'h \<Rightarrow> byte list \<Rightarrow> 'h \<times> rowID res"
    and get :: "'h \<Rightarrow> rowID \<Rightarrow> 'h \<times> goslice res"
    and upd :: "'h \<Rightarrow> rowID \<Rightarrow> byte list \<Rightarrow> 'h \<times> unit res"
  assumes distinct_ids: "hinv h \<Longrightarrow> distinct (map fst (entries h))"
    and ins_adds: "hinv h \<Longrightarrow> room h \<Longrightarrow> length bs \<le> 4088 \<Longrightarrow>
      \<exists>h' rid xs ys. ins h bs = (h', Inr rid) \<and> hinv h' \<and> entries h = xs @ ys \<and>
        entries h' = xs @ (rid, bs) # ys"
    and get_reads: "hinv h \<Longrightarrow> \<exists>h'. hinv h' \<and> entries h' = entries h \<and>
      (case map_of (entries h) rid of
         None \<Rightarrow> get h rid = (h', Inl (Errorf ''invalid slot index'' []))
       | Some bs \<Rightarrow> \<exists>sp. get h rid = (h', Inr (bs, sp)))"
    and upd_replaces: "hinv h \<Longrightarrow> map_of (entries h) rid = Some old \<Longrightarrow> length bs \<le> length old \<Longrightarrow>
      \<exists>h'. hinv h' \<and> upd h rid bs = (h', Inr ()) \<and> entries h' = replace_key rid bs (entries h)"
begin

lemma inserted_lookup:
  assumes "hinv h" and "room h" and "length bs \<le> 4088"
  shows "\<exists>h' rid. ins h bs = (h', Inr rid) \<and> hinv h' \<and> map_of (entries h) rid = None \<and>
    map_of (entries h') = (map_of (entries h))(rid \<mapsto> bs)"
proof -
  obtain h' rid xs ys where I: "ins h bs = (h', Inr rid)" "hinv h'" "entries h = xs @ ys"
    "entries h' = xs @ (rid, bs) # ys" using ins_adds [OF assms] by blast
  have "distinct (map fst xs @ rid # map fst ys)" using distinct_ids [OF I(2)] by (simp only: I(4)) simp
  then have "rid \<notin> fst ` set xs" "rid \<notin> fst ` set ys" by simp_all
  then have "map_of (entries h) rid = None"
    by (simp add: I(3) map_of_eq_None_iff image_Un del: map_of_append)
  moreover from \<open>rid \<notin> fst ` set xs\<close> I have "map_of (entries h') = (map_of (entries h))(rid \<mapsto> bs)"
    using map_of_insert_middle [of rid xs bs ys] by (simp del: map_of_append)
  ultimately show ?thesis using I by blast
qed

lemma get_after_insert:
  assumes "hinv h" and "room h" and "length bs \<le> 4088"
  shows "\<exists>h' rid h'' sp. ins h bs = (h', Inr rid) \<and> get h' rid = (h'', Inr (bs, sp)) \<and> hinv h''"
proof -
  obtain h' rid where I: "ins h bs = (h', Inr rid)" "hinv h'"
    "map_of (entries h') = (map_of (entries h))(rid \<mapsto> bs)"
    using inserted_lookup [OF assms] by blast
  with get_reads [OF I(2), of rid] show ?thesis by auto
qed

end

interpretation hfs: row_store heap_inv "\<lambda>hf. pageCount hf < 2 ^ 48" heap_entries
  HeapFile_Insert HeapFile_Get HeapFile_Update
proof
  fix h rid old and bs :: "byte list"
  assume "heap_inv h" "map_of (heap_entries h) rid = Some old" "length bs \<le> length old"
  then show "\<exists>h'. heap_inv h' \<and> HeapFile_Update h rid bs = (h', Inr ()) \<and>
      heap_entries h' = replace_key rid bs (heap_entries h)"
    using HeapFile_Update_ok [of h rid bs] by auto
qed (rule distinct_heap_entries HeapFile_Insert_ok HeapFile_Get_ok; assumption)+

section \<open>Flushing makes the file equal to what clients see\<close>

lemma Flush_each_ok:
  assumes "pool_inv hf"
  shows "\<exists>hf'. Flush_each hf ks = (hf', Inr ()) \<and> pool_inv hf' \<and> pageAt hf' = pageAt hf \<and>
    pageCount hf' = pageCount hf \<and> set (dirty (pool hf')) = set (dirty (pool hf)) - set ks"
  using assms
proof (induction ks arbitrary: hf)
  case Nil
  then show ?case by simp
next
  case (Cons k ks)
  obtain h1 where h1: "Flush hf k = (h1, Inr ())" "pool_inv h1" "pageAt h1 = pageAt hf"
    "pageCount h1 = pageCount hf" "dirty (pool h1) = removeAll k (dirty (pool hf))"
    by (rule Flush_ok [OF Cons.prems]) auto
  from Cons.IH [OF h1(2)] h1 show ?case by auto
qed

lemma clean_pool_on_disk:
  assumes "pool_inv hf" and "dirty (pool hf) = []"
  shows "diskPage (fileBytes hf) = pageAt hf"
  using pool_invD(6) [OF assms(1)] assms(2)
  by (auto simp: pageAt_def fun_eq_iff simp del: map_of_eq_Some_iff split: option.splits)

lemma FlushAll_ok:
  assumes inv: "pool_inv hf"
  obtains hf' where "FlushAll hf = (hf', Inr ())" "pool_inv hf'" "pageAt hf' = pageAt hf"
    "pageCount hf' = pageCount hf" "dirty (pool hf') = []" "diskPage (fileBytes hf') = pageAt hf"
proof -
  obtain x r where k: "range_keys (pool hf) (dirty (pool hf)) = ((pool hf)\<lparr>mapOrder := x\<rparr>, rotate r (dirty (pool hf)))"
    by (rule range_keys_cases)
  let ?h = "hf\<lparr>pool := (pool hf)\<lparr>mapOrder := x\<rparr>\<rparr>"
  from inv have "pool_inv ?h" by simp
  from Flush_each_ok [OF this, of "rotate r (dirty (pool hf))"] obtain h' where
    h': "Flush_each ?h (rotate r (dirty (pool hf))) = (h', Inr ())" "pool_inv h'" "pageAt h' = pageAt hf"
      "pageCount h' = pageCount hf" "dirty (pool h') = []" by auto
  show ?thesis
    using k h' clean_pool_on_disk [OF h'(2,5)] by (intro that [of h']) (simp_all add: FlushAll_def)
qed

lemma reopened:
  assumes "length f mod PageSize = 0"
  shows "pool_inv (NewHeapFile f (NewBufferPool cap ord))"
    and "pageAt (NewHeapFile f (NewBufferPool cap ord)) = diskPage f"
    and "pageCount (NewHeapFile f (NewBufferPool cap ord)) = getPageCount f"
  using assms by (auto simp: pool_inv_def NewHeapFile_def NewBufferPool_def pageAt_def)

lemma empty_heap: "heap_inv (NewHeapFile [] (NewBufferPool cap ord))"
  "heap_entries (NewHeapFile [] (NewBufferPool cap ord)) = []"
  using reopened [of "[]" cap ord]
  by (simp_all add: heap_inv_def heap_entries_def) (simp_all add: getPageCount_def)

section \<open>Properties\<close>

text \<open>C17: the buffer pool is transparent.  Whatever its capacity, its contents and the order of map
  iteration, fetching a page never fails, returns the page last stored there, and changes no page
  for any later reader, although it may evict a page and write it to disk.\<close>

theorem FetchPage_transparent:
  assumes "pool_inv hf" and "FetchPage hf i = (hf', r)"
  shows "r = Inr (pageAt hf i) \<and> pool_inv hf' \<and> pageAt hf' = pageAt hf \<and> pageCount hf' = pageCount hf"
  using bp.fetch_result [OF assms] by simp

theorem FetchPage_transparent_witness:
  "snd (FetchPage (NewHeapFile [] (NewBufferPool 1 [])) 3) = Inr zeroPage"
proof -
  let ?h = "NewHeapFile [] (NewBufferPool 1 [])"
  have inv: "pool_inv ?h" by (rule reopened) simp
  show ?thesis
    using FetchPage_transparent [OF inv, of 3 "fst (FetchPage ?h 3)" "snd (FetchPage ?h 3)"]
      pageAt_beyond [OF inv, of 3] by (simp add: NewHeapFile_def getPageCount_def)
qed

text \<open>C8: durability of \<open>FlushAll\<close>: it never fails, and a heap file opened again on the bytes it
  left, with any pool, holds the same rows under the same identifiers.\<close>

theorem FlushAll_reopen:
  assumes "heap_inv hf" and "FlushAll hf = (hf', r)"
  shows "r = Inr () \<and> heap_inv (NewHeapFile (fileBytes hf') (NewBufferPool cap ord)) \<and>
    heap_entries (NewHeapFile (fileBytes hf') (NewBufferPool cap ord)) = heap_entries hf"
proof -
  obtain h where h: "FlushAll hf = (h, Inr ())" "pool_inv h" "pageCount h = pageCount hf"
    "diskPage (fileBytes h) = pageAt hf" by (rule FlushAll_ok [OF heap_invD(1) [OF assms(1)]])
  with assms(2) have eq: "hf' = h" "r = Inr ()" by simp_all
  have "length (fileBytes h) mod PageSize = 0" by (rule pool_invD(1) [OF h(2)])
  from reopened [OF this] h heap_inv_cong [OF assms(1)] show ?thesis by (simp add: eq)
qed

theorem FlushAll_reopen_witness:
  "heap_entries (NewHeapFile (fileBytes (fst (FlushAll (NewHeapFile [] (NewBufferPool 1 []))))) (NewBufferPool 9 [])) = []"
  using FlushAll_reopen [OF empty_heap(1), of 1 "[]" "fst (FlushAll (NewHeapFile [] (NewBufferPool 1 [])))"
      "snd (FlushAll (NewHeapFile [] (NewBufferPool 1 [])))" 9 "[]"] empty_heap(2) by simp

text \<open>C7: insertion into a heap file.  A row of at most 4088 bytes is always stored, under an identifier
  that was not in use, and every other row keeps its identifier and bytes; a longer row is refused and
  nothing changes.\<close>

theorem HeapFile_Insert_refines_map:
  assumes "heap_inv hf" and "pageCount hf < 2 ^ 48"
  shows "if length bs \<le> 4088
    then \<exists>hf' rid. HeapFile_Insert hf bs = (hf', Inr rid) \<and> heap_inv hf' \<and>
      map_of (heap_entries hf) rid = None \<and>
      map_of (heap_entries hf') = (map_of (heap_entries hf))(rid \<mapsto> bs)
    else \<exists>hf'. HeapFile_Insert hf bs = (hf', Inl (Errorf ''page is full'' [])) \<and> heap_inv hf' \<and>
      heap_entries hf' = heap_entries hf"
  using hfs.inserted_lookup [OF assms] HeapFile_Insert_too_large [OF assms(1)] by auto

theorem HeapFile_Insert_refines_map_witness:
  "\<exists>hf' rid. HeapFile_Insert (NewHeapFile [] (NewBufferPool 100 [])) [1, 2] = (hf', Inr rid) \<and>
     map_of (heap_entries hf') = [rid \<mapsto> [1, 2]]"
  using HeapFile_Insert_refines_map [OF empty_heap(1), of 100 "[]" "[1, 2]"] empty_heap(2) [of 100 "[]"]
  by (auto simp: NewHeapFile_def getPageCount_def)

end
