(* ===== verification/BTree.thy ===== *)
theory BTree
  imports HeapFile
begin

text \<open>
  The B+-tree of the indexes (\<^verbatim>\<open>src/storage/btree.go\<close>, \<^verbatim>\<open>src/storage/btree_insert.go\<close>, and the
  node writer of \<^verbatim>\<open>src/storage/engine.go\<close>) over the shared index file.  All indexes of a database
  live in one file behind one buffer pool; a tree is known by the page of its root.  The catalog part
  of growing a root is in the theory of the engine.

  The walks down the tree and along the leaves follow page numbers read from the file, so on a
  corrupt file they may run in a circle.  The next page depends on the current one only, and every
  page past the end reads as zeros, so a walk of more than \<open>pageCount + 1\<close> steps has met a page
  twice and never ends: this is the fuel, and running out of it is \<open>Diverges\<close>.

  The lemmas show that nodes are read back as written, that the entries of a tree, read along the
  leaves, are a sorted list into which an insertion puts its entry behind the last key that is not
  greater, and that no other tree of the file changes.
\<close>

section \<open>Nodes\<close>

definition NodeTypeInternal :: nat where "NodeTypeInternal = 0"
definition NodeTypeLeaf :: nat where "NodeTypeLeaf = 1"

text \<open>The two 16-bit fields are natural numbers: a node read from a page has at most 255 keys (more
  would leave the page and panic), so that adding one key never wraps around.\<close>

record bTreeNode =
  ndPageID :: nat
  NodeType :: nat
  NumKeys :: nat
  NextLeaf :: int
  Keys :: "val list"
  Pointers :: "64 word list"

definition NewLeafNode :: "nat \<Rightarrow> bTreeNode" where
  "NewLeafNode pageID =
     \<lparr>ndPageID = pageID, NodeType = NodeTypeLeaf, NumKeys = 0, NextLeaf = -1, Keys = [], Pointers = []\<rparr>"

definition NewInternalNode :: "nat \<Rightarrow> bTreeNode" where
  "NewInternalNode pageID =
     \<lparr>ndPageID = pageID, NodeType = NodeTypeInternal, NumKeys = 0, NextLeaf = -1, Keys = [], Pointers = []\<rparr>"

definition MaxKeys :: nat where "MaxKeys = 250"

section \<open>Nodes on pages\<close>

text \<open>Pointer and key of position \<open>i\<close> at offset \<open>12 + 16 i\<close>.\<close>

definition pairOff :: "nat \<Rightarrow> nat" where "pairOff i = 12 + 16 * i"

text \<open>\<^verbatim>\<open>FetchPage\<close> of a page number computed from a pointer, which may be negative: the read then
  fails, after the eviction that makes room for the page.\<close>

definition FetchPage_int :: "heapFile \<Rightarrow> int \<Rightarrow> heapFile \<times> page res" where
  "FetchPage_int hf pageID =
     (if 0 \<le> pageID then FetchPage hf (nat pageID)
      else case (if length (pages (pool hf)) \<ge> capacity (pool hf) then evictPage hf else (hf, Inr ())) of
          (hf', Inl e) \<Rightarrow> (hf', Inl e)
        | (hf', Inr _) \<Rightarrow> (hf', Inl (Errorf ''readat: negative offset'' [])))"

definition decodeNode :: "nat \<Rightarrow> byte list \<Rightarrow> bTreeNode res" where
  "decodeNode pageID data =
     (let nodeType = getUint (bslice 0 2 data);
          numKeys = getUint (bslice 2 2 data);
          nextLeaf = sint (word_of_nat (getUint (bslice 4 4 data)) :: 32 word);
          readU64 = (\<lambda>off. word_of_nat (getUint (bslice off 8 data)) :: 64 word);
          ptrs = map (\<lambda>i. readU64 (pairOff i)) [0..<numKeys];
          keys = map (\<lambda>i. NewInt (readU64 (pairOff i + 8))) [0..<numKeys]
      in if pairOff numKeys + (if nodeType = NodeTypeInternal then 8 else 0) > PageSize
         then Inl (Panic ''slice bounds out of range'')
         else Inr \<lparr>ndPageID = pageID, NodeType = nodeType, NumKeys = numKeys, NextLeaf = nextLeaf,
                   Keys = keys,
                   Pointers = (if nodeType = NodeTypeInternal then ptrs @ [readU64 (pairOff numKeys)]
                               else ptrs)\<rparr>)"

definition fetchNode :: "heapFile \<Rightarrow> int \<Rightarrow> heapFile \<times> bTreeNode res" where
  "fetchNode hf pageID =
     (case FetchPage_int hf pageID of
        (hf', Inl e) \<Rightarrow> (hf', Inl e)
      | (hf', Inr page) \<Rightarrow> (hf', decodeNode (nat pageID) (Data page)))"

text \<open>The bytes that both node writers put into a page: the header, four bytes left as they are, then
  the pairs and, in an internal node, the last pointer.\<close>

definition nodeHeader :: "bTreeNode \<Rightarrow> byte list" where
  "nodeHeader node =
     putUint 2 (NodeType node) @ putUint 2 (NumKeys node) @ putUint 4 (nat (NextLeaf node mod 2 ^ 32))"

definition nodePair :: "bTreeNode \<Rightarrow> nat \<Rightarrow> byte list" where
  "nodePair node i = putUint 8 (unat (Pointers node ! i)) @ putUint 8 (unat (vInt (Keys node ! i)))"

definition nodeBody :: "bTreeNode \<Rightarrow> byte list" where
  "nodeBody node =
     concat (map (nodePair node) [0..<NumKeys node]) @
     (if NodeType node = NodeTypeInternal then putUint 8 (unat (Pointers node ! NumKeys node)) else [])"

definition writeNodeToBytes :: "bTreeNode \<Rightarrow> byte list \<Rightarrow> byte list res" where
  "writeNodeToBytes node data =
     (if NumKeys node > length (Keys node) \<or>
         NumKeys node + (if NodeType node = NodeTypeInternal then 1 else 0) > length (Pointers node)
      then Inl (Panic ''index out of range'')
      else if 12 + length (nodeBody node) > length data then Inl (Panic ''slice bounds out of range'')
      else Inr (bsplice 12 (nodeBody node) (bsplice 0 (nodeHeader node) data)))"

definition writeNode :: "heapFile \<Rightarrow> bTreeNode \<Rightarrow> heapFile \<times> unit res" where
  "writeNode hf node =
     (case FetchPage hf (ndPageID node) of
        (hf1, Inl e) \<Rightarrow> (hf1, Inl e)
      | (hf1, Inr page) \<Rightarrow>
          (case writeNodeToBytes node (Data page) of
             Inl e \<Rightarrow> (hf1, Inl e)
           | Inr data' \<Rightarrow>
               (MarkDirty (putPage hf1 (ndPageID node) (page\<lparr>Data := data'\<rparr>)) (ndPageID node), Inr ())))"

section \<open>Walking down\<close>

text \<open>The first child whose separator is greater than the key, the last child when there is none.
  \<^verbatim>\<open>findLeaf\<close> stops at an error of \<^verbatim>\<open>Compare\<close>, \<^verbatim>\<open>findLeafWithPath\<close> reads it as 0.\<close>

fun childIndex :: "val \<Rightarrow> val list \<Rightarrow> nat res" where
  "childIndex key [] = Inr 0"
| "childIndex key (k # ks) =
     (case Compare key k of
        Inl e \<Rightarrow> Inl e
      | Inr c \<Rightarrow> if c < 0 then Inr 0
               else (case childIndex key ks of Inl e \<Rightarrow> Inl e | Inr i \<Rightarrow> Inr (Suc i)))"

fun firstGreater :: "val \<Rightarrow> val list \<Rightarrow> nat" where
  "firstGreater key [] = 0"
| "firstGreater key (k # ks) = (if cmp_or_0 key k < 0 then 0 else Suc (firstGreater key ks))"

fun findLeaf_fuel :: "nat \<Rightarrow> heapFile \<Rightarrow> int \<Rightarrow> val \<Rightarrow> heapFile \<times> bTreeNode res" where
  "findLeaf_fuel 0 hf currPageID key = (hf, Inl Diverges)"
| "findLeaf_fuel (Suc n) hf currPageID key =
     (case fetchNode hf currPageID of
        (hf1, Inl e) \<Rightarrow> (hf1, Inl e)
      | (hf1, Inr node) \<Rightarrow>
          if NodeType node = NodeTypeLeaf then (hf1, Inr node)
          else (case childIndex key (Keys node) of
              Inl e \<Rightarrow> (hf1, Inl e)
            | Inr childIdx \<Rightarrow>
                if childIdx < length (Pointers node)
                then findLeaf_fuel n hf1 (sint (Pointers node ! childIdx)) key
                else (hf1, Inl (Panic ''index out of range''))))"

definition findLeaf :: "heapFile \<Rightarrow> int \<Rightarrow> val \<Rightarrow> heapFile \<times> bTreeNode res" where
  "findLeaf hf rootPageID key = findLeaf_fuel (pageCount hf + 2) hf rootPageID key"

fun findLeafWithPath_fuel ::
  "nat \<Rightarrow> heapFile \<Rightarrow> int \<Rightarrow> val \<Rightarrow> int list \<Rightarrow> heapFile \<times> (bTreeNode \<times> int list) res" where
  "findLeafWithPath_fuel 0 hf currPageID key path = (hf, Inl Diverges)"
| "findLeafWithPath_fuel (Suc n) hf currPageID key path =
     (case fetchNode hf currPageID of
        (hf1, Inl e) \<Rightarrow> (hf1, Inl e)
      | (hf1, Inr node) \<Rightarrow>
          if NodeType node = NodeTypeLeaf then (hf1, Inr (node, path))
          else let childIdx = firstGreater key (Keys node) in
            if childIdx < length (Pointers node)
            then findLeafWithPath_fuel n hf1 (sint (Pointers node ! childIdx)) key (path @ [currPageID])
            else (hf1, Inl (Panic ''index out of range'')))"

definition findLeafWithPath :: "heapFile \<Rightarrow> int \<Rightarrow> val \<Rightarrow> heapFile \<times> (bTreeNode \<times> int list) res" where
  "findLeafWithPath hf rootPageID key = findLeafWithPath_fuel (pageCount hf + 2) hf rootPageID key []"

section \<open>Insertion and splits\<close>

definition insertIntoNodeArrays :: "bTreeNode \<Rightarrow> val \<Rightarrow> 64 word \<Rightarrow> bTreeNode" where
  "insertIntoNodeArrays node key ptr =
     (let insertIdx = firstGreater key (take (NumKeys node) (Keys node));
          at = (if NodeType node = NodeTypeInternal then insertIdx + 1 else insertIdx)
      in node\<lparr>Keys := take insertIdx (Keys node) @ key # drop insertIdx (Keys node),
              Pointers := take at (Pointers node) @ ptr # drop at (Pointers node),
              NumKeys := NumKeys node + 1\<rparr>)"

definition allocateIndexPage :: "heapFile \<Rightarrow> heapFile \<times> nat" where
  "allocateIndexPage hf =
     (let pc = getPageCount (fileBytes hf)
      in (hf\<lparr>fileBytes := writePage (fileBytes hf) pc zeroPage\<rparr>, pc))"

text \<open>The node that is split is changed in place; the callers keep only its page number.\<close>

definition splitLeafNode :: "heapFile \<Rightarrow> bTreeNode \<Rightarrow> heapFile \<times> (val \<times> nat) res" where
  "splitLeafNode hf leftNode =
     (case allocateIndexPage hf of (hf0, rightNodeID) \<Rightarrow>
      let splitIdx = NumKeys leftNode div 2;
          rightNode = (NewLeafNode rightNodeID)\<lparr>
            Keys := drop splitIdx (Keys leftNode), Pointers := drop splitIdx (Pointers leftNode),
            NumKeys := length (drop splitIdx (Keys leftNode)), NextLeaf := NextLeaf leftNode\<rparr>;
          leftNode' = leftNode\<lparr>
            Keys := take splitIdx (Keys leftNode), Pointers := take splitIdx (Pointers leftNode),
            NumKeys := length (take splitIdx (Keys leftNode)), NextLeaf := int rightNodeID\<rparr>
      in case writeNode hf0 leftNode' of
          (hf1, Inl e) \<Rightarrow> (hf1, Inl e)
        | (hf1, Inr _) \<Rightarrow>
            (case writeNode hf1 rightNode of
               (hf2, Inl e) \<Rightarrow> (hf2, Inl e)
             | (hf2, Inr _) \<Rightarrow>
                 (case Keys rightNode of
                    [] \<Rightarrow> (hf2, Inl (Panic ''index out of range''))
                  | upKey # _ \<Rightarrow> (hf2, Inr (upKey, rightNodeID)))))"

definition splitInternalNode :: "heapFile \<Rightarrow> bTreeNode \<Rightarrow> heapFile \<times> (val \<times> nat) res" where
  "splitInternalNode hf node =
     (hf, Inl (Errorf ''internal node split cascade not yet implemented - tree too large!'' []))"

text \<open>The part of \<^verbatim>\<open>createNewRoot\<close> on the index file; the result is the page of the new root.\<close>

definition createNewRoot_node :: "heapFile \<Rightarrow> nat \<Rightarrow> nat \<Rightarrow> val \<Rightarrow> heapFile \<times> nat res" where
  "createNewRoot_node hf leftPageID rightPageID upKey =
     (case allocateIndexPage hf of (hf0, newRootID) \<Rightarrow>
      let newRoot = (NewInternalNode newRootID)\<lparr>
            Keys := [upKey], Pointers := [word_of_nat leftPageID, word_of_nat rightPageID], NumKeys := 1\<rparr>
      in case writeNode hf0 newRoot of
          (hf1, Inl e) \<Rightarrow> (hf1, Inl e)
        | (hf1, Inr _) \<Rightarrow> (hf1, Inr newRootID))"

text \<open>The loop of \<^verbatim>\<open>handleSplitCascade\<close>.  Its result says whether a new root is to be made, from
  which pages and key.  The path is a stack whose top is its last element.\<close>

function handleSplitCascade_loop ::
  "heapFile \<Rightarrow> bTreeNode \<Rightarrow> int list \<Rightarrow> heapFile \<times> (nat \<times> nat \<times> val) option res" where
  "handleSplitCascade_loop hf overflowingNode path =
     (case (if NodeType overflowingNode = NodeTypeLeaf then splitLeafNode hf overflowingNode
            else splitInternalNode hf overflowingNode) of
        (hf1, Inl e) \<Rightarrow> (hf1, Inl e)
      | (hf1, Inr (upKey, rightNodePageID)) \<Rightarrow>
          if path = [] then (hf1, Inr (Some (ndPageID overflowingNode, rightNodePageID, upKey)))
          else (case fetchNode hf1 (last path) of
              (hf2, Inl e) \<Rightarrow> (hf2, Inl e)
            | (hf2, Inr parent0) \<Rightarrow>
                let parent = insertIntoNodeArrays parent0 upKey (word_of_nat rightNodePageID) in
                if NumKeys parent < MaxKeys
                then (case writeNode hf2 parent of
                    (hf3, Inl e) \<Rightarrow> (hf3, Inl e)
                  | (hf3, Inr _) \<Rightarrow> (hf3, Inr None))
                else handleSplitCascade_loop hf2 parent (butlast path)))"
  by pat_completeness auto
termination by (relation "measure (\<lambda>(_, _, path). length path)") auto

declare handleSplitCascade_loop.simps [simp del]

text \<open>Insertion below a root page, up to the catalog: \<open>Some\<close> new root when the root was split.\<close>

definition insertIntoTree :: "heapFile \<Rightarrow> nat \<Rightarrow> val \<Rightarrow> rowID \<Rightarrow> heapFile \<times> nat option res" where
  "insertIntoTree hf rootPageID key rowID =
     (case findLeafWithPath hf (int rootPageID) key of
        (hf1, Inl e) \<Rightarrow> (hf1, Inl e)
      | (hf1, Inr (leaf0, path)) \<Rightarrow>
          let leaf = insertIntoNodeArrays leaf0 key rowID in
          if NumKeys leaf < MaxKeys
          then (case writeNode hf1 leaf of (hf2, Inl e) \<Rightarrow> (hf2, Inl e) | (hf2, Inr _) \<Rightarrow> (hf2, Inr None))
          else (case handleSplitCascade_loop hf1 leaf path of
              (hf2, Inl e) \<Rightarrow> (hf2, Inl e)
            | (hf2, Inr None) \<Rightarrow> (hf2, Inr None)
            | (hf2, Inr (Some (l, r, upKey))) \<Rightarrow>
                (case createNewRoot_node hf2 l r upKey of
                   (hf3, Inl e) \<Rightarrow> (hf3, Inl e)
                 | (hf3, Inr newRootID) \<Rightarrow> (hf3, Inr (Some newRootID)))))"

section \<open>Seeking and deleting\<close>

text \<open>Where \<^verbatim>\<open>SeekIndex\<close> starts in the leaf: the first key that is not less.\<close>

definition startIdx :: "bTreeNode \<Rightarrow> val \<Rightarrow> nat" where
  "startIdx leafNode key = length (takeWhile (\<lambda>k. cmp_or_0 k key < 0) (take (NumKeys leafNode) (Keys leafNode)))"

text \<open>The position that \<^verbatim>\<open>DeleteFromIndex\<close> removes.\<close>

fun findEntry :: "val list \<Rightarrow> 64 word list \<Rightarrow> val \<Rightarrow> 64 word \<Rightarrow> nat option res" where
  "findEntry (k # ks) (p # ps) key rowID =
     (case Compare k key of
        Inl e \<Rightarrow> Inl e
      | Inr c \<Rightarrow>
          if c = 0 \<and> p = rowID then Inr (Some 0)
          else (case findEntry ks ps key rowID of
              Inl e \<Rightarrow> Inl e | Inr None \<Rightarrow> Inr None | Inr (Some i) \<Rightarrow> Inr (Some (Suc i))))"
| "findEntry _ _ key rowID = Inr None"

definition deleteFromTree :: "heapFile \<Rightarrow> nat \<Rightarrow> val \<Rightarrow> rowID \<Rightarrow> heapFile \<times> unit res" where
  "deleteFromTree hf rootPageID key rowID =
     (case findLeafWithPath hf (int rootPageID) key of
        (hf1, Inl e) \<Rightarrow> (hf1, Inl e)
      | (hf1, Inr (leaf, _)) \<Rightarrow>
          (case findEntry (Keys leaf) (Pointers leaf) key rowID of
             Inl e \<Rightarrow> (hf1, Inl e)
           | Inr None \<Rightarrow>
               (hf1, Inl (Errorf ''entry not found in index: key=%v, rowID=%d''
                           [ArgStr (Value_String key), ArgInt (uint rowID)]))
           | Inr (Some i) \<Rightarrow>
               writeNode hf1 (leaf\<lparr>Keys := take i (Keys leaf) @ drop (Suc i) (Keys leaf),
                                   Pointers := take i (Pointers leaf) @ drop (Suc i) (Pointers leaf),
                                   NumKeys := NumKeys leaf - 1\<rparr>)))"

section \<open>Keys\<close>

definition key_of :: "val \<Rightarrow> int" where "key_of v = sint (vInt v)"

lemma key_of_NewInt [simp]: "key_of (NewInt k) = sint k"
  by (simp add: key_of_def)

definition int_vals :: "val list \<Rightarrow> bool" where
  "int_vals vs \<longleftrightarrow> (\<forall>v \<in> set vs. v = NewInt (vInt v))"

definition upTo :: "int \<Rightarrow> int list \<Rightarrow> nat" where
  "upTo k xs = length (takeWhile (\<lambda>x. x \<le> k) xs)"

section \<open>Searching in a node\<close>

lemma firstGreater_upTo: "int_vals vs \<Longrightarrow> firstGreater (NewInt k) vs = upTo (sint k) (map key_of vs)"
proof (induction vs)
  case Nil
  then show ?case by (simp add: upTo_def)
next
  case (Cons v vs)
  then obtain w where "v = NewInt w" by (auto simp: int_vals_def)
  with Cons show ?case by (auto simp: upTo_def int_vals_def)
qed

lemma childIndex_upTo: "int_vals vs \<Longrightarrow> childIndex (NewInt k) vs = Inr (upTo (sint k) (map key_of vs))"
proof (induction vs)
  case Nil
  then show ?case by (simp add: upTo_def)
next
  case (Cons v vs)
  then obtain w where "v = NewInt w" by (auto simp: int_vals_def)
  with Cons show ?case by (auto simp: upTo_def int_vals_def)
qed

lemma upTo_le: "upTo k xs \<le> length xs"
  by (simp add: upTo_def length_takeWhile_le)

lemma upTo_before: "i < upTo k xs \<Longrightarrow> xs ! i \<le> k"
  unfolding upTo_def by (metis nth_mem set_takeWhileD takeWhile_nth)

lemma upTo_at: "upTo k xs < length xs \<Longrightarrow> k < xs ! upTo k xs"
  unfolding upTo_def using nth_length_takeWhile [of "\<lambda>x. x \<le> k" xs] by simp

lemma upTo_eqI:
  assumes "sorted xs" and "c \<le> length xs" and "c = 0 \<or> xs ! (c - 1) \<le> k" and "c < length xs \<Longrightarrow> k < xs ! c"
  shows "upTo k xs = c"
proof -
  have "takeWhile (\<lambda>x. x \<le> k) xs = take c xs"
  proof (rule takeWhile_eq_take_P_nth)
    fix i assume "i < c" "i < length xs"
    with assms(1-3) have "xs ! i \<le> xs ! (c - 1)" by (intro sorted_nth_mono) auto
    with assms(3) \<open>i < c\<close> show "xs ! i \<le> k" by auto
  qed (use assms(4) in auto)
  with assms(2) show ?thesis by (simp add: upTo_def)
qed

text \<open>Insertion behind the last entry whose key is not greater.\<close>

definition insert_entry :: "int \<Rightarrow> 'a \<Rightarrow> (int \<times> 'a) list \<Rightarrow> (int \<times> 'a) list" where
  "insert_entry k p es = takeWhile (\<lambda>e. fst e \<le> k) es @ (k, p) # dropWhile (\<lambda>e. fst e \<le> k) es"

lemma insert_entry_local:
  assumes "\<And>e. e \<in> set as \<Longrightarrow> fst e \<le> k" and "\<And>e. e \<in> set cs \<Longrightarrow> k < fst e"
  shows "insert_entry k p (as @ bs @ cs) = as @ insert_entry k p bs @ cs"
proof (cases "\<forall>e \<in> set bs. fst e \<le> k")
  case True
  have "takeWhile (\<lambda>e. fst e \<le> k) cs = []" "dropWhile (\<lambda>e. fst e \<le> k) cs = cs"
    using assms(2) by (cases cs; fastforce)+
  with True assms(1) show ?thesis
    by (simp add: insert_entry_def takeWhile_append2 dropWhile_append2 takeWhile_eq_all_conv [THEN iffD2]
        dropWhile_eq_Nil_conv [THEN iffD2])
next
  case False
  then show ?thesis using assms(1)
    by (auto simp: insert_entry_def takeWhile_append2 dropWhile_append2 takeWhile_append1 dropWhile_append1)
qed

lemma set_insert_entry: "set (insert_entry k p es) = insert (k, p) (set es)"
proof -
  have "set (takeWhile P es) \<union> set (dropWhile P es) = set es" for P :: "int \<times> 'a \<Rightarrow> bool"
    by (metis set_append takeWhile_dropWhile_id)
  then show ?thesis by (auto simp: insert_entry_def)
qed

lemma map_fst_insert_entry:
  "map fst (insert_entry k p es) = takeWhile (\<lambda>x. x \<le> k) (map fst es) @ k # dropWhile (\<lambda>x. x \<le> k) (map fst es)"
  by (simp add: insert_entry_def takeWhile_map dropWhile_map comp_def)

lemma sorted_insert_entry:
  assumes "sorted (map fst es)" shows "sorted (map fst (insert_entry k p es))"
proof -
  let ?xs = "map fst es"
  have "sorted (takeWhile (\<lambda>x. x \<le> k) ?xs)" "sorted (dropWhile (\<lambda>x. x \<le> k) ?xs)"
    using assms by (simp_all add: sorted_takeWhile sorted_dropWhile)
  moreover have "x \<le> k" if "x \<in> set (takeWhile (\<lambda>x. x \<le> k) ?xs)" for x using that set_takeWhileD by fastforce
  moreover have "k \<le> x" if "x \<in> set (dropWhile (\<lambda>x. x \<le> k) ?xs)" for x
  proof -
    from that have "\<not> hd (dropWhile (\<lambda>x. x \<le> k) ?xs) \<le> k" 
      using hd_dropWhile [of "\<lambda>x. x \<le> k" ?xs] by (metis empty_iff list.set(1))
    moreover have "hd (dropWhile (\<lambda>x. x \<le> k) ?xs) \<le> x"
      using that sorted_dropWhile [OF assms, of "\<lambda>x. x \<le> k"]
      by (cases "dropWhile (\<lambda>x. x \<le> k) ?xs") auto
    ultimately show ?thesis by simp
  qed
  ultimately show ?thesis unfolding map_fst_insert_entry by (fastforce simp: sorted_append)
qed

definition leaf_entries :: "bTreeNode \<Rightarrow> (int \<times> 64 word) list" where
  "leaf_entries n = zip (map key_of (Keys n)) (Pointers n)"

lemma insert_entry_zip:
  "length ks = length ps \<Longrightarrow>
   insert_entry k p (zip ks ps) =
     zip (take (upTo k ks) ks @ k # drop (upTo k ks) ks) (take (upTo k ks) ps @ p # drop (upTo k ks) ps)"
proof (induction ks ps rule: list_induct2)
  case Nil
  then show ?case by (simp add: insert_entry_def upTo_def)
next
  case (Cons x xs y ys)
  then show ?case by (auto simp: insert_entry_def upTo_def)
qed

lemma insertIntoNodeArrays_leaf:
  assumes "NodeType n = NodeTypeLeaf" and "length (Keys n) = NumKeys n" and "length (Pointers n) = NumKeys n"
    and "int_vals (Keys n)"
  shows "leaf_entries (insertIntoNodeArrays n (NewInt k) p) = insert_entry (sint k) p (leaf_entries n)"
    and "length (Keys (insertIntoNodeArrays n (NewInt k) p)) = Suc (NumKeys n)"
    and "length (Pointers (insertIntoNodeArrays n (NewInt k) p)) = Suc (NumKeys n)"
    and "int_vals (Keys (insertIntoNodeArrays n (NewInt k) p))"
    and "NumKeys (insertIntoNodeArrays n (NewInt k) p) = Suc (NumKeys n)"
    and "NodeType (insertIntoNodeArrays n (NewInt k) p) = NodeTypeLeaf"
    and "NextLeaf (insertIntoNodeArrays n (NewInt k) p) = NextLeaf n"
    and "ndPageID (insertIntoNodeArrays n (NewInt k) p) = ndPageID n"
proof -
  let ?c = "upTo (sint k) (map key_of (Keys n))"
  have c: "?c \<le> NumKeys n" using upTo_le [of "sint k" "map key_of (Keys n)"] assms(2) by simp
  have eq: "insertIntoNodeArrays n (NewInt k) p =
      n\<lparr>Keys := take ?c (Keys n) @ NewInt k # drop ?c (Keys n),
        Pointers := take ?c (Pointers n) @ p # drop ?c (Pointers n), NumKeys := Suc (NumKeys n)\<rparr>"
    using assms by (simp add: insertIntoNodeArrays_def Let_def firstGreater_upTo
        NodeTypeInternal_def NodeTypeLeaf_def)
  show "leaf_entries (insertIntoNodeArrays n (NewInt k) p) = insert_entry (sint k) p (leaf_entries n)"
    using assms insert_entry_zip [of "map key_of (Keys n)" "Pointers n" "sint k" p]
    by (simp add: eq leaf_entries_def take_map drop_map)
  show "int_vals (Keys (insertIntoNodeArrays n (NewInt k) p))"
    using assms(4) by (auto simp: eq int_vals_def dest: in_set_takeD in_set_dropD)
qed (use assms in \<open>auto simp: insertIntoNodeArrays_def Let_def NodeTypeInternal_def NodeTypeLeaf_def\<close>)


text \<open>A node that fits on a page and is read back as it is.\<close>

definition wf_node :: "bTreeNode \<Rightarrow> bool" where
  "wf_node n \<longleftrightarrow>
     NodeType n \<in> {NodeTypeInternal, NodeTypeLeaf} \<and> length (Keys n) = NumKeys n \<and>
     length (Pointers n) = NumKeys n + (if NodeType n = NodeTypeInternal then 1 else 0) \<and>
     NumKeys n \<le> MaxKeys \<and> - 1 \<le> NextLeaf n \<and> NextLeaf n < 2 ^ 31 \<and>
     int_vals (Keys n)"

lemma length_nodePair [simp]: "length (nodePair n i) = 16"
  by (simp add: nodePair_def)

lemma length_nodeHeader [simp]: "length (nodeHeader n) = 8"
  by (simp add: nodeHeader_def)

lemma length_nodeBody:
  "length (nodeBody n) = 16 * NumKeys n + (if NodeType n = NodeTypeInternal then 8 else 0)"
  by (simp add: nodeBody_def length_concat_blocks [of _ _ 16])

lemma nodeBody_pair:
  assumes "i < NumKeys n"
  shows "bslice (16 * i) 8 (nodeBody n) = putUint 8 (unat (Pointers n ! i))"
    and "bslice (16 * i + 8) 8 (nodeBody n) = putUint 8 (unat (vInt (Keys n ! i)))"
proof -
  have blk: "bslice (16 * i) 16 (nodeBody n) = nodePair n i"
    using assms bslice_concat_blocks [of "NumKeys n" "nodePair n" 16 i]
    by (simp add: nodeBody_def bslice_append_left length_concat_blocks [of _ _ 16])
  have "bslice (16 * i + c) 8 (nodeBody n) = bslice c 8 (nodePair n i)" if "c + 8 \<le> 16" for c
    using bslice_bslice [of c 8 16 "16 * i" "nodeBody n"] that by (simp add: blk)
  from this [of 0] this [of 8]
  show "bslice (16 * i) 8 (nodeBody n) = putUint 8 (unat (Pointers n ! i))"
    "bslice (16 * i + 8) 8 (nodeBody n) = putUint 8 (unat (vInt (Keys n ! i)))"
    by (simp_all add: nodePair_def bslice_append_left bslice_append_right [of _ _ 0])
qed

lemma nodeBody_last:
  "NodeType n = NodeTypeInternal \<Longrightarrow>
   bslice (16 * NumKeys n) 8 (nodeBody n) = putUint 8 (unat (Pointers n ! NumKeys n))"
  by (simp add: nodeBody_def bslice_append_right [of _ _ 0] length_concat_blocks [of _ _ 16])

lemma decode_written:
  assumes wf: "wf_node n" and len: "length data = PageSize"
  obtains data' where "writeNodeToBytes n data = Inr data'" and "length data' = PageSize"
    and "decodeNode (ndPageID n) data' = Inr n"
proof -
  let ?d = "bsplice 12 (nodeBody n) (bsplice 0 (nodeHeader n) data)"
  have body: "12 + length (nodeBody n) \<le> PageSize" using wf
    by (simp add: wf_node_def length_nodeBody MaxKeys_def PageSize_def)
  have hd: "8 \<le> length data" using len by (simp add: PageSize_def)
  have l: "length ?d = PageSize" using body hd len by (simp add: bytes_simps)
  have W: "writeNodeToBytes n data = Inr ?d" using wf body len
    by (auto simp: writeNodeToBytes_def wf_node_def)
  have head: "bslice b m ?d = bslice b m (nodeHeader n)" if "b + m \<le> 8" for b m
    using that body hd len bslice_bsplice_inside [of b m "nodeHeader n" 0 data]
    by (simp add: bytes_simps)
  have pair: "bslice (12 + c) 8 ?d = bslice c 8 (nodeBody n)" if "c + 8 \<le> length (nodeBody n)" for c
    using that body hd len by (intro bslice_bsplice_inside) (simp_all add: bytes_simps)
  have ty: "getUint (bslice 0 2 ?d) = NodeType n" and nk: "getUint (bslice 2 2 ?d) = NumKeys n"
    and nl: "sint (word_of_nat (getUint (bslice 4 4 ?d)) :: 32 word) = NextLeaf n"
    using wf head [of 0 2] head [of 2 2] head [of 4 4] sint32_roundtrip [of "NextLeaf n"]
    by (auto simp: wf_node_def nodeHeader_def bslice_append_left bslice_append_right [of _ _ 0]
        bslice_append_right [of 4 _ 2] NodeTypeInternal_def NodeTypeLeaf_def MaxKeys_def nat_less_iff)
  have ps: "word_of_nat (getUint (bslice (pairOff i) 8 ?d)) = Pointers n ! i"
    and ks: "NewInt (word_of_nat (getUint (bslice (pairOff i + 8) 8 ?d))) = Keys n ! i"
    if "i < NumKeys n" for i
  proof -
    from that have c: "16 * i + 16 \<le> length (nodeBody n)" by (simp add: length_nodeBody)
    show "word_of_nat (getUint (bslice (pairOff i) 8 ?d)) = Pointers n ! i"
      using c that by (simp add: pairOff_def pair nodeBody_pair)
    have "Keys n ! i = NewInt (vInt (Keys n ! i))"
      using wf that unfolding wf_node_def int_vals_def by (metis nth_mem)
    then show "NewInt (word_of_nat (getUint (bslice (pairOff i + 8) 8 ?d))) = Keys n ! i"
      using c that pair [of "16 * i + 8"] by (simp add: pairOff_def nodeBody_pair add.assoc)
  qed
  have lst: "word_of_nat (getUint (bslice (pairOff (NumKeys n)) 8 ?d)) = Pointers n ! NumKeys n"
    if "NodeType n = NodeTypeInternal"
    using that by (simp add: pairOff_def pair length_nodeBody nodeBody_last)
  have "map (\<lambda>i. word_of_nat (getUint (bslice (pairOff i) 8 ?d))) [0..<NumKeys n] = take (NumKeys n) (Pointers n)"
    using wf ps by (intro nth_equalityI) (auto simp: wf_node_def)
  moreover have "map (\<lambda>i. NewInt (word_of_nat (getUint (bslice (pairOff i + 8) 8 ?d)))) [0..<NumKeys n] = Keys n"
    using wf ks by (intro nth_equalityI) (auto simp: wf_node_def)
  moreover have "take (NumKeys n) (Pointers n) @ [Pointers n ! NumKeys n] = Pointers n"
    if "NodeType n = NodeTypeInternal"
    using that wf take_Suc_conv_app_nth [of "NumKeys n" "Pointers n"] by (simp add: wf_node_def)
  moreover have "\<not> PageSize < pairOff (NumKeys n) + (if NodeType n = NodeTypeInternal then 8 else 0)"
    using body by (simp add: pairOff_def length_nodeBody)
  ultimately have "decodeNode (ndPageID n) ?d = Inr n"
    using wf lst unfolding decodeNode_def Let_def ty nk nl
    by (intro sum.inject(2) [THEN iffD2] bTreeNode.equality | simp add: wf_node_def)+
  with W l that show ?thesis by blast
qed

definition node_at :: "heapFile \<Rightarrow> nat \<rightharpoonup> bTreeNode" where
  "node_at hf i = (case decodeNode i (Data (pageAt hf i)) of Inr n \<Rightarrow> Some n | Inl _ \<Rightarrow> None)"

definition same_view :: "heapFile \<Rightarrow> heapFile \<Rightarrow> bool" where
  "same_view hf hf' \<longleftrightarrow> pool_inv hf' \<and> pageAt hf' = pageAt hf \<and> pageCount hf' = pageCount hf"

lemma same_viewD:
  assumes "same_view hf hf'"
  shows "pool_inv hf'" and "pageAt hf' = pageAt hf" and "pageCount hf' = pageCount hf"
    and "node_at hf' = node_at hf"
  using assms by (simp_all add: same_view_def node_at_def fun_eq_iff)

lemma fetchNode_ok:
  assumes "pool_inv hf" and "node_at hf i = Some n"
  obtains hf' where "fetchNode hf (int i) = (hf', Inr n)" and "same_view hf hf'"
proof -
  from bp.fetch_cases [OF assms(1), of i] obtain hf' where "FetchPage hf i = (hf', Inr (pageAt hf i))"
    "pool_inv hf'" "pageAt hf' = pageAt hf" "pageCount hf' = pageCount hf" .
  moreover from assms(2) have "decodeNode i (Data (pageAt hf i)) = Inr n"
    by (auto simp: node_at_def split: sum.splits)
  ultimately show thesis
    by (intro that [of hf']) (simp_all add: fetchNode_def FetchPage_int_def same_view_def)
qed

lemma writeNode_ok:
  assumes inv: "pool_inv hf" and wf: "wf_node n" and i: "ndPageID n < pageCount hf"
  obtains hf' where "writeNode hf n = (hf', Inr ())" and "pool_inv hf'"
    and "node_at hf' = (node_at hf)(ndPageID n \<mapsto> n)" and "pageCount hf' = pageCount hf"
    and "\<And>j. j \<noteq> ndPageID n \<Longrightarrow> pageAt hf' j = pageAt hf j"
proof -
  let ?p = "pageAt hf (ndPageID n)"
  from bp.fetch_cases [OF inv, of "ndPageID n"] obtain h where f: "FetchPage hf (ndPageID n) = (h, Inr ?p)" .
  have p: "plainPage ?p" by (rule bp.view_plain [OF inv])
  then have "length (Data ?p) = PageSize" by (simp add: plainPage_def)
  from decode_written [OF wf this] obtain d where d: "writeNodeToBytes n (Data ?p) = Inr d"
    "length d = PageSize" "decodeNode (ndPageID n) d = Inr n" .
  let ?q = "?p\<lparr>Data := d\<rparr>"
  have "plainPage ?q" using p d(2) by (simp add: plainPage_def)
  note W = bp.read_modify_write [OF inv i f this]
  show thesis
    by (rule that [of "MarkDirty (putPage h (ndPageID n) ?q) (ndPageID n)"])
      (use W d f in \<open>auto simp: writeNode_def node_at_def fun_eq_iff\<close>)
qed

lemma allocateIndexPage_ok:
  assumes inv: "pool_inv hf"
  obtains hf' where "allocateIndexPage hf = (hf', pageCount hf)" and "pool_inv hf'"
    and "pageAt hf' = pageAt hf" and "node_at hf' = node_at hf" and "pageCount hf' = Suc (pageCount hf)"
proof -
  let ?h = "hf\<lparr>fileBytes := writePage (fileBytes hf) (pageCount hf) zeroPage\<rparr>"
  note W = writePage_append [OF pool_invD(1) [OF inv] plain_zeroPage]
  have nd: "pageCount hf \<notin> set (dirty (pool hf))" using pool_invD(4) [OF inv] by blast
  have same: "diskPage (fileBytes ?h) = diskPage (fileBytes hf)"
    by (simp add: W(4) fun_eq_iff) (simp add: diskPage_def)
  have "pool_inv ?h" using inv W(2,3) same
    by (auto simp: pool_inv_def less_Suc_eq simp del: map_of_eq_Some_iff)
  moreover have "pageAt ?h = pageAt hf" using same by (simp add: pageAt_def fun_eq_iff split: option.splits)
  ultimately show thesis
    by (intro that [of ?h]) (simp_all add: allocateIndexPage_def Let_def W(3) node_at_def fun_eq_iff)
qed

section \<open>The invariant of an index\<close>

definition leaf_ok :: "(nat \<rightharpoonup> bTreeNode) \<Rightarrow> nat list \<Rightarrow> int list \<Rightarrow> nat \<Rightarrow> bTreeNode \<Rightarrow> bool" where
  "leaf_ok N ls seps i n \<longleftrightarrow>
     N (ls ! i) = Some n \<and> NodeType n = NodeTypeLeaf \<and> wf_node n \<and> NumKeys n < MaxKeys \<and> ndPageID n = ls ! i \<and>
     NextLeaf n = (if Suc i < length ls then int (ls ! Suc i) else -1) \<and>
     sorted (map key_of (Keys n)) \<and>
     (\<forall>k \<in> key_of ` set (Keys n). (0 < i \<longrightarrow> seps ! (i - 1) \<le> k) \<and> (i < length seps \<longrightarrow> k < seps ! i))"

definition root_ok :: "(nat \<rightharpoonup> bTreeNode) \<Rightarrow> nat \<Rightarrow> nat list \<Rightarrow> int list \<Rightarrow> bTreeNode \<Rightarrow> bool" where
  "root_ok N root ls seps r \<longleftrightarrow>
     N root = Some r \<and> NodeType r = NodeTypeInternal \<and> wf_node r \<and> NumKeys r < MaxKeys \<and> ndPageID r = root \<and>
     map key_of (Keys r) = seps \<and> Pointers r = map word_of_nat ls"

definition index_inv :: "(nat \<rightharpoonup> bTreeNode) \<Rightarrow> nat \<Rightarrow> nat \<Rightarrow> nat list \<Rightarrow> int list \<Rightarrow> bool" where
  "index_inv N cnt root ls seps \<longleftrightarrow>
     length ls = Suc (length seps) \<and> distinct ls \<and> (\<forall>l \<in> set ls. l < cnt) \<and> root < cnt \<and> cnt < 2 ^ 31 \<and>
     sorted_wrt (<) seps \<and> (\<forall>i < length ls. \<exists>n. leaf_ok N ls seps i n) \<and>
     (seps = [] \<longrightarrow> ls = [root]) \<and>
     (seps \<noteq> [] \<longrightarrow> root \<notin> set ls \<and> (\<exists>r. root_ok N root ls seps r))"

definition tree_pages :: "nat \<Rightarrow> nat list \<Rightarrow> nat set" where
  "tree_pages root ls = insert root (set ls)"

definition tree_entries :: "(nat \<rightharpoonup> bTreeNode) \<Rightarrow> nat list \<Rightarrow> (int \<times> 64 word) list" where
  "tree_entries N ls = concat (map (\<lambda>l. case N l of Some n \<Rightarrow> leaf_entries n | None \<Rightarrow> []) ls)"

lemma index_invD:
  assumes "index_inv N cnt root ls seps"
  shows "length ls = Suc (length seps)" and "distinct ls" and "\<And>l. l \<in> set ls \<Longrightarrow> l < cnt"
    and "root < cnt" and "cnt < 2 ^ 31" and "sorted_wrt (<) seps" and "sorted seps"
  using assms by (simp_all add: index_inv_def strict_sorted_iff)

lemma index_inv_leaf: "index_inv N cnt root ls seps \<Longrightarrow> i < length ls \<Longrightarrow> \<exists>n. leaf_ok N ls seps i n"
  unfolding index_inv_def by blast

lemma index_inv_single: "index_inv N cnt root ls [] \<Longrightarrow> ls = [root]"
  unfolding index_inv_def by blast

lemma index_inv_root:
  assumes "index_inv N cnt root ls seps" and "seps \<noteq> []"
  shows "root \<notin> set ls" and "\<exists>r. root_ok N root ls seps r"
  using assms unfolding index_inv_def by blast+

lemma upTo_child: "index_inv N cnt root ls seps \<Longrightarrow> upTo k seps < length ls"
  using upTo_le [of k seps] index_invD(1) [of N cnt root ls seps] by simp

lemma sint_page: "(p :: nat) < 2 ^ 31 \<Longrightarrow> sint (word_of_nat p :: 64 word) = int p"
  by (simp add: signed_of_nat signed_take_bit_int_eq_self)

lemma leaf_not_internal [simp]: "NodeTypeLeaf \<noteq> NodeTypeInternal" "NodeTypeInternal \<noteq> NodeTypeLeaf"
  by (simp_all add: NodeTypeLeaf_def NodeTypeInternal_def)

text \<open>Both walks end in the leaf of the key.\<close>

lemma descend:
  assumes inv: "pool_inv hf" and ix: "index_inv (node_at hf) (pageCount hf) root ls seps"
    and leaf: "leaf_ok (node_at hf) ls seps (upTo (sint k) seps) n" and "seps \<noteq> []"
  obtains r h1 h2 where "fetchNode hf (int root) = (h1, Inr r)" "NodeType r \<noteq> NodeTypeLeaf"
    "childIndex (NewInt k) (Keys r) = Inr (upTo (sint k) seps)"
    "firstGreater (NewInt k) (Keys r) = upTo (sint k) seps"
    "upTo (sint k) seps < length (Pointers r)"
    "fetchNode h1 (sint (Pointers r ! upTo (sint k) seps)) = (h2, Inr n)" "same_view hf h2"
proof -
  let ?c = "upTo (sint k) seps"
  from index_inv_root(2) [OF ix \<open>seps \<noteq> []\<close>] obtain r where r: "root_ok (node_at hf) root ls seps r" by blast
  have c: "?c < length ls" by (rule upTo_child [OF ix])
  from r have r': "node_at hf root = Some r" "NodeType r \<noteq> NodeTypeLeaf" "int_vals (Keys r)"
    "map key_of (Keys r) = seps" "Pointers r = map word_of_nat ls"
    by (auto simp: root_ok_def wf_node_def)
  from fetchNode_ok [OF inv r'(1)] obtain h1 where h1: "fetchNode hf (int root) = (h1, Inr r)" "same_view hf h1" .
  from leaf have n: "node_at h1 (ls ! ?c) = Some n"
    using same_viewD(4) [OF h1(2)] by (simp add: leaf_ok_def)
  from fetchNode_ok [OF same_viewD(1) [OF h1(2)] n] obtain h2 where
    h2: "fetchNode h1 (int (ls ! ?c)) = (h2, Inr n)" "same_view h1 h2" .
  have "ls ! ?c < 2 ^ 31" using index_invD(3) [OF ix nth_mem [OF c]] index_invD(5) [OF ix] by simp
  then have "sint (Pointers r ! ?c) = int (ls ! ?c)" using c sint_page [of "ls ! ?c"] by (simp add: r'(5))
  moreover have "same_view hf h2" using h1(2) h2(2) by (simp add: same_view_def)
  ultimately show thesis
    using that [of h1 r h2] h1(1) h2(1) r' c by (simp add: childIndex_upTo firstGreater_upTo)
qed

lemma findLeaf_ok:
  assumes inv: "pool_inv hf" and ix: "index_inv (node_at hf) (pageCount hf) root ls seps"
    and leaf: "leaf_ok (node_at hf) ls seps (upTo (sint k) seps) n"
  obtains hf' where "findLeaf hf (int root) (NewInt k) = (hf', Inr n)"
    and "findLeafWithPath hf (int root) (NewInt k) = (hf', Inr (n, if seps = [] then [] else [int root]))"
    and "same_view hf hf'"
proof (cases "seps = []")
  case True
  with index_inv_single [of "node_at hf" "pageCount hf" root ls] ix leaf have n: "node_at hf root = Some n" "NodeType n = NodeTypeLeaf"
    by (simp_all add: leaf_ok_def upTo_def)
  from fetchNode_ok [OF inv n(1)] obtain h where "fetchNode hf (int root) = (h, Inr n)" "same_view hf h" .
  with n that [of h] True show ?thesis by (simp add: findLeaf_def findLeafWithPath_def numeral_2_eq_2)
next
  case False
  have "NodeType n = NodeTypeLeaf" using leaf by (simp add: leaf_ok_def)
  from descend [OF inv ix leaf False] obtain r h1 h2 where
    "fetchNode hf (int root) = (h1, Inr r)" "NodeType r \<noteq> NodeTypeLeaf"
    "childIndex (NewInt k) (Keys r) = Inr (upTo (sint k) seps)"
    "firstGreater (NewInt k) (Keys r) = upTo (sint k) seps"
    "upTo (sint k) seps < length (Pointers r)"
    "fetchNode h1 (sint (Pointers r ! upTo (sint k) seps)) = (h2, Inr n)" "same_view hf h2" .
  with False \<open>NodeType n = NodeTypeLeaf\<close> show ?thesis
    by (intro that [of h2]) (simp_all add: findLeaf_def findLeafWithPath_def numeral_2_eq_2 Let_def)
qed


section \<open>Entries of a tree\<close>

lemma leaf_okD:
  assumes "leaf_ok N ls seps i n"
  shows "N (ls ! i) = Some n" and "wf_node n" and "NodeType n = NodeTypeLeaf"
    and "length (Keys n) = NumKeys n" and "length (Pointers n) = NumKeys n" and "int_vals (Keys n)"
    and "sorted (map key_of (Keys n))" and "ndPageID n = ls ! i" and "NumKeys n < MaxKeys"
  using assms by (simp_all add: leaf_ok_def wf_node_def)

lemma leaf_ok_bounds:
  assumes "leaf_ok N ls seps i n" and "k \<in> key_of ` set (Keys n)"
  shows "0 < i \<Longrightarrow> seps ! (i - 1) \<le> k" and "i < length seps \<Longrightarrow> k < seps ! i"
  using assms unfolding leaf_ok_def by blast+

lemma map_fst_leaf_entries: "length (Keys n) = length (Pointers n) \<Longrightarrow> map fst (leaf_entries n) = map key_of (Keys n)"
  by (simp add: leaf_entries_def)

lemma tree_entries_append: "tree_entries N (xs @ ys) = tree_entries N xs @ tree_entries N ys"
  by (simp add: tree_entries_def)

lemma tree_entries_other: "(\<And>l. l \<in> set ls \<Longrightarrow> N' l = N l) \<Longrightarrow> tree_entries N' ls = tree_entries N ls"
  by (simp add: tree_entries_def cong: map_cong)

lemma tree_entries_at:
  assumes "i < length ls" and "N (ls ! i) = Some n"
  shows "tree_entries N ls = tree_entries N (take i ls) @ leaf_entries n @ tree_entries N (drop (Suc i) ls)"
proof -
  have "ls = take i ls @ ls ! i # drop (Suc i) ls" using assms(1) by (simp add: id_take_nth_drop)
  then have "tree_entries N ls = tree_entries N (take i ls) @ tree_entries N [ls ! i] @ tree_entries N (drop (Suc i) ls)"
    by (metis append.left_neutral append_Cons tree_entries_append)
  then show ?thesis using assms(2) by (simp add: tree_entries_def)
qed

lemma tree_entries_key:
  assumes "(k, p) \<in> set (tree_entries N xs)" and "\<And>l. l \<in> set xs \<Longrightarrow> \<exists>n. N l = Some n \<and> length (Keys n) = length (Pointers n)"
  obtains i n where "i < length xs" and "N (xs ! i) = Some n" and "k \<in> key_of ` set (Keys n)"
proof -
  from assms(1) obtain l n where ln: "l \<in> set xs" "N l = Some n" "(k, p) \<in> set (leaf_entries n)"
    by (auto simp: tree_entries_def split: option.splits dest: sym)
  then have "k \<in> key_of ` set (Keys n)" by (auto simp: leaf_entries_def dest: set_zip_leftD)
  with ln that show thesis by (metis in_set_conv_nth)
qed

text \<open>The leaves on the left hold smaller keys, the leaves on the right greater ones.\<close>

lemma entries_around:
  fixes k :: int
  assumes ix: "index_inv N cnt root ls seps"
  defines "c \<equiv> upTo k seps"
  shows "e \<in> set (tree_entries N (take c ls)) \<Longrightarrow> fst e < k"
    and "e \<in> set (tree_entries N (drop (Suc c) ls)) \<Longrightarrow> k < fst e"
proof -
  have c: "c < length ls" unfolding c_def by (rule upTo_child [OF ix])
  have leafs: "\<exists>n. N l = Some n \<and> length (Keys n) = length (Pointers n)" if "l \<in> set ls" for l
    using that index_inv_leaf [OF ix] by (metis in_set_conv_nth leaf_okD(1,4,5))
  { assume e: "e \<in> set (tree_entries N (take c ls))"
    obtain x p where "e = (x, p)" by force
    with e obtain i n where i: "i < length (take c ls)" "N (take c ls ! i) = Some n" "x \<in> key_of ` set (Keys n)"
      using tree_entries_key [of x p N "take c ls"] leafs by (metis in_set_takeD)
    then have ic: "i < c" "i < length ls" "N (ls ! i) = Some n" using c by auto
    from index_inv_leaf [OF ix ic(2)] obtain m where "leaf_ok N ls seps i m" ..
    with ic(3) leaf_okD(1) have m: "leaf_ok N ls seps i n" by fastforce
    have "i < length seps" using ic(1) upTo_le [of k seps] by (simp add: c_def)
    with leaf_ok_bounds(2) [OF m i(3)] have "x < seps ! i" .
    also have "\<dots> \<le> k" using ic(1) by (auto simp: c_def intro: upTo_before)
    finally show "fst e < k" by (simp add: \<open>e = (x, p)\<close>) }
  { assume e: "e \<in> set (tree_entries N (drop (Suc c) ls))"
    obtain x p where "e = (x, p)" by force
    with e obtain i n where i: "i < length (drop (Suc c) ls)" "N (drop (Suc c) ls ! i) = Some n" "x \<in> key_of ` set (Keys n)"
      using tree_entries_key [of x p N "drop (Suc c) ls"] leafs by (metis in_set_dropD)
    define j where "j = Suc c + i"
    from i have ij: "j < length ls" "N (ls ! j) = Some n" by (auto simp: j_def)
    from index_inv_leaf [OF ix ij(1)] obtain m where "leaf_ok N ls seps j m" ..
    with ij(2) leaf_okD(1) have m: "leaf_ok N ls seps j n" by fastforce
    have cs: "c < length seps" using ij(1) index_invD(1) [OF ix] by (simp add: j_def)
    then have "k < seps ! c" by (auto simp: c_def intro: upTo_at)
    also have "\<dots> \<le> seps ! (j - 1)" using index_invD(7) [OF ix] ij(1) index_invD(1) [OF ix]
      by (intro sorted_nth_mono) (auto simp: j_def)
    also have "\<dots> \<le> x" using leaf_ok_bounds(1) [OF m i(3)] by (simp add: j_def)
    finally show "k < fst e" by (simp add: \<open>e = (x, p)\<close>) }
qed

lemma tree_entries_insert:
  assumes ix: "index_inv N cnt root ls seps" and "N (ls ! upTo k seps) = Some n"
    and rest: "\<And>l. l \<in> set ls \<Longrightarrow> l \<noteq> ls ! upTo k seps \<Longrightarrow> N' l = N l"
  shows "tree_entries N' (take (upTo k seps) ls) @ insert_entry k p (leaf_entries n) @
      tree_entries N' (drop (Suc (upTo k seps)) ls) = insert_entry k p (tree_entries N ls)"
proof -
  let ?c = "upTo k seps"
  have c: "?c < length ls" by (rule upTo_child [OF ix])
  have "distinct (take ?c ls @ ls ! ?c # drop (Suc ?c) ls)"
    using index_invD(2) [OF ix] c by (simp flip: id_take_nth_drop)
  then have "ls ! ?c \<notin> set (take ?c ls)" "ls ! ?c \<notin> set (drop (Suc ?c) ls)" by auto
  then have "tree_entries N' (take ?c ls) = tree_entries N (take ?c ls)"
    "tree_entries N' (drop (Suc ?c) ls) = tree_entries N (drop (Suc ?c) ls)"
    by (auto intro!: tree_entries_other rest dest: in_set_takeD in_set_dropD)
  moreover have "insert_entry k p (tree_entries N ls) = tree_entries N (take ?c ls) @
      insert_entry k p (leaf_entries n) @ tree_entries N (drop (Suc ?c) ls)"
    unfolding tree_entries_at [of ?c ls N n, OF c assms(2)]
    by (intro insert_entry_local) (use entries_around [OF ix, of _ k] in \<open>auto intro: less_imp_le\<close>)
  ultimately show ?thesis by simp
qed


section \<open>Insertion into a leaf\<close>

lemma leaf_ok_cong:
  assumes "leaf_ok N ls seps i n" and "N' (ls' ! j) = N (ls ! i)" and "ls' ! j = ls ! i"
    and "(if Suc j < length ls' then int (ls' ! Suc j) else -1) = (if Suc i < length ls then int (ls ! Suc i) else -1)"
    and "0 < j \<Longrightarrow> 0 < i \<and> seps' ! (j - 1) = seps ! (i - 1)"
    and "j < length seps' \<Longrightarrow> i < length seps \<and> seps' ! j = seps ! i"
  shows "leaf_ok N' ls' seps' j n"
  using assms unfolding leaf_ok_def by metis

lemma wf_node_arrays:
  assumes "wf_node n" and "NodeType n = NodeTypeLeaf" and "NumKeys n < MaxKeys"
  shows "wf_node (insertIntoNodeArrays n (NewInt k) p)"
proof -
  from assms have "length (Keys n) = NumKeys n" "length (Pointers n) = NumKeys n" "int_vals (Keys n)"
    by (simp_all add: wf_node_def)
  from insertIntoNodeArrays_leaf [OF assms(2) this, of k p] assms show ?thesis by (simp add: wf_node_def)
qed

lemma insert_keys:
  fixes w p :: "64 word"
  assumes leaf: "leaf_ok N ls seps i n"
  defines "n' \<equiv> insertIntoNodeArrays n (NewInt w) p"
  shows "leaf_entries n' = insert_entry (sint w) p (leaf_entries n)"
    and "sorted (map key_of (Keys n'))" and "key_of ` set (Keys n') = insert (sint w) (key_of ` set (Keys n))"
    and "wf_node n'" and "NodeType n' = NodeTypeLeaf" and "ndPageID n' = ls ! i"
    and "NumKeys n' = Suc (NumKeys n)" and "NextLeaf n' = NextLeaf n"
    and "length (Keys n') = Suc (NumKeys n)" and "length (Pointers n') = Suc (NumKeys n)"
    and "int_vals (Keys n')"
proof -
  note D = leaf_okD [OF leaf]
  note A = insertIntoNodeArrays_leaf [OF D(3,4,5,6), of w p]
  show ents: "leaf_entries n' = insert_entry (sint w) p (leaf_entries n)" unfolding n'_def by (rule A)
  have keys: "map fst (leaf_entries n') = map key_of (Keys n')"
    using A by (intro map_fst_leaf_entries) (simp add: n'_def)
  have old: "map fst (leaf_entries n) = map key_of (Keys n)" using D by (intro map_fst_leaf_entries) simp
  show "sorted (map key_of (Keys n'))"
    unfolding keys [symmetric] ents by (rule sorted_insert_entry) (simp add: old D)
  have "key_of ` set (Keys n') = fst ` set (leaf_entries n')" by (metis keys list.set_map)
  also have "\<dots> = insert (sint w) (fst ` set (leaf_entries n))" by (simp add: ents set_insert_entry)
  also have "fst ` set (leaf_entries n) = key_of ` set (Keys n)" by (metis old list.set_map)
  finally show "key_of ` set (Keys n') = insert (sint w) (key_of ` set (Keys n))" .
  show "wf_node n'" unfolding n'_def by (rule wf_node_arrays [OF D(2,3,9)])
qed (use insertIntoNodeArrays_leaf [OF leaf_okD(3,4,5,6) [OF leaf], of w p] leaf_okD [OF leaf] in
      \<open>simp_all add: n'_def\<close>)

lemma insert_bounds:
  assumes leaf: "leaf_ok N ls seps (upTo (sint w) seps) n"
    and "k \<in> insert (sint w) (key_of ` set (Keys n))"
  shows "0 < upTo (sint w) seps \<Longrightarrow> seps ! (upTo (sint w) seps - 1) \<le> k"
    and "upTo (sint w) seps < length seps \<Longrightarrow> k < seps ! upTo (sint w) seps"
  using assms(2) leaf_ok_bounds [OF leaf] upTo_before [of _ "sint w" seps] upTo_at [of "sint w" seps] by auto

lemma index_inv_replace:
  assumes ix: "index_inv N cnt root ls seps" and i: "i < length ls" and leaf: "leaf_ok (N(ls ! i \<mapsto> n)) ls seps i n"
  shows "index_inv (N(ls ! i \<mapsto> n)) cnt root ls seps"
proof -
  have "\<exists>m. leaf_ok (N(ls ! i \<mapsto> n)) ls seps j m" if j: "j < length ls" for j
  proof (cases "j = i")
    case False
    with index_invD(2) [OF ix] i j have "ls ! j \<noteq> ls ! i" by (simp add: nth_eq_iff_index_eq)
    with index_inv_leaf [OF ix j] show ?thesis by (auto simp: leaf_ok_def)
  qed (use leaf in blast)
  moreover have "\<exists>r. root_ok (N(ls ! i \<mapsto> n)) root ls seps r" if "seps \<noteq> []"
    using index_inv_root [OF ix that] nth_mem [OF i] by (auto simp: root_ok_def)
  ultimately show ?thesis using ix unfolding index_inv_def by blast
qed

lemma insert_no_split:
  fixes w p :: "64 word"
  assumes ix: "index_inv N cnt root ls seps" and leaf: "leaf_ok N ls seps (upTo (sint w) seps) n"
    and room: "Suc (NumKeys n) < MaxKeys"
  defines "n' \<equiv> insertIntoNodeArrays n (NewInt w) p"
  shows "index_inv (N(ndPageID n' \<mapsto> n')) cnt root ls seps"
    and "tree_entries (N(ndPageID n' \<mapsto> n')) ls = insert_entry (sint w) p (tree_entries N ls)"
proof -
  let ?c = "upTo (sint w) seps"
  note K = insert_keys [OF leaf, of w p, folded n'_def]
  have c: "?c < length ls" by (rule upTo_child [OF ix])
  have id: "ndPageID n' = ls ! ?c" by (rule K)
  have "leaf_ok (N(ls ! ?c \<mapsto> n')) ls seps ?c n'"
    using leaf K room insert_bounds [OF leaf] unfolding leaf_ok_def by simp
  from index_inv_replace [OF ix c this] show "index_inv (N(ndPageID n' \<mapsto> n')) cnt root ls seps"
    by (simp add: id)
  show "tree_entries (N(ndPageID n' \<mapsto> n')) ls = insert_entry (sint w) p (tree_entries N ls)"
    using tree_entries_insert [OF ix leaf_okD(1) [OF leaf], of "N(ls ! ?c \<mapsto> n')" p] c
      tree_entries_at [of ?c ls "N(ls ! ?c \<mapsto> n')" n'] by (simp add: id K(1))
qed


section \<open>Splitting a leaf\<close>

definition leftHalf :: "bTreeNode \<Rightarrow> nat \<Rightarrow> bTreeNode" where
  "leftHalf n rp = n\<lparr>Keys := take (NumKeys n div 2) (Keys n), Pointers := take (NumKeys n div 2) (Pointers n),
     NumKeys := length (take (NumKeys n div 2) (Keys n)), NextLeaf := int rp\<rparr>"

definition rightHalf :: "bTreeNode \<Rightarrow> nat \<Rightarrow> bTreeNode" where
  "rightHalf n rp = (NewLeafNode rp)\<lparr>
     Keys := drop (NumKeys n div 2) (Keys n), Pointers := drop (NumKeys n div 2) (Pointers n),
     NumKeys := length (drop (NumKeys n div 2) (Keys n)), NextLeaf := NextLeaf n\<rparr>"

lemma half_sel [simp]:
  "NodeType (leftHalf n rp) = NodeType n" "ndPageID (leftHalf n rp) = ndPageID n" "NextLeaf (leftHalf n rp) = int rp"
  "NodeType (rightHalf n rp) = NodeTypeLeaf" "ndPageID (rightHalf n rp) = rp" "NextLeaf (rightHalf n rp) = NextLeaf n"
  by (simp_all add: leftHalf_def rightHalf_def NewLeafNode_def)

text \<open>The split point of an overflowing leaf, and that it does not cut a run of equal keys.\<close>

definition splitKey :: "bTreeNode \<Rightarrow> val" where
  "splitKey n = Keys n ! (NumKeys n div 2)"

definition clean_split :: "bTreeNode \<Rightarrow> bool" where
  "clean_split n \<longleftrightarrow> key_of (Keys n ! (NumKeys n div 2 - 1)) < key_of (splitKey n)"

lemma halves:
  assumes len: "length (Keys n) = MaxKeys" "length (Pointers n) = MaxKeys" "NumKeys n = MaxKeys"
    and ty: "NodeType n = NodeTypeLeaf" and iv: "int_vals (Keys n)"
    and nx: "-1 \<le> NextLeaf n" "NextLeaf n < 2 ^ 31" and rp: "rp < 2 ^ 31"
  shows "wf_node (leftHalf n rp)" and "wf_node (rightHalf n rp)"
    and "NumKeys (leftHalf n rp) = 125" and "NumKeys (rightHalf n rp) = 125"
    and "leaf_entries (leftHalf n rp) @ leaf_entries (rightHalf n rp) = leaf_entries n"
    and "Keys (leftHalf n rp) = take 125 (Keys n)" and "Keys (rightHalf n rp) = drop 125 (Keys n)"
    and "splitKey n = hd (Keys (rightHalf n rp))"
proof -
  have h: "NumKeys n div 2 = 125" by (simp add: len MaxKeys_def)
  show "wf_node (leftHalf n rp)" "wf_node (rightHalf n rp)"
    using assms by (auto simp: wf_node_def leftHalf_def rightHalf_def h MaxKeys_def NewLeafNode_def int_vals_def
        dest: in_set_takeD in_set_dropD)
  show "NumKeys (leftHalf n rp) = 125" "NumKeys (rightHalf n rp) = 125"
    "Keys (leftHalf n rp) = take 125 (Keys n)" "Keys (rightHalf n rp) = drop 125 (Keys n)"
    using len by (simp_all add: leftHalf_def rightHalf_def h MaxKeys_def)
  show "leaf_entries (leftHalf n rp) @ leaf_entries (rightHalf n rp) = leaf_entries n"
    by (simp add: leaf_entries_def leftHalf_def rightHalf_def h flip: take_map drop_map take_zip drop_zip)
  show "splitKey n = hd (Keys (rightHalf n rp))"
    using len by (simp add: splitKey_def rightHalf_def h hd_drop_conv_nth MaxKeys_def)
qed

lemma sorted_half_bounds:
  assumes "sorted (map key_of ks)" and "m < length ks" and "0 < m" and "key_of (ks ! (m - 1)) < key_of (ks ! m)"
  shows "k \<in> key_of ` set (take m ks) \<Longrightarrow> k < key_of (ks ! m)"
    and "k \<in> key_of ` set (drop m ks) \<Longrightarrow> key_of (ks ! m) \<le> k"
proof -
  { assume "k \<in> key_of ` set (take m ks)"
    then obtain i where i: "i < m" "k = key_of (ks ! i)" using assms(2) by (auto simp: in_set_conv_nth)
    then have "k \<le> key_of (ks ! (m - 1))"
      using sorted_nth_mono [OF assms(1), of i "m - 1"] assms(2) by simp
    with assms(4) show "k < key_of (ks ! m)" by simp }
  { assume "k \<in> key_of ` set (drop m ks)"
    then obtain i where "m + i < length ks" "k = key_of (ks ! (m + i))"
      by (auto simp: in_set_conv_nth) (metis add.commute less_diff_conv)
    then show "key_of (ks ! m) \<le> k" using sorted_nth_mono [OF assms(1), of m "m + i"] by simp }
qed

lemma split_leaves:
  fixes w p :: "64 word"
  assumes ix: "index_inv N cnt root ls seps" and leaf: "leaf_ok N ls seps (upTo (sint w) seps) n"
    and rp: "cnt \<le> rp" "rp < 2 ^ 31"
  defines "n' \<equiv> insertIntoNodeArrays n (NewInt w) p" and "c \<equiv> upTo (sint w) seps"
  assumes full: "NumKeys n' = MaxKeys" and clean: "clean_split n'"
    and N': "N' (ls ! c) = Some (leftHalf n' rp)" "N' rp = Some (rightHalf n' rp)"
      "\<And>l. l \<in> set ls \<Longrightarrow> l \<noteq> ls ! c \<Longrightarrow> N' l = N l"
  defines "up \<equiv> key_of (splitKey n')"
  defines "ls' \<equiv> insert_at (Suc c) rp ls" and "seps' \<equiv> insert_at c up seps"
  shows "c \<le> length seps" and "0 < c \<Longrightarrow> seps ! (c - 1) < up" and "c < length seps \<Longrightarrow> up < seps ! c"
    and "i < length ls' \<Longrightarrow> \<exists>m. leaf_ok N' ls' seps' i m"
    and "tree_entries N' ls' = insert_entry (sint w) p (tree_entries N ls)"
proof -
  note K = insert_keys [OF leaf, of w p, folded n'_def c_def]
  note D = leaf_okD [OF leaf, folded c_def]
  have lens: "length (Keys n') = MaxKeys" "length (Pointers n') = MaxKeys" using K full by simp_all
  have nx: "-1 \<le> NextLeaf n'" "NextLeaf n' < 2 ^ 31" using D(2) K by (simp_all add: wf_node_def)
  note H = halves [OF lens full K(5,11) nx rp(2)]
  note B = insert_bounds [OF leaf, folded K(3) c_def]
  have c: "c < length ls" unfolding c_def by (rule upTo_child [OF ix])
  show cs: "c \<le> length seps" unfolding c_def by (rule upTo_le)
  have up: "up = key_of (Keys n' ! 125)" "key_of (Keys n' ! 124) < up"
    using clean full by (simp_all add: up_def clean_split_def splitKey_def MaxKeys_def)
  have m: "125 < length (Keys n')" by (simp add: lens MaxKeys_def)
  have kin: "key_of (Keys n' ! 124) \<in> key_of ` set (Keys n')" "up \<in> key_of ` set (Keys n')"
    using m by (auto simp: up(1))
  show lo: "0 < c \<Longrightarrow> seps ! (c - 1) < up" using B(1) [OF kin(1)] up(2) by simp
  show hi: "c < length seps \<Longrightarrow> up < seps ! c" using B(2) [OF kin(2)] .
  note S = sorted_half_bounds [OF K(2) m, simplified, folded up(1), OF up(2)]
  have left: "leaf_ok N' ls' seps' c (leftHalf n' rp)"
  proof -
    have "ls' ! c = ls ! c" "Suc c < length ls'" "ls' ! Suc c = rp"
      "0 < c \<Longrightarrow> seps' ! (c - 1) = seps ! (c - 1)" "seps' ! c = up"
      using c cs by (simp_all add: ls'_def seps'_def nth_insert_at)
    moreover have "k \<in> key_of ` set (Keys n')" if "k \<in> key_of ` set (take 125 (Keys n'))" for k
      using that by (auto dest: in_set_takeD)
    ultimately show ?thesis unfolding leaf_ok_def
      using N'(1) H K S(1) B(1) by (simp add: sorted_wrt_take MaxKeys_def flip: take_map)
  qed
  have right: "leaf_ok N' ls' seps' (Suc c) (rightHalf n' rp)"
  proof -
    have "NextLeaf n' = (if Suc c < length ls then int (ls ! Suc c) else -1)"
      using leaf K(8) by (simp add: leaf_ok_def c_def)
    moreover have "ls' ! Suc c = rp" "Suc (Suc c) < length ls' \<longleftrightarrow> Suc c < length ls"
      "Suc c < length ls \<Longrightarrow> ls' ! Suc (Suc c) = ls ! Suc c" "seps' ! c = up"
      "Suc c < length seps' \<longleftrightarrow> c < length seps" "seps' ! Suc c = seps ! c"
      using c cs by (simp_all add: ls'_def seps'_def nth_insert_at)
    moreover have "k \<in> key_of ` set (Keys n')" if "k \<in> key_of ` set (drop 125 (Keys n'))" for k
      using that by (auto dest: in_set_dropD)
    ultimately show ?thesis unfolding leaf_ok_def
      using N'(2) H K S(2) B(2) by (simp add: sorted_wrt_drop MaxKeys_def flip: drop_map)
  qed
  have keep: "N' (ls ! j) = N (ls ! j)" if "j < length ls" "j \<noteq> c" for j
    using that N'(3) [of "ls ! j"] index_invD(2) [OF ix] c by (simp add: nth_eq_iff_index_eq)
  show "i < length ls' \<Longrightarrow> \<exists>m. leaf_ok N' ls' seps' i m"
  proof -
    assume i: "i < length ls'"
    have l: "length ls = Suc (length seps)" by (rule index_invD(1) [OF ix])
    consider "i < c" | "i = c" | "i = Suc c" | "Suc c < i" by linarith
    then show ?thesis
    proof cases
      case 1
      with c index_inv_leaf [OF ix, of i] obtain m where m: "leaf_ok N ls seps i m" by auto
      have "leaf_ok N' ls' seps' i m"
        by (rule leaf_ok_cong [OF m]) (use 1 c cs l keep [of i] in \<open>auto simp: ls'_def seps'_def nth_insert_at\<close>)
      then show ?thesis ..
    next
      case 4
      then obtain j where j: "i = Suc j" "c < j" by (cases i) auto
      then have jl: "j < length ls" using i by (simp add: ls'_def)
      from index_inv_leaf [OF ix jl] obtain m where m: "leaf_ok N ls seps j m" ..
      have "leaf_ok N' ls' seps' i m"
        by (rule leaf_ok_cong [OF m]) (use j jl c cs l keep [of j] in \<open>auto simp: ls'_def seps'_def nth_insert_at\<close>)
      then show ?thesis ..
    qed (use left right in blast)+
  qed
  have "ls' = take c ls @ [ls ! c, rp] @ drop (Suc c) ls"
    using c by (simp add: ls'_def insert_at_def take_Suc_conv_app_nth)
  then have "tree_entries N' ls' = tree_entries N' (take c ls) @ leaf_entries n' @ tree_entries N' (drop (Suc c) ls)"
    using N'(1,2) H(5) by (simp add: tree_entries_append) (simp add: tree_entries_def)
  also have "\<dots> = insert_entry (sint w) p (tree_entries N ls)"
    unfolding K(1) c_def by (rule tree_entries_insert [OF ix leaf_okD(1) [OF leaf]]) (use N'(3) in \<open>simp add: c_def\<close>)
  finally show "tree_entries N' ls' = insert_entry (sint w) p (tree_entries N ls)" .
qed


definition overflowing :: "bTreeNode \<Rightarrow> bool" where
  "overflowing n \<longleftrightarrow> length (Keys n) = MaxKeys \<and> length (Pointers n) = MaxKeys \<and> NumKeys n = MaxKeys \<and>
     NodeType n = NodeTypeLeaf \<and> int_vals (Keys n) \<and> -1 \<le> NextLeaf n \<and> NextLeaf n < 2 ^ 31"

lemma splitLeafNode_ok:
  assumes inv: "pool_inv hf" and n: "overflowing n" and id: "ndPageID n < pageCount hf"
    and cnt: "pageCount hf < 2 ^ 31"
  obtains hf' where "splitLeafNode hf n = (hf', Inr (splitKey n, pageCount hf))" and "pool_inv hf'"
    and "node_at hf' = (node_at hf)(ndPageID n \<mapsto> leftHalf n (pageCount hf),
        pageCount hf \<mapsto> rightHalf n (pageCount hf))"
    and "pageCount hf' = Suc (pageCount hf)"
    and "\<And>j. j \<noteq> ndPageID n \<Longrightarrow> j \<noteq> pageCount hf \<Longrightarrow> pageAt hf' j = pageAt hf j"
proof -
  let ?rp = "pageCount hf"
  from n cnt have wf: "wf_node (leftHalf n ?rp)" "wf_node (rightHalf n ?rp)"
    and sk: "splitKey n = hd (Keys (rightHalf n ?rp))" "NumKeys (rightHalf n ?rp) = 125"
    using halves [of n ?rp] by (simp_all add: overflowing_def)
  from sk(2) have ne: "Keys (rightHalf n ?rp) \<noteq> []" by (auto simp: rightHalf_def)
  from allocateIndexPage_ok [OF inv] obtain h0 where h0: "allocateIndexPage hf = (h0, ?rp)" "pool_inv h0"
    "pageAt h0 = pageAt hf" "node_at h0 = node_at hf" "pageCount h0 = Suc ?rp" .
  have "ndPageID (leftHalf n ?rp) < pageCount h0" using id h0(5) by simp
  from writeNode_ok [OF h0(2) wf(1) this] obtain h1 where h1: "writeNode h0 (leftHalf n ?rp) = (h1, Inr ())"
    "pool_inv h1" "node_at h1 = (node_at h0)(ndPageID n \<mapsto> leftHalf n ?rp)" "pageCount h1 = Suc ?rp"
    "\<And>j. j \<noteq> ndPageID n \<Longrightarrow> pageAt h1 j = pageAt h0 j"
    using h0(5) by (metis half_sel(2))
  have "ndPageID (rightHalf n ?rp) < pageCount h1" using h1(4) by simp
  from writeNode_ok [OF h1(2) wf(2) this] obtain h2 where h2: "writeNode h1 (rightHalf n ?rp) = (h2, Inr ())"
    "pool_inv h2" "node_at h2 = (node_at h1)(?rp \<mapsto> rightHalf n ?rp)" "pageCount h2 = Suc ?rp"
    "\<And>j. j \<noteq> ?rp \<Longrightarrow> pageAt h2 j = pageAt h1 j"
    using h1(4) by (metis half_sel(5))
  have "splitLeafNode hf n = (h2, Inr (splitKey n, ?rp))"
    unfolding splitLeafNode_def h0(1) Let_def prod.case leftHalf_def [symmetric] rightHalf_def [symmetric]
    using h1(1) h2(1) ne sk(1) by (simp split: list.splits)
  with h0 h1 h2 show thesis by (intro that [of h2]) simp_all
qed


section \<open>Insertion into a tree\<close>

lemma index_inv_split:
  fixes w p :: "64 word"
  assumes ix: "index_inv N cnt root ls seps" and leaf: "leaf_ok N ls seps (upTo (sint w) seps) n"
    and rp: "cnt \<le> rp" "rp < cnt'" and cnt': "cnt' < 2 ^ 31"
  defines "n' \<equiv> insertIntoNodeArrays n (NewInt w) p" and "c \<equiv> upTo (sint w) seps"
  assumes full: "NumKeys n' = MaxKeys" and clean: "clean_split n'"
    and N': "N' (ls ! c) = Some (leftHalf n' rp)" "N' rp = Some (rightHalf n' rp)"
      "\<And>l. l \<in> set ls \<Longrightarrow> l \<noteq> ls ! c \<Longrightarrow> N' l = N l"
  defines "ls' \<equiv> insert_at (Suc c) rp ls" and "seps' \<equiv> insert_at c (key_of (splitKey n')) seps"
  assumes root': "root' < cnt'" "root' \<notin> set ls'" "root_ok N' root' ls' seps' r"
  shows "index_inv N' cnt' root' ls' seps'"
    and "tree_entries N' ls' = insert_entry (sint w) p (tree_entries N ls)"
proof -
  have rp2: "rp < 2 ^ 31" using rp cnt' by simp
  note S = split_leaves [OF ix leaf rp(1) rp2, of p N', folded n'_def c_def, OF full clean N', folded ls'_def seps'_def]
  note D = index_invD [OF ix]
  have fresh: "rp \<notin> set ls" using D(3) rp(1) by (meson not_le)
  have "sorted_wrt (<) seps'" unfolding seps'_def by (rule strict_sorted_insert_at [OF D(6) S(1-3)])
  moreover have "\<forall>l \<in> set ls'. l < cnt'" using D(3) rp by (fastforce simp: ls'_def)
  moreover have "distinct ls'" using D(2) fresh by (simp add: ls'_def distinct_insert_at)
  moreover have "length ls' = Suc (length seps')" "seps' \<noteq> []"
    using D(1) by (simp_all add: ls'_def seps'_def insert_at_def)
  moreover have "\<forall>i < length ls'. \<exists>m. leaf_ok N' ls' seps' i m" using S(4) by blast
  ultimately show "index_inv N' cnt' root' ls' seps'" using root' cnt' unfolding index_inv_def by blast
  show "tree_entries N' ls' = insert_entry (sint w) p (tree_entries N ls)" by (rule S(5))
qed

definition newRootNode :: "nat \<Rightarrow> nat \<Rightarrow> nat \<Rightarrow> val \<Rightarrow> bTreeNode" where
  "newRootNode i l r up =
     (NewInternalNode i)\<lparr>Keys := [up], Pointers := [word_of_nat l, word_of_nat r], NumKeys := 1\<rparr>"

lemma createNewRoot_node_ok:
  assumes inv: "pool_inv hf" and up: "up = NewInt (vInt up)"
  defines "i \<equiv> pageCount hf"
  obtains hf' where "createNewRoot_node hf l r up = (hf', Inr i)" and "pool_inv hf'"
    and "node_at hf' = (node_at hf)(i \<mapsto> newRootNode i l r up)" and "pageCount hf' = Suc i"
    and "\<And>j. j \<noteq> i \<Longrightarrow> pageAt hf' j = pageAt hf j"
proof -
  from allocateIndexPage_ok [OF inv] obtain h0 where h0: "allocateIndexPage hf = (h0, i)" "pool_inv h0"
    "pageAt h0 = pageAt hf" "node_at h0 = node_at hf" "pageCount h0 = Suc i" unfolding i_def .
  have wf: "wf_node (newRootNode i l r up)"
    using up by (simp add: wf_node_def newRootNode_def NewInternalNode_def MaxKeys_def int_vals_def)
  have id: "ndPageID (newRootNode i l r up) = i" by (simp add: newRootNode_def NewInternalNode_def)
  then have "ndPageID (newRootNode i l r up) < pageCount h0" using h0(5) by simp
  from writeNode_ok [OF h0(2) wf this] obtain h1 where h1: "writeNode h0 (newRootNode i l r up) = (h1, Inr ())"
    "pool_inv h1" "node_at h1 = (node_at h0)(i \<mapsto> newRootNode i l r up)" "pageCount h1 = Suc i"
    "\<And>j. j \<noteq> i \<Longrightarrow> pageAt h1 j = pageAt h0 j"
    using h0(5) by (metis id)
  have "createNewRoot_node hf l r up = (h1, Inr i)"
    unfolding createNewRoot_node_def h0(1) Let_def prod.case newRootNode_def [symmetric] using h1(1) by simp
  with h0 h1 show thesis by (intro that [of h1]) simp_all
qed

lemma insertIntoNodeArrays_root:
  assumes r: "root_ok N root ls seps r" and len: "length ls = Suc (length seps)" and srt: "sorted seps"
    and c: "c \<le> length seps" and lo: "0 < c \<Longrightarrow> seps ! (c - 1) < key_of up" and hi: "c < length seps \<Longrightarrow> key_of up < seps ! c"
    and up: "up = NewInt (vInt up)" and room: "Suc (length seps) < MaxKeys"
    and N': "N' root = Some (insertIntoNodeArrays r up (word_of_nat rp))"
  shows "root_ok N' root (insert_at (Suc c) rp ls) (insert_at c (key_of up) seps)
      (insertIntoNodeArrays r up (word_of_nat rp))"
    and "NumKeys (insertIntoNodeArrays r up (word_of_nat rp)) = Suc (length seps)"
    and "wf_node (insertIntoNodeArrays r up (word_of_nat rp))"
    and "ndPageID (insertIntoNodeArrays r up (word_of_nat rp)) = root"
proof -
  from r have R: "NodeType r = NodeTypeInternal" "wf_node r" "ndPageID r = root" "map key_of (Keys r) = seps"
    "Pointers r = map word_of_nat ls" by (simp_all add: root_ok_def)
  then have K: "length (Keys r) = NumKeys r" "int_vals (Keys r)" "NumKeys r = length seps"
    by (auto simp: wf_node_def)
  have "upTo (key_of up) seps = c" by (rule upTo_eqI [OF srt c]) (use lo hi in \<open>auto intro: less_imp_le\<close>)
  then have "firstGreater up (Keys r) = c"
    using firstGreater_upTo [OF K(2), of "vInt up"] R(4) up by (simp add: key_of_def)
  then have eq: "insertIntoNodeArrays r up (word_of_nat rp) =
      r\<lparr>Keys := insert_at c up (Keys r), Pointers := insert_at (Suc c) (word_of_nat rp) (Pointers r),
        NumKeys := Suc (NumKeys r)\<rparr>"
    by (simp add: insertIntoNodeArrays_def Let_def R(1) K(1) insert_at_def)
  show "NumKeys (insertIntoNodeArrays r up (word_of_nat rp)) = Suc (length seps)"
    "ndPageID (insertIntoNodeArrays r up (word_of_nat rp)) = root" by (simp_all add: eq K R)
  show wf: "wf_node (insertIntoNodeArrays r up (word_of_nat rp))"
    using R(1,2) K room up len R(5) by (auto simp: eq wf_node_def int_vals_def)
  show "root_ok N' root (insert_at (Suc c) rp ls) (insert_at c (key_of up) seps)
      (insertIntoNodeArrays r up (word_of_nat rp))"
    using wf N' R K room by (simp add: root_ok_def eq map_insert_at)
qed


text \<open>The cases of an insertion: room in the leaf, a split below the root, a split of the root.\<close>

lemma splitKey_val: "overflowing n \<Longrightarrow> splitKey n = NewInt (vInt (splitKey n))"
  by (auto simp: overflowing_def splitKey_def int_vals_def MaxKeys_def)

lemma insert_overflowing:
  assumes "leaf_ok N ls seps i n" and "Suc (NumKeys n) = MaxKeys"
  shows "overflowing (insertIntoNodeArrays n (NewInt w) p)"
  using insert_keys [OF assms(1), of w p] assms leaf_okD(2) [OF assms(1)] by (simp add: overflowing_def wf_node_def)


lemma insertIntoTree_room:
  assumes inv: "pool_inv hf" and ix: "index_inv (node_at hf) (pageCount hf) root ls seps"
    and leaf: "leaf_ok (node_at hf) ls seps (upTo (sint w) seps) n" and room: "Suc (NumKeys n) < MaxKeys"
  obtains hf' where "insertIntoTree hf root (NewInt w) p = (hf', Inr None)" and "pool_inv hf'"
    and "index_inv (node_at hf') (pageCount hf') root ls seps"
    and "tree_entries (node_at hf') ls = insert_entry (sint w) p (tree_entries (node_at hf) ls)"
    and "pageCount hf' = pageCount hf" and "\<And>j. j \<notin> tree_pages root ls \<Longrightarrow> pageAt hf' j = pageAt hf j"
proof -
  let ?c = "upTo (sint w) seps" and ?n = "insertIntoNodeArrays n (NewInt w) p"
  from findLeaf_ok [OF inv ix leaf] obtain h1 where
    h1: "findLeafWithPath hf (int root) (NewInt w) = (h1, Inr (n, if seps = [] then [] else [int root]))"
    "same_view hf h1" by metis
  note V = same_viewD [OF h1(2)]
  note K = insert_keys [OF leaf, of w p]
  have c: "?c < length ls" by (rule upTo_child [OF ix])
  have "ndPageID ?n < pageCount h1" using K(6) index_invD(3) [OF ix nth_mem [OF c]] V(3) by simp
  from writeNode_ok [OF V(1) K(4) this] obtain h2 where h2: "writeNode h1 ?n = (h2, Inr ())" "pool_inv h2"
    "node_at h2 = (node_at h1)(ndPageID ?n \<mapsto> ?n)" "pageCount h2 = pageCount h1"
    "\<And>j. j \<noteq> ndPageID ?n \<Longrightarrow> pageAt h2 j = pageAt h1 j" by blast
  note N = insert_no_split [OF ix leaf room, of p]
  show thesis
  proof (rule that [of h2])
    show "insertIntoTree hf root (NewInt w) p = (h2, Inr None)"
      using h1(1) h2(1) K(7) room by (simp add: insertIntoTree_def Let_def)
    show "pageAt h2 j = pageAt hf j" if "j \<notin> tree_pages root ls" for j
      using that h2(5) [of j] V(2) K(6) nth_mem [OF c] by (auto simp: tree_pages_def)
  qed (use N h2 V in simp_all)
qed


lemma insertIntoTree_split_root:
  assumes inv: "pool_inv hf" and ix: "index_inv (node_at hf) (pageCount hf) root ls []"
    and leaf: "leaf_ok (node_at hf) ls [] 0 n" and full: "Suc (NumKeys n) = MaxKeys"
    and clean: "clean_split (insertIntoNodeArrays n (NewInt w) p)" and cnt: "Suc (Suc (pageCount hf)) < 2 ^ 31"
  obtains hf' root' seps' where "insertIntoTree hf root (NewInt w) p = (hf', Inr (Some root'))" and "pool_inv hf'"
    and "index_inv (node_at hf') (pageCount hf') root' [root, pageCount hf] seps'"
    and "tree_entries (node_at hf') [root, pageCount hf] = insert_entry (sint w) p (tree_entries (node_at hf) ls)"
    and "pageCount hf' = Suc (Suc (pageCount hf))" and "root' = Suc (pageCount hf)"
    and "\<And>j. j < pageCount hf \<Longrightarrow> j \<notin> tree_pages root ls \<Longrightarrow> pageAt hf' j = pageAt hf j"
proof -
  let ?n = "insertIntoNodeArrays n (NewInt w) p" and ?rp = "pageCount hf"
  have ls: "ls = [root]" using index_inv_single [OF ix] .
  have root: "root < ?rp" using index_invD(4) [OF ix] .
  have u0: "upTo (sint w) [] = 0" by (simp add: upTo_def)
  from findLeaf_ok [OF inv ix, of w n] leaf obtain h1 where
    h1: "findLeafWithPath hf (int root) (NewInt w) = (h1, Inr (n, []))" "same_view hf h1" by (auto simp: u0)
  note V = same_viewD [OF h1(2)]
  have O: "overflowing ?n" by (rule insert_overflowing [OF leaf full])
  have id: "ndPageID ?n = root" using insert_keys(6) [OF leaf] by (simp add: ls)
  have "ndPageID ?n < pageCount h1" "pageCount h1 < 2 ^ 31" using id root V(3) cnt by simp_all
  from splitLeafNode_ok [OF V(1) O this] obtain h2 where h2: "splitLeafNode h1 ?n = (h2, Inr (splitKey ?n, ?rp))"
    "pool_inv h2" "node_at h2 = (node_at hf)(root \<mapsto> leftHalf ?n ?rp, ?rp \<mapsto> rightHalf ?n ?rp)"
    "pageCount h2 = Suc ?rp" "\<And>j. j \<noteq> root \<Longrightarrow> j \<noteq> ?rp \<Longrightarrow> pageAt h2 j = pageAt hf j"
    unfolding id V(2-4) by blast
  from createNewRoot_node_ok [OF h2(2) splitKey_val [OF O], of root ?rp] obtain h3 where
    h3: "createNewRoot_node h2 root ?rp (splitKey ?n) = (h3, Inr (Suc ?rp))" "pool_inv h3"
    "node_at h3 = (node_at h2)(Suc ?rp \<mapsto> newRootNode (Suc ?rp) root ?rp (splitKey ?n))" "pageCount h3 = Suc (Suc ?rp)"
    "\<And>j. j \<noteq> Suc ?rp \<Longrightarrow> pageAt h3 j = pageAt h2 j" unfolding h2(4) by blast
  have ty: "NodeType ?n = NodeTypeLeaf" "NumKeys ?n = MaxKeys" using O by (simp_all add: overflowing_def)
  have run: "insertIntoTree hf root (NewInt w) p = (h3, Inr (Some (Suc ?rp)))"
    using h1(1) h2(1) h3(1) ty id by (simp add: insertIntoTree_def Let_def handleSplitCascade_loop.simps)
  have r: "root_ok (node_at h3) (Suc ?rp) [root, ?rp] [key_of (splitKey ?n)] (newRootNode (Suc ?rp) root ?rp (splitKey ?n))"
    using h3(3) splitKey_val [OF O]
    by (simp add: root_ok_def newRootNode_def NewInternalNode_def wf_node_def MaxKeys_def int_vals_def)
  have at: "insert_at (Suc 0) ?rp ls = [root, ?rp]" "insert_at 0 (key_of (splitKey ?n)) [] = [key_of (splitKey ?n)]"
    by (simp_all add: insert_at_def ls)
  note S = index_inv_split [OF ix leaf [folded u0], of ?rp "Suc (Suc ?rp)" p "node_at h3" "Suc ?rp", unfolded u0 at,
      OF _ _ cnt ty(2) clean _ _ _ _ _ r]
  show thesis
  proof (rule that [of h3 "Suc ?rp" "[key_of (splitKey ?n)]"])
    show "index_inv (node_at h3) (pageCount h3) (Suc ?rp) [root, ?rp] [key_of (splitKey ?n)]"
      unfolding h3(4) by (rule S(1)) (use root h2(3) h3(3) ls in auto)
    show "tree_entries (node_at h3) [root, ?rp] = insert_entry (sint w) p (tree_entries (node_at hf) ls)"
      by (rule S(2)) (use root h2(3) h3(3) ls in auto)
    show "pageAt h3 j = pageAt hf j" if "j < ?rp" "j \<notin> tree_pages root ls" for j
      using that h2(5) [of j] h3(5) [of j] by (auto simp: tree_pages_def)
  qed (use run h3 in simp_all)
qed

lemma insertIntoTree_split_leaf:
  assumes inv: "pool_inv hf" and ix: "index_inv (node_at hf) (pageCount hf) root ls seps" and ne: "seps \<noteq> []"
    and leaf: "leaf_ok (node_at hf) ls seps (upTo (sint w) seps) n" and full: "Suc (NumKeys n) = MaxKeys"
    and clean: "clean_split (insertIntoNodeArrays n (NewInt w) p)" and cnt: "Suc (pageCount hf) < 2 ^ 31"
    and room: "Suc (length seps) < MaxKeys"
  obtains hf' ls' seps' where "insertIntoTree hf root (NewInt w) p = (hf', Inr None)" and "pool_inv hf'"
    and "index_inv (node_at hf') (pageCount hf') root ls' seps'"
    and "tree_entries (node_at hf') ls' = insert_entry (sint w) p (tree_entries (node_at hf) ls)"
    and "pageCount hf' = Suc (pageCount hf)" and "set ls' = insert (pageCount hf) (set ls)"
    and "\<And>j. j < pageCount hf \<Longrightarrow> j \<notin> tree_pages root ls \<Longrightarrow> pageAt hf' j = pageAt hf j"
proof -
  let ?n = "insertIntoNodeArrays n (NewInt w) p" and ?rp = "pageCount hf" and ?c = "upTo (sint w) seps"
  note D = index_invD [OF ix]
  have c: "?c < length ls" by (rule upTo_child [OF ix])
  from index_inv_root(2) [OF ix ne] obtain r where r: "root_ok (node_at hf) root ls seps r" ..
  note rn = index_inv_root(1) [OF ix ne]
  from findLeaf_ok [OF inv ix leaf] ne obtain h1 where
    h1: "findLeafWithPath hf (int root) (NewInt w) = (h1, Inr (n, [int root]))" "same_view hf h1" by auto
  note V = same_viewD [OF h1(2)]
  have O: "overflowing ?n" by (rule insert_overflowing [OF leaf full])
  have ty: "NodeType ?n = NodeTypeLeaf" "NumKeys ?n = MaxKeys" using O by (simp_all add: overflowing_def)
  have id: "ndPageID ?n = ls ! ?c" using insert_keys(6) [OF leaf] .
  have lc: "ls ! ?c < ?rp" "ls ! ?c \<noteq> root" using D(3) nth_mem [OF c] rn by auto
  have "ndPageID ?n < pageCount h1" "pageCount h1 < 2 ^ 31" using id lc V(3) cnt by simp_all
  from splitLeafNode_ok [OF V(1) O this] obtain h2 where h2: "splitLeafNode h1 ?n = (h2, Inr (splitKey ?n, ?rp))"
    "pool_inv h2" "node_at h2 = (node_at hf)(ls ! ?c \<mapsto> leftHalf ?n ?rp, ?rp \<mapsto> rightHalf ?n ?rp)"
    "pageCount h2 = Suc ?rp" "\<And>j. j \<noteq> ls ! ?c \<Longrightarrow> j \<noteq> ?rp \<Longrightarrow> pageAt h2 j = pageAt hf j"
    unfolding id V(2-4) by blast
  have "node_at h2 root = Some r" using h2(3) lc D(4) r by (auto simp: root_ok_def)
  from fetchNode_ok [OF h2(2) this] obtain h3 where h3: "fetchNode h2 (int root) = (h3, Inr r)" "same_view h2 h3" .
  note V3 = same_viewD [OF h3(2)]
  let ?r = "insertIntoNodeArrays r (splitKey ?n) (word_of_nat ?rp)"
  have N2: "node_at h2 (ls ! ?c) = Some (leftHalf ?n ?rp)" "node_at h2 ?rp = Some (rightHalf ?n ?rp)"
    "\<And>l. l \<in> set ls \<Longrightarrow> l \<noteq> ls ! ?c \<Longrightarrow> node_at h2 l = node_at hf l"
    using h2(3) lc D(3) by auto
  have B: "?c \<le> length seps" "0 < ?c \<Longrightarrow> seps ! (?c - 1) < key_of (splitKey ?n)"
    "?c < length seps \<Longrightarrow> key_of (splitKey ?n) < seps ! ?c"
    using split_leaves(1-3) [OF ix leaf _ _ ty(2) clean N2] cnt by simp_all
  note R = insertIntoNodeArrays_root [OF r D(1,7) B splitKey_val [OF O] room, of _ ?rp]
  have "wf_node ?r" "ndPageID ?r = root" "NumKeys ?r = Suc (length seps)"
    using R(2-4) [of "[root \<mapsto> ?r]"] by simp_all
  moreover have "root < pageCount h3" using D(4) V3(3) h2(4) by simp
  ultimately obtain h4 where h4: "writeNode h3 ?r = (h4, Inr ())" "pool_inv h4"
    "node_at h4 = (node_at h2)(root \<mapsto> ?r)" "pageCount h4 = Suc ?rp" "\<And>j. j \<noteq> root \<Longrightarrow> pageAt h4 j = pageAt h2 j"
    using writeNode_ok [OF V3(1), of ?r] V3(2-4) h2(4) by metis
  have run: "insertIntoTree hf root (NewInt w) p = (h4, Inr None)"
    using h1(1) h2(1) h3(1) h4(1) ty \<open>NumKeys ?r = Suc (length seps)\<close> room
    by (simp add: insertIntoTree_def Let_def handleSplitCascade_loop.simps)
  have r': "root_ok (node_at h4) root (insert_at (Suc ?c) ?rp ls) (insert_at ?c (key_of (splitKey ?n)) seps) ?r"
    by (rule R(1)) (simp_all add: h4(3))
  note S = index_inv_split [OF ix leaf, of ?rp "Suc ?rp" p "node_at h4" root, OF _ _ cnt ty(2) clean _ _ _ _ _ r']
  show thesis
  proof (rule that [of h4 "insert_at (Suc ?c) ?rp ls" "insert_at ?c (key_of (splitKey ?n)) seps"])
    show "index_inv (node_at h4) (pageCount h4) root (insert_at (Suc ?c) ?rp ls) (insert_at ?c (key_of (splitKey ?n)) seps)"
      unfolding h4(4) by (rule S(1)) (use lc D(3,4) h2(3) h4(3) rn in auto)
    show "tree_entries (node_at h4) (insert_at (Suc ?c) ?rp ls) = insert_entry (sint w) p (tree_entries (node_at hf) ls)"
      by (rule S(2)) (use lc D(3,4) h2(3) h4(3) rn in auto)
    show "pageAt h4 j = pageAt hf j" if "j < ?rp" "j \<notin> tree_pages root ls" for j
      using that h2(5) [of j] h4(5) [of j] nth_mem [OF c] by (auto simp: tree_pages_def)
  qed (use run h4 in simp_all)
qed


text \<open>With distinct keys a split never cuts a run of equal keys.\<close>

lemma clean_split_distinct:
  assumes ix: "index_inv N cnt root ls seps" and leaf: "leaf_ok N ls seps (upTo (sint w) seps) n"
    and full: "Suc (NumKeys n) = MaxKeys" and d: "distinct (map fst (insert_entry (sint w) p (tree_entries N ls)))"
  shows "clean_split (insertIntoNodeArrays n (NewInt w) p)"
proof -
  let ?n = "insertIntoNodeArrays n (NewInt w) p" and ?c = "upTo (sint w) seps"
  note K = insert_keys [OF leaf, of w p]
  have "insert_entry (sint w) p (tree_entries N ls) = tree_entries N (take ?c ls) @ leaf_entries ?n @
      tree_entries N (drop (Suc ?c) ls)"
    using tree_entries_insert [OF ix leaf_okD(1) [OF leaf], of N p] by (simp add: K(1))
  with d have "distinct (map fst (leaf_entries ?n))" by simp
  then have "distinct (map key_of (Keys ?n))" using map_fst_leaf_entries [of ?n] K(9,10) by simp
  with K(2) have "sorted_wrt (<) (map key_of (Keys ?n))" by (simp add: strict_sorted_iff)
  moreover have "NumKeys ?n = 250" "length (Keys ?n) = 250" using K(7,9) full by (simp_all add: MaxKeys_def)
  ultimately show ?thesis
    using sorted_wrt_nth_less [of "(<)" "map key_of (Keys ?n)" 124 125] by (simp add: clean_split_def splitKey_def)
qed

lemma leaf_exists:
  assumes "index_inv N cnt root ls seps"
  obtains n where "leaf_ok N ls seps (upTo k seps) n"
  using index_inv_leaf [OF assms upTo_child [OF assms]] by blast

lemma insertIntoTree_ok:
  assumes inv: "pool_inv hf" and ix: "index_inv (node_at hf) (pageCount hf) root ls seps"
    and cnt: "pageCount hf + 2 < 2 ^ 31" and room: "Suc (length seps) < MaxKeys"
    and clean: "\<And>n. leaf_ok (node_at hf) ls seps (upTo (sint w) seps) n \<Longrightarrow> Suc (NumKeys n) = MaxKeys \<Longrightarrow>
      clean_split (insertIntoNodeArrays n (NewInt w) p)"
  obtains hf' newRoot root' ls' seps' where "insertIntoTree hf root (NewInt w) p = (hf', Inr newRoot)"
    and "root' = (case newRoot of None \<Rightarrow> root | Some r \<Rightarrow> r)" and "pool_inv hf'"
    and "index_inv (node_at hf') (pageCount hf') root' ls' seps'"
    and "tree_entries (node_at hf') ls' = insert_entry (sint w) p (tree_entries (node_at hf) ls)"
    and "pageCount hf \<le> pageCount hf'"
    and "tree_pages root' ls' \<subseteq> tree_pages root ls \<union> {pageCount hf ..< pageCount hf'}"
    and "\<And>j. j < pageCount hf \<Longrightarrow> j \<notin> tree_pages root ls \<Longrightarrow> pageAt hf' j = pageAt hf j"
proof -
  from leaf_exists [OF ix] obtain n where leaf: "leaf_ok (node_at hf) ls seps (upTo (sint w) seps) n" .
  have "NumKeys n < MaxKeys" using leaf_okD(9) [OF leaf] .
  then consider (room) "Suc (NumKeys n) < MaxKeys" | (root) "Suc (NumKeys n) = MaxKeys" "seps = []"
    | (leaf) "Suc (NumKeys n) = MaxKeys" "seps \<noteq> []" by linarith
  then show thesis
  proof cases
    case room
    show thesis by (rule insertIntoTree_room [OF inv ix leaf room, of p]) (erule that, simp, assumption+, auto)
  next
    case root
    have leaf0: "leaf_ok (node_at hf) ls [] 0 n" and ix0: "index_inv (node_at hf) (pageCount hf) root ls []"
      using leaf ix root by (simp_all add: upTo_def)
    have "Suc (Suc (pageCount hf)) < 2 ^ 31" using cnt by simp
    show thesis
      by (rule insertIntoTree_split_root [OF inv ix0 leaf0 root(1) clean [OF leaf root(1)] \<open>Suc (Suc (pageCount hf)) < 2 ^ 31\<close>])
        (erule that, simp, assumption+, auto simp: tree_pages_def root)
  next
    case leaf
    have "Suc (pageCount hf) < 2 ^ 31" using cnt by simp
    show thesis
      by (rule insertIntoTree_split_leaf [OF inv ix leaf(2) \<open>leaf_ok (node_at hf) ls seps (upTo (sint w) seps) n\<close>
            leaf(1) clean [OF \<open>leaf_ok (node_at hf) ls seps (upTo (sint w) seps) n\<close> leaf(1)]
            \<open>Suc (pageCount hf) < 2 ^ 31\<close> assms(4)])
        (erule that, simp, assumption+, auto simp: tree_pages_def)
  qed
qed


lemma index_inv_frame:
  assumes ix: "index_inv N cnt root ls seps" and cnt: "cnt \<le> cnt'" "cnt' < 2 ^ 31"
    and same: "\<And>j. j \<in> tree_pages root ls \<Longrightarrow> N' j = N j"
  shows "index_inv N' cnt' root ls seps" and "tree_entries N' ls = tree_entries N ls"
proof -
  note D = index_invD [OF ix]
  have "\<exists>n. leaf_ok N' ls seps i n" if "i < length ls" for i
    using index_inv_leaf [OF ix that] same [of "ls ! i"] nth_mem [OF that] by (auto simp: leaf_ok_def tree_pages_def)
  moreover have "\<exists>r. root_ok N' root ls seps r" if "seps \<noteq> []"
    using index_inv_root(2) [OF ix that] same [of root] by (auto simp: root_ok_def tree_pages_def)
  moreover have "\<forall>l \<in> set ls. l < cnt'" "root < cnt'" using D(3,4) cnt(1) by fastforce+
  ultimately show "index_inv N' cnt' root ls seps" using ix cnt(2) unfolding index_inv_def by blast
  show "tree_entries N' ls = tree_entries N ls" by (rule tree_entries_other) (use same in \<open>simp add: tree_pages_def\<close>)
qed

lemma sorted_tree_entries:
  assumes ix: "index_inv N cnt root ls seps" shows "sorted (map fst (tree_entries N ls))"
proof -
  note D = index_invD [OF ix]
  have "sorted (map fst (tree_entries N (take m ls))) \<and>
      (\<forall>k \<in> fst ` set (tree_entries N (take m ls)). m \<le> length seps \<longrightarrow> 0 < m \<longrightarrow> k < seps ! (m - 1))"
    if "m \<le> length ls" for m
    using that
  proof (induction m)
    case 0
    then show ?case by (simp add: tree_entries_def)
  next
    case (Suc m)
    then have m: "m < length ls" by simp
    from index_inv_leaf [OF ix m] obtain n where n: "leaf_ok N ls seps m n" ..
    have e: "tree_entries N (take (Suc m) ls) = tree_entries N (take m ls) @ leaf_entries n"
      using leaf_okD(1) [OF n] by (simp add: take_Suc_conv_app_nth [OF m] tree_entries_def)
    have k: "map fst (leaf_entries n) = map key_of (Keys n)" using leaf_okD(4,5) [OF n] by (simp add: map_fst_leaf_entries)
    then have ks: "fst ` set (leaf_entries n) = key_of ` set (Keys n)" by (metis list.set_map)
    have old: "x < seps ! (m - 1)" if "x \<in> fst ` set (tree_entries N (take m ls))" "0 < m" for x
      using Suc that D(1) by auto
    have sep: "0 < m \<Longrightarrow> m < length seps \<Longrightarrow> seps ! (m - 1) \<le> seps ! m"
      by (rule sorted_nth_mono [OF D(7)]) auto
    have "x \<le> y" if "x \<in> fst ` set (tree_entries N (take m ls))" "y \<in> key_of ` set (Keys n)" for x y
    proof (cases "m = 0")
      case True
      with that(1) show ?thesis by (simp add: tree_entries_def)
    next
      case False
      with old [OF that(1)] leaf_ok_bounds(1) [OF n that(2)] show ?thesis by simp
    qed
    then have "sorted (map fst (tree_entries N (take (Suc m) ls)))"
      using Suc leaf_okD(7) [OF n] by (auto simp: e k sorted_append simp flip: ks)
    moreover have "x < seps ! m" if "x \<in> fst ` set (tree_entries N (take (Suc m) ls))" "m < length seps" for x
    proof -
      from that(1) consider "x \<in> fst ` set (tree_entries N (take m ls))" | "x \<in> key_of ` set (Keys n)"
        by (auto simp: e simp flip: ks)
      then show ?thesis
      proof cases
        case 1
        then have "0 < m" by (cases m) (auto simp: tree_entries_def)
        with old [OF 1] sep that(2) show ?thesis by simp
      next
        case 2
        then show ?thesis by (rule leaf_ok_bounds(2) [OF n _ that(2)])
      qed
    qed
    ultimately show ?case by simp
  qed
  from this [of "length ls"] show ?thesis by simp
qed

section \<open>Properties\<close>

text \<open>C18: Nodes on pages.  A well-formed node (keys that are integers, at most \<open>MaxKeys\<close> of them, as many pointers as its
  type asks for) that is written to a page of the file is read back unchanged, by this and by every later
  fetch of the page, and no other page of the index file changes.  Keys of other types are not read
  back: only their integer field is stored.\<close>

theorem writeNode_fetchNode:
  assumes "pool_inv hf" and "wf_node n" and "ndPageID n < pageCount hf"
  shows "\<exists>hf' hf''. writeNode hf n = (hf', Inr ()) \<and> fetchNode hf' (int (ndPageID n)) = (hf'', Inr n) \<and>
    pool_inv hf'' \<and> (\<forall>j. j \<noteq> ndPageID n \<longrightarrow> pageAt hf'' j = pageAt hf j)"
proof -
  from writeNode_ok [OF assms] obtain h1 where h1: "writeNode hf n = (h1, Inr ())" "pool_inv h1"
    "node_at h1 = (node_at hf)(ndPageID n \<mapsto> n)" "\<And>j. j \<noteq> ndPageID n \<Longrightarrow> pageAt h1 j = pageAt hf j" by metis
  from h1(3) have "node_at h1 (ndPageID n) = Some n" by simp
  from fetchNode_ok [OF h1(2) this] obtain h2 where "fetchNode h1 (int (ndPageID n)) = (h2, Inr n)" "same_view h1 h2" .
  with h1 show ?thesis by (auto simp: same_view_def)
qed

text \<open>An index file with one page, which holds an empty leaf.\<close>

definition oneLeafFile :: heapFile where
  "oneLeafFile = fst (writeNode (fst (allocateIndexPage (NewHeapFile [] (NewBufferPool 100 [])))) (NewLeafNode 0))"

lemma wf_NewLeafNode: "wf_node (NewLeafNode i)"
  by (simp add: wf_node_def NewLeafNode_def int_vals_def)

lemma oneLeafFile_ok:
  "pool_inv oneLeafFile" "pageCount oneLeafFile = 1" "node_at oneLeafFile 0 = Some (NewLeafNode 0)"
proof -
  let ?h = "NewHeapFile [] (NewBufferPool 100 [])"
  have inv: "pool_inv ?h" using empty_heap [of 100 "[]"] by (simp add: heap_inv_def)
  have 0: "pageCount ?h = 0" by (simp add: NewHeapFile_def getPageCount_def)
  from allocateIndexPage_ok [OF inv] obtain h1 where h1: "allocateIndexPage ?h = (h1, 0)" "pool_inv h1" "pageCount h1 = 1"
    unfolding 0 by (metis One_nat_def)
  have i: "ndPageID (NewLeafNode 0) = 0" by (simp add: NewLeafNode_def)
  then have "ndPageID (NewLeafNode 0) < pageCount h1" using h1(3) by simp
  from writeNode_ok [OF h1(2) wf_NewLeafNode this] obtain h2 where "writeNode h1 (NewLeafNode 0) = (h2, Inr ())"
    "pool_inv h2" "node_at h2 = (node_at h1)(0 \<mapsto> NewLeafNode 0)" "pageCount h2 = 1"
    unfolding i h1(3) by blast
  then have "oneLeafFile = h2" "pool_inv h2" "node_at h2 0 = Some (NewLeafNode 0)" "pageCount h2 = 1"
    using h1(1) by (simp_all add: oneLeafFile_def)
  then show "pool_inv oneLeafFile" "pageCount oneLeafFile = 1" "node_at oneLeafFile 0 = Some (NewLeafNode 0)" by simp_all
qed

lemma index_inv_leaf0:
  "N i = Some (NewLeafNode i) \<Longrightarrow> i < cnt \<Longrightarrow> cnt < 2 ^ 31 \<Longrightarrow> index_inv N cnt i [i] [] \<and> tree_entries N [i] = []"
  using wf_NewLeafNode [of i]
  by (simp add: index_inv_def leaf_ok_def tree_entries_def leaf_entries_def NewLeafNode_def MaxKeys_def)

theorem writeNode_fetchNode_witness:
  "\<exists>hf' hf''. writeNode oneLeafFile (NewLeafNode 0) = (hf', Inr ()) \<and>
     fetchNode hf' (int (ndPageID (NewLeafNode 0))) = (hf'', Inr (NewLeafNode 0)) \<and>
     pool_inv hf'' \<and> (\<forall>j. j \<noteq> ndPageID (NewLeafNode 0) \<longrightarrow> pageAt hf'' j = pageAt oneLeafFile j)"
proof -
  have "ndPageID (NewLeafNode 0) < pageCount oneLeafFile" by (simp add: oneLeafFile_ok(2)) (simp add: NewLeafNode_def)
  from writeNode_fetchNode [OF oneLeafFile_ok(1) wf_NewLeafNode this] show ?thesis .
qed

text \<open>C4: Insertion into an index.  On a well-formed tree with pairwise different keys and room in
  its root, inserting an entry with a new integer key succeeds.  The entries along the leaves are then
  the old ones with the new entry at its place in key order, the tree is well-formed again below its
  root page (a new one when the root was split), the tree uses pages of its own or new ones only, and
  every other page of the shared index file, hence every other index, is unchanged.\<close>

theorem insertIntoTree_refines_insert:
  assumes "pool_inv hf" and "index_inv (node_at hf) (pageCount hf) root ls seps"
    and "pageCount hf + 2 < 2 ^ 31" and "Suc (length seps) < MaxKeys"
    and "distinct (map fst (tree_entries (node_at hf) ls))" and "sint w \<notin> fst ` set (tree_entries (node_at hf) ls)"
  shows "\<exists>hf' newRoot root' ls' seps'. insertIntoTree hf root (NewInt w) p = (hf', Inr newRoot) \<and>
    root' = (case newRoot of None \<Rightarrow> root | Some r \<Rightarrow> r) \<and> pool_inv hf' \<and>
    index_inv (node_at hf') (pageCount hf') root' ls' seps' \<and>
    tree_entries (node_at hf') ls' = insert_entry (sint w) p (tree_entries (node_at hf) ls) \<and>
    sorted (map fst (tree_entries (node_at hf') ls')) \<and>
    tree_pages root' ls' \<subseteq> tree_pages root ls \<union> {pageCount hf ..< pageCount hf'} \<and>
    (\<forall>j < pageCount hf. j \<notin> tree_pages root ls \<longrightarrow> pageAt hf' j = pageAt hf j)"
proof -
  have "distinct (map fst (insert_entry (sint w) p (tree_entries (node_at hf) ls)))"
  proof -
    let ?es = "map fst (tree_entries (node_at hf) ls)"
    have "distinct (takeWhile (\<lambda>x. x \<le> sint w) ?es @ dropWhile (\<lambda>x. x \<le> sint w) ?es)" using assms(5) by simp
    moreover have "sint w \<notin> set ?es" using assms(6) by simp
    ultimately show ?thesis unfolding map_fst_insert_entry
      by (auto simp del: takeWhile_dropWhile_id dest: set_takeWhileD set_dropWhileD)
  qed
  note clean = clean_split_distinct [OF assms(2) _ _ this]
  from insertIntoTree_ok [OF assms(1-4), of w p, OF clean] obtain hf' newRoot root' ls' seps' where
    R: "insertIntoTree hf root (NewInt w) p = (hf', Inr newRoot)" "root' = (case newRoot of None \<Rightarrow> root | Some r \<Rightarrow> r)"
    "pool_inv hf'" "index_inv (node_at hf') (pageCount hf') root' ls' seps'"
    "tree_entries (node_at hf') ls' = insert_entry (sint w) p (tree_entries (node_at hf) ls)"
    "tree_pages root' ls' \<subseteq> tree_pages root ls \<union> {pageCount hf ..< pageCount hf'}"
    "\<And>j. j < pageCount hf \<Longrightarrow> j \<notin> tree_pages root ls \<Longrightarrow> pageAt hf' j = pageAt hf j" by metis
  with sorted_tree_entries [OF R(4)] show ?thesis by blast
qed

theorem insertIntoTree_refines_insert_witness:
  "\<exists>hf' newRoot root' ls' seps'. insertIntoTree oneLeafFile 0 (NewInt 7) 65536 = (hf', Inr newRoot) \<and>
    root' = (case newRoot of None \<Rightarrow> 0 | Some r \<Rightarrow> r) \<and> pool_inv hf' \<and>
    index_inv (node_at hf') (pageCount hf') root' ls' seps' \<and>
    tree_entries (node_at hf') ls' = insert_entry (sint (7 :: 64 word)) 65536 (tree_entries (node_at oneLeafFile) [0]) \<and>
    sorted (map fst (tree_entries (node_at hf') ls')) \<and>
    tree_pages root' ls' \<subseteq> tree_pages 0 [0] \<union> {pageCount oneLeafFile ..< pageCount hf'} \<and>
    (\<forall>j < pageCount oneLeafFile. j \<notin> tree_pages 0 [0] \<longrightarrow> pageAt hf' j = pageAt oneLeafFile j)"
proof -
  have "index_inv (node_at oneLeafFile) (pageCount oneLeafFile) 0 [0] []" "tree_entries (node_at oneLeafFile) [0] = []"
    using index_inv_leaf0 [of "node_at oneLeafFile" 0 "pageCount oneLeafFile"] oneLeafFile_ok(3) by (simp_all add: oneLeafFile_ok(2))
  then show ?thesis
    by (intro insertIntoTree_refines_insert [where seps = "[]"]) (simp_all add: oneLeafFile_ok(1,2) MaxKeys_def)
qed

end
