(* ===== verification/Mvcc.thy ===== *)
theory Mvcc
  imports Core
begin

text \<open>
  Transactions and visibility of the storage engine (\<^verbatim>\<open>src/storage/engine.go\<close>, sections 1 and 3).
  The engine's mutex is part of the state: locking it twice in one call is \<open>Deadlock\<close>.  A
  transaction's snapshot is the set of transactions committed when it began.  The lemmas show that
  the snapshot fixes what a transaction sees, that versions of transactions outside the snapshot are
  never seen, and which writes the conflict check lets through.
\<close>

section \<open>State\<close>

record txnState =
  mu :: bool
  nextTx :: txnID
  activeTxns :: "txnID set"
  committed :: "txnID set"
  txnSnapshots :: "txnID \<rightharpoonup> txnID set"

definition init_txnState :: txnState where
  "init_txnState = \<lparr>mu = False, nextTx = 0, activeTxns = {}, committed = {}, txnSnapshots = Map.empty\<rparr>"

text \<open>\<^verbatim>\<open>e.mu.Lock(); defer e.mu.Unlock()\<close> around a body.\<close>

definition withLock :: "('a txnState_scheme \<Rightarrow> 'a txnState_scheme \<times> 'b res) \<Rightarrow>
    'a txnState_scheme \<Rightarrow> 'a txnState_scheme \<times> 'b res" where
  "withLock body e =
     (if mu e then (e, Inl Deadlock)
      else case body (e\<lparr>mu := True\<rparr>) of (e', r) \<Rightarrow> (e'\<lparr>mu := False\<rparr>, r))"

section \<open>Operations\<close>

definition Begin :: "'a txnState_scheme \<Rightarrow> 'a txnState_scheme \<times> txnID res" where
  "Begin = withLock (\<lambda>e.
     let tx = nextTx e + 1 in
     (e\<lparr>nextTx := tx, txnSnapshots := (txnSnapshots e)(tx \<mapsto> committed e),
        activeTxns := insert tx (activeTxns e)\<rparr>, Inr tx))"

definition commit :: "txnID \<Rightarrow> 'a txnState_scheme \<Rightarrow> 'a txnState_scheme \<times> unit res" where
  "commit txID = withLock (\<lambda>e.
     if txID \<notin> activeTxns e then
       (e, Inl (Errorf ''transaction %d not active'' [ArgInt (uint txID)]))
     else (e\<lparr>activeTxns := activeTxns e - {txID}, txnSnapshots := (txnSnapshots e)(txID := None),
             committed := insert txID (committed e)\<rparr>, Inr ()))"

definition rollback :: "txnID \<Rightarrow> 'a txnState_scheme \<Rightarrow> 'a txnState_scheme \<times> unit res" where
  "rollback txID = withLock (\<lambda>e.
     (e\<lparr>activeTxns := activeTxns e - {txID}, txnSnapshots := (txnSnapshots e)(txID := None)\<rparr>, Inr ()))"

text \<open>Which transactions count as committed for a reader: those of its snapshot, or the live set
  when it has none.\<close>

definition committed_for :: "'a txnState_scheme \<Rightarrow> txnID \<Rightarrow> txnID set" where
  "committed_for e txID = (case txnSnapshots e txID of Some snap \<Rightarrow> snap | None \<Rightarrow> committed e)"

definition visible :: "txnID set \<Rightarrow> txnID \<Rightarrow> txnID \<Rightarrow> txnID \<Rightarrow> bool" where
  "visible com txID xmin xmax =
     (let createdVisible = (xmin = txID \<or> xmin \<in> com);
          deleted = (xmax \<noteq> 0 \<and> (xmax = txID \<or> xmax \<in> com))
      in createdVisible \<and> \<not> deleted)"

definition isVisible :: "txnID \<Rightarrow> txnID \<Rightarrow> txnID \<Rightarrow> 'a txnState_scheme \<Rightarrow> 'a txnState_scheme \<times> bool res" where
  "isVisible txID xmin xmax = withLock (\<lambda>e. (e, Inr (visible (committed_for e txID) txID xmin xmax)))"

definition checkWriteConflict :: "txnID \<Rightarrow> row \<Rightarrow> 'a txnState_scheme \<Rightarrow> 'a txnState_scheme \<times> unit res" where
  "checkWriteConflict txID r = withLock (\<lambda>e.
     if Xmax r \<noteq> 0 \<and> Xmax r \<noteq> txID \<and> Xmax r \<in> committed e then
       (e, Inl (Errorf ''write conflict: row modified by a concurrent transaction'' []))
     else case txnSnapshots e txID of
         Some snap \<Rightarrow>
           if Xmin r \<noteq> txID \<and> Xmin r \<in> committed e \<and> Xmin r \<notin> snap then
             (e, Inl (Errorf ''write conflict: row modified by a transaction that committed after this one began'' []))
           else (e, Inr ())
       | None \<Rightarrow> (e, Inr ()))"

section \<open>Transaction histories\<close>

datatype txn_event = EvBegin txnID | EvCommit txnID | EvRollback txnID

text \<open>One step of the transaction manager.  Identifiers are 64-bit: a history is taken to begin
  fewer than \<open>2 ^ 64 - 1\<close> transactions, so that the counter does not wrap around.\<close>

inductive txn_step :: "'a txnState_scheme \<Rightarrow> txn_event \<Rightarrow> 'a txnState_scheme \<Rightarrow> bool" where
  begin_step: "nextTx e \<noteq> -1 \<Longrightarrow> Begin e = (e', Inr t) \<Longrightarrow> txn_step e (EvBegin t) e'"
| commit_step: "commit t e = (e', Inr ()) \<Longrightarrow> txn_step e (EvCommit t) e'"
| rollback_step: "rollback t e = (e', Inr ()) \<Longrightarrow> txn_step e (EvRollback t) e'"

inductive_cases begin_stepE: "txn_step e (EvBegin t) e'"
inductive_cases commit_stepE: "txn_step e (EvCommit t) e'"
inductive_cases rollback_stepE: "txn_step e (EvRollback t) e'"

inductive txn_run :: "'a txnState_scheme \<Rightarrow> txn_event list \<Rightarrow> 'a txnState_scheme \<Rightarrow> bool" where
  run_nil: "txn_run e [] e"
| run_cons: "txn_step e ev e' \<Longrightarrow> txn_run e' evs e'' \<Longrightarrow> txn_run e (ev # evs) e''"

inductive_cases run_nilE: "txn_run e [] e'"
inductive_cases run_consE: "txn_run e (ev # evs) e'"

text \<open>The invariant of the transaction tables.\<close>

definition txn_inv :: "'a txnState_scheme \<Rightarrow> bool" where
  "txn_inv e \<longleftrightarrow>
     \<not> mu e \<and>
     dom (txnSnapshots e) = activeTxns e \<and>
     activeTxns e \<inter> committed e = {} \<and>
     (\<forall>t \<in> activeTxns e \<union> committed e. 0 < t \<and> t \<le> nextTx e) \<and>
     (\<forall>t snap. txnSnapshots e t = Some snap \<longrightarrow> snap \<subseteq> committed e)"

section \<open>Lemmas\<close>

lemma Begin_eq:
  "\<not> mu e \<Longrightarrow> Begin e =
     (e\<lparr>nextTx := nextTx e + 1, txnSnapshots := (txnSnapshots e)(nextTx e + 1 \<mapsto> committed e),
        activeTxns := insert (nextTx e + 1) (activeTxns e), mu := False\<rparr>, Inr (nextTx e + 1))"
  by (simp add: Begin_def withLock_def Let_def)

lemma commit_eq:
  "\<not> mu e \<Longrightarrow> commit t e =
     (if t \<in> activeTxns e
      then (e\<lparr>activeTxns := activeTxns e - {t}, txnSnapshots := (txnSnapshots e)(t := None),
              committed := insert t (committed e), mu := False\<rparr>, Inr ())
      else (e\<lparr>mu := False\<rparr>, Inl (Errorf ''transaction %d not active'' [ArgInt (uint t)])))"
  by (simp add: commit_def withLock_def)

lemma rollback_eq:
  "\<not> mu e \<Longrightarrow> rollback t e =
     (e\<lparr>activeTxns := activeTxns e - {t}, txnSnapshots := (txnSnapshots e)(t := None), mu := False\<rparr>, Inr ())"
  by (simp add: rollback_def withLock_def)

lemma mu_False [simp]: "\<not> mu e \<Longrightarrow> e\<lparr>mu := False\<rparr> = e"
  by (cases e) simp

lemma isVisible_eq:
  "\<not> mu e \<Longrightarrow> isVisible t xmin xmax e = (e, Inr (visible (committed_for e t) t xmin xmax))"
  by (cases e) (simp add: isVisible_def withLock_def committed_for_def split: option.splits)

lemma checkWriteConflict_unlocked:
  assumes "\<not> mu e"
  shows "fst (checkWriteConflict t r e) = e"
    and "is_ok (snd (checkWriteConflict t r e)) \<longleftrightarrow>
      \<not> (Xmax r \<noteq> 0 \<and> Xmax r \<noteq> t \<and> Xmax r \<in> committed e) \<and>
      \<not> (\<exists>snap. txnSnapshots e t = Some snap \<and> Xmin r \<noteq> t \<and> Xmin r \<in> committed e \<and> Xmin r \<notin> snap)"
  using assms
  by (cases e; auto simp: checkWriteConflict_def withLock_def split: option.splits)+

lemma word_succ_greater: "(n :: txnID) \<noteq> -1 \<Longrightarrow> n < n + 1"
proof -
  assume "n \<noteq> -1"
  then have "1 + n \<noteq> 0" by (metis add.commute eq_neg_iff_add_eq_0)
  then have "unat (1 + n) = Suc (unat n)" by (rule unatSuc)
  then show ?thesis by (simp add: word_less_nat_alt add.commute)
qed

lemma txn_inv_init: "txn_inv init_txnState"
  by (simp add: txn_inv_def init_txnState_def)

lemma txn_inv_fresh: "txn_inv e \<Longrightarrow> nextTx e \<noteq> -1 \<Longrightarrow> nextTx e + 1 \<notin> activeTxns e \<union> committed e"
  using word_succ_greater [of "nextTx e"] unfolding txn_inv_def by (meson not_le)

lemma txn_invD:
  assumes "txn_inv e"
  shows "\<not> mu e" and "x \<in> activeTxns e \<Longrightarrow> \<exists>snap. txnSnapshots e x = Some snap"
    and "txnSnapshots e x = Some snap \<Longrightarrow> u \<in> snap \<Longrightarrow> u \<in> committed e"
  using assms unfolding txn_inv_def by blast+

lemma txn_inv_step: "txn_step e ev e' \<Longrightarrow> txn_inv e \<Longrightarrow> txn_inv e'"
proof (induction rule: txn_step.induct)
  case (begin_step e e' t)
  then have unlocked: "\<not> mu e" by (simp add: txn_inv_def)
  note fresh = txn_inv_fresh [OF begin_step.prems begin_step.hyps(1)]
  note greater = word_succ_greater [OF begin_step.hyps(1)]
  then have "0 < nextTx e + 1" "\<And>t. t \<le> nextTx e \<Longrightarrow> t \<le> nextTx e + 1" by (auto simp: word_greater_zero_iff)
  moreover have "dom (txnSnapshots e) = activeTxns e" using begin_step.prems by (simp add: txn_inv_def)
  then have "dom ((txnSnapshots e)(nextTx e + 1 \<mapsto> committed e)) = insert (nextTx e + 1) (activeTxns e)"
    by simp
  ultimately show ?case using begin_step unlocked fresh txn_invD(3) [OF begin_step.prems]
    by (auto simp: Begin_eq txn_inv_def simp del: dom_fun_upd split: if_splits)
next
  case (commit_step t e e')
  then have "\<not> mu e" by (simp add: txn_inv_def)
  with commit_step txn_invD(2,3) [OF commit_step.prems] show ?case by (auto simp: commit_eq txn_inv_def split: if_splits)
next
  case (rollback_step t e e')
  then have "\<not> mu e" by (simp add: txn_inv_def)
  with rollback_step txn_invD(2,3) [OF rollback_step.prems] show ?case by (auto simp: rollback_eq txn_inv_def split: if_splits)
qed

lemma txn_inv_run: "txn_run e evs e' \<Longrightarrow> txn_inv e \<Longrightarrow> txn_inv e'"
  by (induction rule: txn_run.induct) (auto intro: txn_inv_step)

text \<open>The snapshot of an active transaction is frozen until it ends.\<close>

lemma snapshot_step:
  assumes "txn_step e ev e'" and "txn_inv e" and "t \<in> activeTxns e"
    and "ev \<noteq> EvCommit t" and "ev \<noteq> EvRollback t"
  shows "t \<in> activeTxns e' \<and> txnSnapshots e' t = txnSnapshots e t"
proof -
  from assms(2) have unlocked: "\<not> mu e" by (simp add: txn_inv_def)
  show ?thesis using assms
  proof (cases rule: txn_step.cases)
    case (begin_step u)
    with txn_inv_fresh [OF assms(2)] assms(3) unlocked show ?thesis by (auto simp: Begin_eq)
  next
    case (commit_step u)
    with assms unlocked show ?thesis by (auto simp: commit_eq split: if_splits)
  next
    case (rollback_step u)
    with assms unlocked show ?thesis by (auto simp: rollback_eq)
  qed
qed

lemma snapshot_run:
  "txn_run e evs e' \<Longrightarrow> txn_inv e \<Longrightarrow> t \<in> activeTxns e \<Longrightarrow> EvCommit t \<notin> set evs \<Longrightarrow>
   EvRollback t \<notin> set evs \<Longrightarrow> t \<in> activeTxns e' \<and> txnSnapshots e' t = txnSnapshots e t"
proof (induction rule: txn_run.induct)
  case (run_nil e)
  then show ?case by simp
next
  case (run_cons e ev e' evs e'')
  with snapshot_step [OF run_cons.hyps(1), of t] txn_inv_step [OF run_cons.hyps(1)] show ?case by auto
qed

lemma committed_for_active:
  assumes "txn_inv e" and "t \<in> activeTxns e"
  obtains snap where "txnSnapshots e t = Some snap" and "committed_for e t = snap"
    and "snap \<subseteq> committed e" and "t \<notin> snap"
proof -
  from assms have "t \<in> dom (txnSnapshots e)" and "t \<notin> committed e" by (auto simp: txn_inv_def)
  moreover then obtain snap where s: "txnSnapshots e t = Some snap" by blast
  moreover from s assms(1) have "snap \<subseteq> committed e" unfolding txn_inv_def by blast
  ultimately show thesis using that [of snap] by (auto simp: committed_for_def)
qed

text \<open>Runs grow at the end as well.\<close>

lemma txn_run_append: "txn_run e (xs @ ys) e'' \<longleftrightarrow> (\<exists>e'. txn_run e xs e' \<and> txn_run e' ys e'')"
proof (induction xs arbitrary: e)
  case Nil
  then show ?case by (auto intro: run_nil elim: run_nilE)
next
  case (Cons ev xs)
  then show ?case by (fastforce elim: run_consE intro: run_cons)
qed

lemma txn_run_snoc: "txn_run e (xs @ [ev]) e'' \<longleftrightarrow> (\<exists>e'. txn_run e xs e' \<and> txn_step e' ev e'')"
  by (auto simp: txn_run_append intro: run_cons run_nil elim!: run_consE run_nilE)

text \<open>What the tables say about the history that led to them.\<close>

definition committed_in :: "txn_event list \<Rightarrow> txnID set" where
  "committed_in evs = {u. EvCommit u \<in> set evs}"

lemma committed_in_simps [simp]:
  "committed_in [] = {}"
  "committed_in (xs @ [EvCommit u]) = insert u (committed_in xs)"
  "committed_in (xs @ [EvBegin u]) = committed_in xs"
  "committed_in (xs @ [EvRollback u]) = committed_in xs"
  by (auto simp: committed_in_def)

definition history_ok :: "'a txnState_scheme \<Rightarrow> txn_event list \<Rightarrow> bool" where
  "history_ok e evs \<longleftrightarrow>
     committed e = committed_in evs \<and>
     (\<forall>u. EvBegin u \<in> set evs \<longrightarrow> u \<le> nextTx e) \<and>
     (\<forall>t snap. txnSnapshots e t = Some snap \<longrightarrow>
        (\<exists>pre post. evs = pre @ EvBegin t # post \<and> EvBegin t \<notin> set pre \<union> set post \<and>
           snap = committed_in pre))"

lemma history_okD:
  assumes "history_ok e evs" and "txnSnapshots e t = Some snap"
  obtains pre post where "evs = pre @ EvBegin t # post" and "EvBegin t \<notin> set pre \<union> set post"
    and "snap = committed_in pre"
  using assms unfolding history_ok_def by blast

lemma history_ok_step:
  assumes step: "txn_step e ev e'" and inv: "txn_inv e" and ok: "history_ok e evs"
  shows "history_ok e' (evs @ [ev])"
  unfolding history_ok_def
proof (intro conjI allI impI)
  from inv have unlocked: "\<not> mu e" by (simp add: txn_inv_def)
  show "committed e' = committed_in (evs @ [ev])" using step ok unlocked
    by cases (auto simp: history_ok_def Begin_eq commit_eq rollback_eq split: if_splits)
  show "u \<le> nextTx e'" if "EvBegin u \<in> set (evs @ [ev])" for u
    using step that ok unlocked word_succ_greater [of "nextTx e"]
    by cases (auto simp: history_ok_def Begin_eq commit_eq rollback_eq split: if_splits)
  fix t snap
  assume snap: "txnSnapshots e' t = Some snap"
  show "\<exists>pre post. evs @ [ev] = pre @ EvBegin t # post \<and> EvBegin t \<notin> set pre \<union> set post \<and> snap = committed_in pre"
  proof (cases "ev = EvBegin t")
    case True
    with step unlocked have "nextTx e \<noteq> -1" "t = nextTx e + 1" "snap = committed e"
      using snap by (auto elim!: begin_stepE simp: Begin_eq)
    moreover from this ok have "EvBegin t \<notin> set evs"
      using word_succ_greater [of "nextTx e"] unfolding history_ok_def by (auto simp flip: not_le)
    ultimately show ?thesis using True ok unfolding history_ok_def by (intro exI [of _ evs] exI [of _ "[]"]) simp
  next
    case False
    with step unlocked snap have "txnSnapshots e t = Some snap"
      by cases (auto simp: Begin_eq commit_eq rollback_eq split: if_splits)
    from history_okD [OF ok this] obtain pre post where "evs = pre @ EvBegin t # post"
      "EvBegin t \<notin> set pre \<union> set post" "snap = committed_in pre" by blast
    with False show ?thesis by (intro exI [of _ pre] exI [of _ "post @ [ev]"]) auto
  qed
qed

lemma history_ok_run: "txn_run init_txnState evs e \<Longrightarrow> txn_inv e \<and> history_ok e evs"
proof (induction evs arbitrary: e rule: rev_induct)
  case Nil
  then show ?case
    by (auto elim!: run_nilE simp: txn_inv_init history_ok_def) (simp_all add: init_txnState_def)
next
  case (snoc ev evs)
  then obtain e' where "txn_run init_txnState evs e'" "txn_step e' ev e" by (auto simp: txn_run_snoc)
  with snoc.IH [of e'] show ?case by (auto intro: txn_inv_step history_ok_step)
qed

section \<open>Properties\<close>

text \<open>C11: Repeatable reads.  Whatever other transactions begin, commit or roll back while a
  transaction is running, \<^verbatim>\<open>isVisible\<close> keeps giving it the same answer on every row version.\<close>

theorem isVisible_stable:
  assumes "txn_inv e" and "t \<in> activeTxns e" and "txn_run e evs e'"
    and "EvCommit t \<notin> set evs" and "EvRollback t \<notin> set evs"
  shows "isVisible t xmin xmax e' = (e', snd (isVisible t xmin xmax e))"
proof -
  from assms have "txn_inv e'" by (blast intro: txn_inv_run)
  then have "\<not> mu e'" "\<not> mu e" using assms(1) by (simp_all add: txn_inv_def)
  moreover from snapshot_run [OF assms(3,1,2,4,5)]
  have "t \<in> activeTxns e'" "txnSnapshots e' t = txnSnapshots e t" by simp_all
  moreover from committed_for_active [OF assms(1,2)] obtain snap where "txnSnapshots e t = Some snap" .
  ultimately show ?thesis by (simp add: isVisible_eq committed_for_def)
qed

theorem isVisible_stable_witness:
  "isVisible 2 1 0 (fst (commit 1 (fst (Begin (fst (Begin init_txnState)))))) =
     (fst (commit 1 (fst (Begin (fst (Begin init_txnState))))), Inr False)"
proof -
  let ?e = "fst (Begin (fst (Begin init_txnState)))"
  have e: "?e = \<lparr>mu = False, nextTx = 2, activeTxns = {2, 1}, committed = {},
      txnSnapshots = [1 \<mapsto> {}, 2 \<mapsto> {}]\<rparr>"
    by (simp add: Begin_eq init_txnState_def)
  have "txn_step ?e (EvCommit 1) (fst (commit 1 ?e))"
    unfolding e by (intro commit_step) (simp add: commit_eq)
  then have "txn_run ?e [EvCommit 1] (fst (commit 1 ?e))" by (blast intro: run_cons run_nil)
  moreover have "txn_inv ?e" unfolding e by (auto simp: txn_inv_def split: if_splits)
  moreover have "snd (isVisible 2 1 0 ?e) = Inr False"
    unfolding e by (simp add: isVisible_eq committed_for_def visible_def)
  ultimately show ?thesis using isVisible_stable [of ?e 2 "[EvCommit 1]" "fst (commit 1 ?e)" 1 0]
    by (simp add: e)
qed

text \<open>C1: Snapshot isolation against the history.  After any history of the engine that has \<open>t\<close>
  running, a row version is visible to \<open>t\<close> exactly when its creator is \<open>t\<close> or committed before \<open>t\<close>
  began, and its deleter, if it has one, is neither \<open>t\<close> nor a transaction committed before \<open>t\<close>
  began: never the effect of an uncommitted, rolled-back or later transaction.\<close>

theorem isVisible_snapshot:
  assumes "txn_run init_txnState evs e" and "t \<in> activeTxns e"
  shows "\<exists>pre post. evs = pre @ EvBegin t # post \<and> EvBegin t \<notin> set pre \<union> set post \<and>
    (\<forall>xmin xmax. isVisible t xmin xmax e =
       (e, Inr ((xmin = t \<or> EvCommit xmin \<in> set pre) \<and>
                \<not> (xmax \<noteq> 0 \<and> (xmax = t \<or> EvCommit xmax \<in> set pre)))))"
proof -
  from history_ok_run [OF assms(1)] have inv: "txn_inv e" and ok: "history_ok e evs" by simp_all
  from committed_for_active [OF inv assms(2)] obtain snap
    where snap: "txnSnapshots e t = Some snap" "committed_for e t = snap" by metis
  from history_okD [OF ok snap(1)] obtain pre post where
    "evs = pre @ EvBegin t # post" "EvBegin t \<notin> set pre \<union> set post" "snap = committed_in pre" by blast
  moreover from inv have "\<not> mu e" by (simp add: txn_inv_def)
  ultimately show ?thesis using snap
    by (intro exI [of _ pre] exI [of _ post]) (simp add: isVisible_eq visible_def committed_in_def)
qed

theorem isVisible_snapshot_witness:
  "\<exists>pre post. [EvBegin 1] = pre @ EvBegin 1 # post \<and> EvBegin 1 \<notin> set pre \<union> set post \<and>
    (\<forall>xmin xmax. isVisible 1 xmin xmax (fst (Begin init_txnState)) =
       (fst (Begin init_txnState), Inr ((xmin = 1 \<or> EvCommit xmin \<in> set pre) \<and>
          \<not> (xmax \<noteq> 0 \<and> (xmax = 1 \<or> EvCommit xmax \<in> set pre)))))"
proof -
  let ?e = "fst (Begin init_txnState)"
  have "txn_step init_txnState (EvBegin 1) ?e"
    by (intro begin_step) (simp_all add: Begin_eq init_txnState_def)
  then have "txn_run init_txnState [EvBegin 1] ?e" by (blast intro: run_cons run_nil)
  moreover have "1 \<in> activeTxns ?e" by (simp add: Begin_eq init_txnState_def)
  ultimately show ?thesis by (rule isVisible_snapshot)
qed

text \<open>C12: First committer wins.  For a row version the transaction can see, the conflict check
  refuses the write exactly when the version was deleted or replaced by a transaction that has
  committed since this one began, and the check changes nothing.\<close>

theorem checkWriteConflict_first_committer:
  assumes "txn_inv e" and "t \<in> activeTxns e" and "isVisible t (Xmin r) (Xmax r) e = (e, Inr True)"
  shows "checkWriteConflict t r e =
    (e, if Xmax r \<noteq> 0 \<and> Xmax r \<in> committed e
        then Inl (Errorf ''write conflict: row modified by a concurrent transaction'' []) else Inr ())"
proof -
  from committed_for_active [OF assms(1,2)] obtain snap
    where s: "txnSnapshots e t = Some snap" "committed_for e t = snap" "snap \<subseteq> committed e" .
  from assms(1) have "\<not> mu e" by (simp add: txn_inv_def)
  with assms(3) s have "(Xmin r = t \<or> Xmin r \<in> snap) \<and> \<not> (Xmax r \<noteq> 0 \<and> (Xmax r = t \<or> Xmax r \<in> snap))"
    by (simp add: isVisible_eq visible_def)
  with s \<open>\<not> mu e\<close> show ?thesis
    by (cases e) (auto simp: checkWriteConflict_def withLock_def)
qed

theorem checkWriteConflict_first_committer_witness:
  "let e = \<lparr>mu = False, nextTx = 3, activeTxns = {3}, committed = {1, 2}, txnSnapshots = [3 \<mapsto> {1}]\<rparr>;
       r = \<lparr>Values = [], Xmin = 1, Xmax = 2\<rparr>
   in checkWriteConflict 3 r e =
        (e, Inl (Errorf ''write conflict: row modified by a concurrent transaction'' []))"
proof -
  let ?e = "\<lparr>mu = False, nextTx = 3, activeTxns = {3}, committed = {1, 2}, txnSnapshots = [3 \<mapsto> {1}]\<rparr>"
  let ?r = "\<lparr>Values = [], Xmin = 1, Xmax = 2\<rparr>"
  have "txn_inv ?e" by (auto simp: txn_inv_def)
  moreover have "isVisible 3 (Xmin ?r) (Xmax ?r) ?e = (?e, Inr True)"
    by (simp add: isVisible_eq visible_def committed_for_def)
  ultimately show ?thesis using checkWriteConflict_first_committer [of ?e 3 ?r] by simp
qed

end
