(* ===== verification/Catalog.thy ===== *)
theory Catalog
  imports HeapFile "HOL-Library.List_Lexorder" "HOL-Library.Char_ord"
begin

text \<open>
  The table catalog (\<^verbatim>\<open>src/storage/catalog.go\<close>): what is known of every table, and the file
  \<^verbatim>\<open>catalog.json\<close> from which it is rebuilt.  Go maps are association lists with distinct keys.
  The JSON text itself is not modelled: the file holds the list of the saved structs, which
  \<^verbatim>\<open>encoding/json\<close> reads back as they were written.  Failures of the operating system (a file that
  cannot be opened or written) are not modelled.
\<close>

section \<open>State\<close>

record tableMetadata =
  tmName :: string
  tmSchema :: schema
  tmHeapFile :: heapFile
  IndexRoots :: "(string \<times> nat) list"
  tmStats :: "tableStats option"

type_synonym catalog = "(string \<times> tableMetadata) list"

definition NewCatalog :: catalog where
  "NewCatalog = []"

record diskMetadata =
  dmName :: string
  dmSchema :: schema
  dmIndexRoots :: "(string \<times> nat) list"

section \<open>Operations\<close>

definition AddTable :: "catalog \<Rightarrow> string \<Rightarrow> schema \<Rightarrow> heapFile \<Rightarrow> catalog res" where
  "AddTable c name sch hf =
     (if map_of c name \<noteq> None then Inl (Errorf ''table %q already exists'' [ArgStr name])
      else Inr (AList.update name
        \<lparr>tmName = name, tmSchema = sch, tmHeapFile = hf, IndexRoots = [], tmStats = None\<rparr> c))"

definition Catalog_ListTables :: "catalog \<Rightarrow> string list" where
  "Catalog_ListTables c = sort (map fst c)"

definition GetTable :: "catalog \<Rightarrow> string \<Rightarrow> tableMetadata res" where
  "GetTable c name =
     (case map_of c name of
        None \<Rightarrow> Inl (Errorf ''table %q does not exist'' [ArgStr name])
      | Some meta \<Rightarrow> Inr meta)"

definition Catalog_DropTable :: "catalog \<Rightarrow> string \<Rightarrow> catalog res" where
  "Catalog_DropTable c name =
     (if map_of c name = None then Inl (Errorf ''table %q does not exist'' [ArgStr name])
      else Inr (AList.delete name c))"

text \<open>\<^verbatim>\<open>Save\<close>: the new contents of \<^verbatim>\<open>catalog.json\<close>.  Heap files and statistics are not saved.\<close>

definition Save :: "catalog \<Rightarrow> diskMetadata list" where
  "Save c = map (\<lambda>(_, meta). \<lparr>dmName = tmName meta, dmSchema = tmSchema meta, dmIndexRoots = IndexRoots meta\<rparr>) c"

text \<open>\<^verbatim>\<open>Load\<close> reopens the file of every saved table, with an empty buffer pool of 100 pages.  Every
  new pool takes the next list of iteration orders.\<close>

definition poolOrder :: "nat list list \<Rightarrow> nat list" where
  "poolOrder orders = (case orders of [] \<Rightarrow> [] | ord # _ \<Rightarrow> ord)"

fun Load_items :: "(string \<rightharpoonup> byte list) \<Rightarrow> nat list list \<Rightarrow> diskMetadata list \<Rightarrow> catalog \<Rightarrow> catalog" where
  "Load_items files orders [] c = c"
| "Load_items files orders (item # items) c =
     Load_items files (tl orders) items
       (AList.update (dmName item)
          \<lparr>tmName = dmName item, tmSchema = dmSchema item,
           tmHeapFile = NewHeapFile (case files (dmName item) of None \<Rightarrow> [] | Some bs \<Rightarrow> bs)
                          (NewBufferPool 100 (poolOrder orders)),
           IndexRoots = dmIndexRoots item, tmStats = None\<rparr> c)"

definition Load :: "(string \<rightharpoonup> byte list) \<Rightarrow> nat list list \<Rightarrow> diskMetadata list option \<Rightarrow> catalog \<Rightarrow> catalog" where
  "Load files orders saved c = (case saved of None \<Rightarrow> c | Some items \<Rightarrow> Load_items files orders items c)"

end
