(* ===== verification/Engine.thy ===== *)
theory Engine
  imports BTree Mvcc Catalog
begin

text \<open>
  The storage engine (\<^verbatim>\<open>src/storage/engine.go\<close>, and the parts of \<^verbatim>\<open>btree.go\<close> and
  \<^verbatim>\<open>btree_insert.go\<close> that are methods of the engine).  Its state extends the transaction tables by
  the catalog with the open heap files, the shared index file, and what lies in the data directory
  besides the open files.  Methods that take the engine's mutex are wrapped in \<open>withLock\<close>, so
  a method that takes it twice is a deadlock of the model too.  A table named \<^verbatim>\<open>indexes\<close>, whose
  file would be the index file itself, is outside the model.
\<close>

section \<open>State\<close>

text \<open>A data directory when no engine has it open.\<close>

record dataDir =
  dbFiles :: "(string \<times> byte list) list"
  indexesDb :: "byte list option"
  catalogJson :: "diskMetadata list option"

record engine = txnState +
  catalog :: catalog
  indexFile :: heapFile
  leftFiles :: "(string \<times> byte list) list"
  savedCatalog :: "diskMetadata list option"
  orders :: "nat list list"

section \<open>Life cycle\<close>

definition New :: "nat list list \<Rightarrow> dataDir \<Rightarrow> engine res" where
  "New ords d =
     (let cat = Load (map_of (dbFiles d)) (tl ords) (catalogJson d) NewCatalog;
          isNew = (indexesDb d = None);
          contents = (case indexesDb d of None \<Rightarrow> writeAt [] 0 (Data NewPage) | Some bs \<Rightarrow> bs);
          idx = NewHeapFile contents (NewBufferPool 100 (poolOrder ords));
          mk = (\<lambda>ix. \<lparr>mu = False, nextTx = 0, activeTxns = {}, committed = {}, txnSnapshots = Map.empty,
                 catalog = cat, indexFile = ix,
                 leftFiles = filter (\<lambda>(name, _). map_of cat name = None) (dbFiles d),
                 savedCatalog = catalogJson d, orders = drop (Suc (length cat)) ords\<rparr>)
      in if isNew then (case FetchPage idx 0 of (_, Inl e) \<Rightarrow> Inl e | (ix, Inr _) \<Rightarrow> Inr (mk ix))
         else Inr (mk idx))"

text \<open>\<^verbatim>\<open>Close\<close> flushes every pool; errors of \<^verbatim>\<open>FlushAll\<close> are ignored.\<close>

definition Close :: "engine \<Rightarrow> engine \<times> unit res" where
  "Close = withLock (\<lambda>e.
     (e\<lparr>catalog := map (\<lambda>(name, meta). (name, meta\<lparr>tmHeapFile := fst (FlushAll (tmHeapFile meta))\<rparr>)) (catalog e),
        indexFile := fst (FlushAll (indexFile e))\<rparr>, Inr ()))"

text \<open>What the directory holds once the files are closed.\<close>

definition diskImage :: "engine \<Rightarrow> dataDir" where
  "diskImage e =
     \<lparr>dbFiles = map (\<lambda>(name, meta). (name, fileBytes (tmHeapFile meta))) (catalog e) @ leftFiles e,
      indexesDb = Some (fileBytes (indexFile e)), catalogJson = savedCatalog e\<rparr>"

section \<open>Data definition\<close>

definition saveCatalog :: "engine \<Rightarrow> engine" where
  "saveCatalog e = e\<lparr>savedCatalog := Some (Save (catalog e))\<rparr>"

definition CreateTable :: "string \<Rightarrow> schema \<Rightarrow> engine \<Rightarrow> engine \<times> unit res" where
  "CreateTable name sch = withLock (\<lambda>e.
     let contents = (case map_of (leftFiles e) name of None \<Rightarrow> [] | Some bs \<Rightarrow> bs);
         hf = NewHeapFile contents (NewBufferPool 100 (poolOrder (orders e)));
         e1 = e\<lparr>orders := tl (orders e)\<rparr>
     in case AddTable (catalog e1) name sch hf of
          Inl err \<Rightarrow> (e1, Inl err)
        | Inr c \<Rightarrow> (saveCatalog (e1\<lparr>catalog := c, leftFiles := AList.delete name (leftFiles e1)\<rparr>), Inr ()))"

definition DropTable :: "string \<Rightarrow> engine \<Rightarrow> engine \<times> unit res" where
  "DropTable name = withLock (\<lambda>e.
     case GetTable (catalog e) name of
       Inl err \<Rightarrow> (e, Inl err)
     | Inr meta \<Rightarrow>
         (case Catalog_DropTable (catalog e) name of
            Inl err \<Rightarrow> (e, Inl err)
          | Inr c \<Rightarrow> (saveCatalog (e\<lparr>catalog := c\<rparr>), Inr ())))"

definition GetSchema :: "string \<Rightarrow> engine \<Rightarrow> engine \<times> schema option res" where
  "GetSchema name = withLock (\<lambda>e.
     case GetTable (catalog e) name of Inl _ \<Rightarrow> (e, Inr None) | Inr meta \<Rightarrow> (e, Inr (Some (tmSchema meta))))"

definition ListTables :: "engine \<Rightarrow> engine \<times> string list res" where
  "ListTables = withLock (\<lambda>e. (e, Inr (Catalog_ListTables (catalog e))))"

section \<open>Access to tables\<close>

text \<open>Changes of a table's heap file and of the fields of its metadata, in place.\<close>

definition updTable :: "string \<Rightarrow> (tableMetadata \<Rightarrow> tableMetadata) \<Rightarrow> engine \<Rightarrow> engine" where
  "updTable name f e =
     (case map_of (catalog e) name of
        None \<Rightarrow> e
      | Some meta \<Rightarrow> e\<lparr>catalog := AList.update name (f meta) (catalog e)\<rparr>)"

definition setHeap :: "string \<Rightarrow> heapFile \<Rightarrow> engine \<Rightarrow> engine" where
  "setHeap name hf = updTable name (\<lambda>meta. meta\<lparr>tmHeapFile := hf\<rparr>)"

section \<open>Indexes: insertion\<close>

definition getIndexRootPageLocked :: "string \<Rightarrow> string \<Rightarrow> engine \<Rightarrow> nat res" where
  "getIndexRootPageLocked table column e =
     (case GetTable (catalog e) table of
        Inl err \<Rightarrow> Inl err
      | Inr meta \<Rightarrow>
          (case map_of (IndexRoots meta) column of
             None \<Rightarrow> Inl (Errorf ''index on %s.%s does not exist'' [ArgStr table, ArgStr column])
           | Some rootPage \<Rightarrow> Inr rootPage))"

definition getIndexRootPage :: "string \<Rightarrow> string \<Rightarrow> engine \<Rightarrow> engine \<times> nat res" where
  "getIndexRootPage table column = withLock (\<lambda>e. (e, getIndexRootPageLocked table column e))"

text \<open>The catalog part of \<^verbatim>\<open>createNewRoot\<close>.\<close>

definition createNewRoot_catalog :: "string \<Rightarrow> string \<Rightarrow> nat \<Rightarrow> engine \<Rightarrow> engine \<times> unit res" where
  "createNewRoot_catalog table column newRootID e =
     (case withLock (\<lambda>e.
          case GetTable (catalog e) table of
            Inl err \<Rightarrow> (e, Inl err)
          | Inr meta \<Rightarrow>
              (updTable table (\<lambda>m. m\<lparr>IndexRoots := AList.update column newRootID (IndexRoots m)\<rparr>) e, Inr ())) e of
        (e1, Inl err) \<Rightarrow> (e1, Inl err)
      | (e1, Inr _) \<Rightarrow> (saveCatalog e1, Inr ()))"

text \<open>The common part of \<^verbatim>\<open>InsertIntoIndex\<close> and \<^verbatim>\<open>insertIntoIndexLocked\<close>, below a root page.\<close>

definition insertBelow :: "string \<Rightarrow> string \<Rightarrow> nat \<Rightarrow> val \<Rightarrow> rowID \<Rightarrow> engine \<Rightarrow> engine \<times> unit res" where
  "insertBelow table column rootPageID key rowID e =
     (case insertIntoTree (indexFile e) rootPageID key rowID of
        (ix, Inl err) \<Rightarrow> (e\<lparr>indexFile := ix\<rparr>, Inl err)
      | (ix, Inr None) \<Rightarrow> (e\<lparr>indexFile := ix\<rparr>, Inr ())
      | (ix, Inr (Some newRootID)) \<Rightarrow> createNewRoot_catalog table column newRootID (e\<lparr>indexFile := ix\<rparr>))"

definition InsertIntoIndex :: "string \<Rightarrow> string \<Rightarrow> val \<Rightarrow> rowID \<Rightarrow> engine \<Rightarrow> engine \<times> unit res" where
  "InsertIntoIndex table column key rowID e =
     (case getIndexRootPage table column e of
        (e1, Inl err) \<Rightarrow> (e1, Inl err)
      | (e1, Inr rootPageID) \<Rightarrow> insertBelow table column rootPageID key rowID e1)"

definition insertIntoIndexLocked :: "string \<Rightarrow> string \<Rightarrow> val \<Rightarrow> rowID \<Rightarrow> engine \<Rightarrow> engine \<times> unit res" where
  "insertIntoIndexLocked table column key rowID e =
     (case getIndexRootPageLocked table column e of
        Inl err \<Rightarrow> (e, Inl err)
      | Inr rootPageID \<Rightarrow> insertBelow table column rootPageID key rowID e)"

definition DeleteFromIndex :: "string \<Rightarrow> string \<Rightarrow> val \<Rightarrow> rowID \<Rightarrow> engine \<Rightarrow> engine \<times> unit res" where
  "DeleteFromIndex table column key rowID = withLock (\<lambda>e.
     case getIndexRootPageLocked table column e of
       Inl err \<Rightarrow> (e, Inl err)
     | Inr rootPageID \<Rightarrow>
         (case deleteFromTree (indexFile e) rootPageID key rowID of
            (ix, r) \<Rightarrow> (e\<lparr>indexFile := ix\<rparr>, r)))"

section \<open>Data manipulation\<close>

text \<open>The loop over the columns that follows every insertion of a version.\<close>

fun indexVersion :: "string \<Rightarrow> rowID \<Rightarrow> val list \<Rightarrow> nat \<Rightarrow> column list \<Rightarrow> engine \<Rightarrow> engine \<times> unit res" where
  "indexVersion table rid vals i [] e = (e, Inr ())"
| "indexVersion table rid vals i (col # cols) e =
     (case map_of (catalog e) table of
        None \<Rightarrow> indexVersion table rid vals (Suc i) cols e
      | Some meta \<Rightarrow>
          if map_of (IndexRoots meta) (colName col) = None then indexVersion table rid vals (Suc i) cols e
          else if length vals \<le> i then (e, Inl (Panic ''index out of range''))
          else if vNull (vals ! i) then indexVersion table rid vals (Suc i) cols e
          else (case InsertIntoIndex table (colName col) (vals ! i) rid e of
              (e1, Inl err) \<Rightarrow>
                (e1, Inl (if abnormal err then err
                  else Wrapf ''failed to update index on %s.%s: %w'' [ArgStr table, ArgStr (colName col)] err))
            | (e1, Inr _) \<Rightarrow> indexVersion table rid vals (Suc i) cols e1))"

definition Insert :: "txnID \<Rightarrow> string \<Rightarrow> row \<Rightarrow> engine \<Rightarrow> engine \<times> rowID res" where
  "Insert txn table row0 e =
     (let r = row0\<lparr>Xmin := txn, Xmax := 0\<rparr> in
      case GetTable (catalog e) table of
        Inl err \<Rightarrow> (e, Inl err)
      | Inr meta \<Rightarrow>
          (case HeapFile_Insert (tmHeapFile meta) (Serialize r) of
             (hf, Inl err) \<Rightarrow> (setHeap table hf e, Inl err)
           | (hf, Inr rid) \<Rightarrow>
               (case indexVersion table rid (Values r) 0 (Columns (tmSchema meta)) (setHeap table hf e) of
                  (e1, Inl err) \<Rightarrow> (e1, Inl err)
                | (e1, Inr _) \<Rightarrow> (e1, Inr rid))))"

text \<open>Reading the version that is about to be changed, and the conflict check: common to
  \<^verbatim>\<open>Update\<close> and \<^verbatim>\<open>Delete\<close>.\<close>

definition readForWrite :: "txnID \<Rightarrow> string \<Rightarrow> rowID \<Rightarrow> engine \<Rightarrow> engine \<times> row res" where
  "readForWrite txn table rid e =
     (case GetTable (catalog e) table of
        Inl err \<Rightarrow> (e, Inl err)
      | Inr meta \<Rightarrow>
          (case HeapFile_Get (tmHeapFile meta) rid of
             (hf, Inl err) \<Rightarrow> (setHeap table hf e, Inl err)
           | (hf, Inr data) \<Rightarrow>
               (case Deserialize data of
                  Inl err \<Rightarrow> (setHeap table hf e, Inl err)
                | Inr oldRow \<Rightarrow>
                    (case checkWriteConflict txn oldRow (setHeap table hf e) of
                       (e1, Inl err) \<Rightarrow> (e1, Inl err)
                     | (e1, Inr _) \<Rightarrow> (e1, Inr oldRow)))))"

definition stampVersion :: "string \<Rightarrow> rowID \<Rightarrow> row \<Rightarrow> engine \<Rightarrow> engine \<times> unit res" where
  "stampVersion table rid r e =
     (case GetTable (catalog e) table of
        Inl err \<Rightarrow> (e, Inl err)
      | Inr meta \<Rightarrow>
          (case HeapFile_Update (tmHeapFile meta) rid (Serialize r) of (hf, res) \<Rightarrow> (setHeap table hf e, res)))"

definition Update :: "txnID \<Rightarrow> string \<Rightarrow> rowID \<Rightarrow> row \<Rightarrow> engine \<Rightarrow> engine \<times> unit res" where
  "Update txn table rid row0 e =
     (case readForWrite txn table rid e of
        (e1, Inl err) \<Rightarrow> (e1, Inl err)
      | (e1, Inr oldRow) \<Rightarrow>
          (case stampVersion table rid (oldRow\<lparr>Xmax := txn\<rparr>) e1 of
             (e2, Inl err) \<Rightarrow> (e2, Inl err)
           | (e2, Inr _) \<Rightarrow>
               (case Insert txn table row0 e2 of
                  (e3, Inl err) \<Rightarrow> (e3, Inl err)
                | (e3, Inr _) \<Rightarrow> (e3, Inr ()))))"

definition Delete :: "txnID \<Rightarrow> string \<Rightarrow> rowID \<Rightarrow> engine \<Rightarrow> engine \<times> unit res" where
  "Delete txn table rid e =
     (case readForWrite txn table rid e of
        (e1, Inl err) \<Rightarrow> (e1, Inl err)
      | (e1, Inr r) \<Rightarrow> stampVersion table rid (r\<lparr>Xmax := txn\<rparr>) e1)"

section \<open>Scans\<close>

record heapFileIterator =
  itTable :: string
  itTxn :: txnID
  itRaw :: bool
  itPageCount :: nat
  currPage :: nat
  currSlot :: nat

definition Scan :: "txnID \<Rightarrow> string \<Rightarrow> engine \<Rightarrow> engine \<times> heapFileIterator res" where
  "Scan txn table e =
     (case GetTable (catalog e) table of
        Inl err \<Rightarrow> (e, Inl err)
      | Inr meta \<Rightarrow>
          (e, Inr \<lparr>itTable = table, itTxn = txn, itRaw = False,
                   itPageCount = getPageCount (fileBytes (tmHeapFile meta)), currPage = 0, currSlot = 0\<rparr>))"

definition scanTable :: "string \<Rightarrow> engine \<Rightarrow> heapFileIterator res" where
  "scanTable table e =
     (case GetTable (catalog e) table of
        Inl err \<Rightarrow> Inl err
      | Inr meta \<Rightarrow>
          Inr \<lparr>itTable = table, itTxn = 0, itRaw = True,
               itPageCount = getPageCount (fileBytes (tmHeapFile meta)), currPage = 0, currSlot = 0\<rparr>)"

text \<open>The inner loop of \<^verbatim>\<open>Next\<close>, over the remaining slots of the current page.\<close>

fun Next_slots :: "page \<Rightarrow> nat list \<Rightarrow> heapFileIterator \<Rightarrow> engine \<Rightarrow>
    engine \<times> (heapFileIterator \<times> (rowID \<times> row) option) res" where
  "Next_slots page [] it e = (e, Inr (it, None))"
| "Next_slots page (s # ss) it e =
     (if length (Data page) < 4 + s * 4 + 4 then (e, Inl (Panic ''index out of range''))
      else let rid = encodeRowID (currPage it) s; it1 = it\<lparr>currSlot := Suc s\<rparr> in
        if slotLen s page = 0 then Next_slots page ss it1 e
        else if length (Data page) < slotOff s page + slotLen s page
        then (e, Inl (Panic ''slice bounds out of range''))
        else (case Deserialize (bslice (slotOff s page) (slotLen s page) (Data page),
                                drop (slotOff s page + slotLen s page) (Data page)) of
            Inl err \<Rightarrow> (e, Inl err)
          | Inr r \<Rightarrow>
              if itRaw it then (e, Inr (it1, Some (rid, r)))
              else (case isVisible (itTxn it) (Xmin r) (Xmax r) e of
                  (e1, Inl err) \<Rightarrow> (e1, Inl err)
                | (e1, Inr vis) \<Rightarrow>
                    if vis then (e1, Inr (it1, Some (rid, r))) else Next_slots page ss it1 e1)))"

text \<open>The outer loop, over the remaining pages.  An iterator whose table has been dropped reads a
  closed file.\<close>

fun Next_pages :: "nat list \<Rightarrow> heapFileIterator \<Rightarrow> engine \<Rightarrow>
    engine \<times> (heapFileIterator \<times> (rowID \<times> row) option) res" where
  "Next_pages [] it e = (e, Inr (it, None))"
| "Next_pages (p # ps) it e =
     (case map_of (catalog e) (itTable it) of
        None \<Rightarrow> (e, Inl (Errorf ''file already closed'' []))
      | Some meta \<Rightarrow>
          (case FetchPage (tmHeapFile meta) p of
             (hf, Inl err) \<Rightarrow> (setHeap (itTable it) hf e, Inl err)
           | (hf, Inr page) \<Rightarrow>
               (case Next_slots page [currSlot it..<slotCount page] it (setHeap (itTable it) hf e) of
                  (e1, Inl err) \<Rightarrow> (e1, Inl err)
                | (e1, Inr (it1, Some r)) \<Rightarrow> (e1, Inr (it1, Some r))
                | (e1, Inr (it1, None)) \<Rightarrow> Next_pages ps (it1\<lparr>currPage := Suc p, currSlot := 0\<rparr>) e1)))"

definition Next :: "heapFileIterator \<Rightarrow> engine \<Rightarrow> engine \<times> (heapFileIterator \<times> (rowID \<times> row) option) res" where
  "Next it = Next_pages [currPage it..<itPageCount it] it"

text \<open>Every call of \<^verbatim>\<open>Next\<close> that returns a row has passed a slot, and a page has at most 65535
  slots: this many calls reach the end.\<close>

definition iterFuel :: "heapFileIterator \<Rightarrow> nat" where
  "iterFuel it = Suc ((itPageCount it - currPage it) * 65536)"

section \<open>Index seeks\<close>

record btreeIterator =
  bitTxn :: txnID
  bitTable :: string
  seekKey :: val
  currNode :: "bTreeNode option"
  currIdx :: nat

definition SeekIndex :: "txnID \<Rightarrow> string \<Rightarrow> string \<Rightarrow> val \<Rightarrow> engine \<Rightarrow> engine \<times> btreeIterator res" where
  "SeekIndex txn table column key e =
     (case getIndexRootPage table column e of
        (e1, Inl err) \<Rightarrow> (e1, Inl err)
      | (e1, Inr rootPageID) \<Rightarrow>
          (case findLeaf (indexFile e1) (int rootPageID) key of
             (ix, Inl err) \<Rightarrow> (e1\<lparr>indexFile := ix\<rparr>, Inl err)
           | (ix, Inr leafNode) \<Rightarrow>
               (e1\<lparr>indexFile := ix\<rparr>,
                Inr \<lparr>bitTxn = txn, bitTable = table, seekKey = key, currNode = Some leafNode,
                     currIdx = startIdx leafNode key\<rparr>)))"

definition fetchRowByID :: "string \<Rightarrow> rowID \<Rightarrow> engine \<Rightarrow> engine \<times> row res" where
  "fetchRowByID table rid e =
     (case GetTable (catalog e) table of
        Inl _ \<Rightarrow> (e, Inl (Errorf ''table %s not found'' [ArgStr table]))
      | Inr meta \<Rightarrow>
          (case decodeRowID rid of (pageID, slotID) \<Rightarrow>
             (case FetchPage (tmHeapFile meta) pageID of
                (hf, Inl err) \<Rightarrow> (setHeap table hf e, Inl err)
              | (hf, Inr page) \<Rightarrow>
                  (setHeap table hf e,
                   if length (Data page) < 4 + slotID * 4 + 4 then
                     Inl (Errorf ''slot %d out of bounds'' [ArgInt (int slotID)])
                   else if slotLen slotID page = 0 then
                     Inl (Errorf ''row %d has been deleted'' [ArgInt (uint rid)])
                   else if slotOff slotID page + slotLen slotID page > length (Data page) then
                     Inl (Errorf ''row data out of bounds'' [])
                   else Deserialize (bslice (slotOff slotID page) (slotLen slotID page) (Data page),
                                     drop (slotOff slotID page + slotLen slotID page) (Data page))))))"

datatype 'a walk = Found 'a | Passed | Exhausted

text \<open>The steps of \<^verbatim>\<open>btreeIterator.Next\<close> inside one leaf: over the keys from the current index on.\<close>

fun Seek_node :: "(val \<times> 64 word) list \<Rightarrow> btreeIterator \<Rightarrow> engine \<Rightarrow>
    engine \<times> (btreeIterator \<times> (rowID \<times> row) walk) res" where
  "Seek_node [] it e = (e, Inr (it, Exhausted))"
| "Seek_node ((k, ptr) # rest) it e =
     (case Compare k (seekKey it) of
        Inl err \<Rightarrow> (e, Inl err)
      | Inr c \<Rightarrow>
          if c > 0 then (e, Inr (it, Passed))
          else let it1 = it\<lparr>currIdx := Suc (currIdx it)\<rparr> in
            if c = 0 then
              (case fetchRowByID (bitTable it) ptr e of
                 (e1, Inl err) \<Rightarrow> if abnormal err then (e1, Inl err) else Seek_node rest it1 e1
               | (e1, Inr r) \<Rightarrow>
                   (case isVisible (bitTxn it) (Xmin r) (Xmax r) e1 of
                      (e2, Inl err) \<Rightarrow> (e2, Inl err)
                    | (e2, Inr vis) \<Rightarrow>
                        if vis then (e2, Inr (it1, Found (ptr, r))) else Seek_node rest it1 e2))
            else Seek_node rest it1 e)"

text \<open>From leaf to leaf.  The fuel bounds the number of leaves as in \<open>findLeaf\<close>.\<close>

fun Seek_fuel :: "nat \<Rightarrow> btreeIterator \<Rightarrow> engine \<Rightarrow>
    engine \<times> (btreeIterator \<times> (rowID \<times> row) option) res" where
  "Seek_fuel 0 it e = (e, Inl Diverges)"
| "Seek_fuel (Suc n) it e =
     (case currNode it of
        None \<Rightarrow> (e, Inr (it, None))
      | Some node \<Rightarrow>
          (case Seek_node (drop (currIdx it) (zip (Keys node) (Pointers node))) it e of
             (e1, Inl err) \<Rightarrow> (e1, Inl err)
           | (e1, Inr (it1, Found r)) \<Rightarrow> (e1, Inr (it1, Some r))
           | (e1, Inr (it1, Passed)) \<Rightarrow> (e1, Inr (it1, None))
           | (e1, Inr (it1, Exhausted)) \<Rightarrow>
               if NextLeaf node = -1 then (e1, Inr (it1, None))
               else (case fetchNode (indexFile e1) (NextLeaf node) of
                   (ix, Inl err) \<Rightarrow> (e1\<lparr>indexFile := ix\<rparr>, Inl err)
                 | (ix, Inr nextNode) \<Rightarrow>
                     Seek_fuel n (it1\<lparr>currNode := Some nextNode, currIdx := 0\<rparr>) (e1\<lparr>indexFile := ix\<rparr>))))"

definition Seek_Next :: "btreeIterator \<Rightarrow> engine \<Rightarrow> engine \<times> (btreeIterator \<times> (rowID \<times> row) option) res" where
  "Seek_Next it e = Seek_fuel (pageCount (indexFile e) + 2) it e"

section \<open>Creating an index\<close>

definition HasIndex :: "string \<Rightarrow> string \<Rightarrow> engine \<Rightarrow> engine \<times> bool res" where
  "HasIndex table column = withLock (\<lambda>e.
     case GetTable (catalog e) table of
       Inl _ \<Rightarrow> (e, Inr False)
     | Inr meta \<Rightarrow> (e, Inr (map_of (IndexRoots meta) column \<noteq> None)))"

text \<open>The empty root of a new index: written to the file and put into the pool.\<close>

definition newIndexRoot :: "heapFile \<Rightarrow> heapFile \<times> nat res" where
  "newIndexRoot ix =
     (let rootPageID = getPageCount (fileBytes ix) in
      case writeNodeToBytes (NewLeafNode rootPageID) (replicate PageSize 0) of
        Inl err \<Rightarrow> (ix, Inl err)
      | Inr pageData \<Rightarrow>
          (case FetchPage (ix\<lparr>fileBytes := writePage (fileBytes ix) rootPageID (zeroPage\<lparr>Data := pageData\<rparr>)\<rparr>) rootPageID of
             (ix1, Inl err) \<Rightarrow> (ix1, Inl err)
           | (ix1, Inr cachedPage) \<Rightarrow>
               (putPage ix1 rootPageID (cachedPage\<lparr>Data := pageData\<rparr>), Inr rootPageID)))"

text \<open>The loop that enters the existing rows.\<close>

fun indexRows :: "nat \<Rightarrow> string \<Rightarrow> string \<Rightarrow> nat \<Rightarrow> heapFileIterator \<Rightarrow> engine \<Rightarrow> engine \<times> unit res" where
  "indexRows 0 table column colIdx it e = (e, Inl Diverges)"
| "indexRows (Suc n) table column colIdx it e =
     (case Next it e of
        (e1, Inl err) \<Rightarrow> (e1, Inl err)
      | (e1, Inr (it1, None)) \<Rightarrow> (e1, Inr ())
      | (e1, Inr (it1, Some (rid, r))) \<Rightarrow>
          if length (Values r) \<le> colIdx then (e1, Inl (Panic ''index out of range''))
          else if vNull (Values r ! colIdx) then indexRows n table column colIdx it1 e1
          else (case insertIntoIndexLocked table column (Values r ! colIdx) rid e1 of
              (e2, Inl err) \<Rightarrow>
                (e2, Inl (if abnormal err then err
                  else Wrapf ''failed to insert existing row into index: %w'' [] err))
            | (e2, Inr _) \<Rightarrow> indexRows n table column colIdx it1 e2))"

definition CreateIndex :: "string \<Rightarrow> string \<Rightarrow> engine \<Rightarrow> engine \<times> unit res" where
  "CreateIndex table column = withLock (\<lambda>e.
     case GetTable (catalog e) table of
       Inl err \<Rightarrow> (e, Inl err)
     | Inr meta \<Rightarrow>
         if map_of (IndexRoots meta) column \<noteq> None then
           (e, Inl (Errorf ''index on %s.%s already exists'' [ArgStr table, ArgStr column]))
         else (case newIndexRoot (indexFile e) of
             (ix, Inl err) \<Rightarrow> (e\<lparr>indexFile := ix\<rparr>, Inl err)
           | (ix, Inr rootPageID) \<Rightarrow>
               let e1 = updTable table (\<lambda>m. m\<lparr>IndexRoots := AList.update column rootPageID (IndexRoots m)\<rparr>)
                          (e\<lparr>indexFile := ix\<rparr>);
                   colIdx = ColumnIndex (tmSchema meta) column
               in if colIdx < 0 then
                    (e1, Inl (Errorf ''column %s not found in schema'' [ArgStr column]))
                  else (case scanTable table e1 of
                      Inl err \<Rightarrow> (e1, Inl err)
                    | Inr iter \<Rightarrow>
                        (case indexRows (iterFuel iter) table column (nat colIdx) iter e1 of
                           (e2, Inl err) \<Rightarrow> (e2, Inl err)
                         | (e2, Inr _) \<Rightarrow> (saveCatalog e2, Inr ())))))"

section \<open>Statistics\<close>

definition valuesEqual :: "val \<Rightarrow> val \<Rightarrow> bool" where
  "valuesEqual a b =
     (if vNull a \<noteq> vNull b then False
      else if vNull a \<and> vNull b then True
      else if vType a \<noteq> vType b then False
      else case vType a of
        TypeInt \<Rightarrow> vInt a = vInt b | TypeBool \<Rightarrow> vBool a = vBool b | TypeText \<Rightarrow> vStr a = vStr b)"

text \<open>A missing map entry reads as the zero struct.\<close>

definition zeroColumnStats :: columnStats where
  "zeroColumnStats = \<lparr>DistinctCount = 0, NullCount = 0, statMin = zeroValue, statMax = zeroValue\<rparr>"

definition colStatsOf :: "(string \<rightharpoonup> columnStats) \<Rightarrow> string \<Rightarrow> columnStats" where
  "colStatsOf m name = (case m name of None \<Rightarrow> zeroColumnStats | Some c \<Rightarrow> c)"

definition analyzeValue :: "val \<Rightarrow> columnStats \<Rightarrow> columnStats" where
  "analyzeValue v c =
     (if vNull v then c\<lparr>NullCount := NullCount c + 1\<rparr>
      else let c1 = (if vNull (statMin c) \<or> Compare v (statMin c) = Inr (-1) then c\<lparr>statMin := v\<rparr> else c)
        in if vNull (statMax c1) \<or> Compare v (statMax c1) = Inr 1 then c1\<lparr>statMax := v\<rparr> else c1)"

type_synonym analysis = "(string \<rightharpoonup> columnStats) \<times> (string \<rightharpoonup> string set)"

fun analyzeRow :: "val list \<Rightarrow> nat \<Rightarrow> column list \<Rightarrow> analysis \<Rightarrow> analysis res" where
  "analyzeRow vals i [] a = Inr a"
| "analyzeRow vals i (col # cols) (stats, seen) =
     (if length vals \<le> i then Inl (Panic ''index out of range'')
      else let v = vals ! i; name = colName col;
             seen1 = (if vNull v then seen
                      else seen(name \<mapsto> insert (Value_String v) (case seen name of None \<Rightarrow> {} | Some s \<Rightarrow> s)))
        in analyzeRow vals (Suc i) cols (stats(name \<mapsto> analyzeValue v (colStatsOf stats name)), seen1))"

text \<open>The loop over the rows; an error of \<^verbatim>\<open>Next\<close> ends it like the end of the table.\<close>

fun analyzeRows :: "nat \<Rightarrow> column list \<Rightarrow> heapFileIterator \<Rightarrow> nat \<Rightarrow> analysis \<Rightarrow> engine \<Rightarrow>
    engine \<times> (nat \<times> analysis) res" where
  "analyzeRows 0 cols it cnt a e = (e, Inl Diverges)"
| "analyzeRows (Suc n) cols it cnt a e =
     (case Next it e of
        (e1, Inl err) \<Rightarrow> if abnormal err then (e1, Inl err) else (e1, Inr (cnt, a))
      | (e1, Inr (it1, None)) \<Rightarrow> (e1, Inr (cnt, a))
      | (e1, Inr (it1, Some (rid, r))) \<Rightarrow>
          (case analyzeRow (Values r) 0 cols a of
             Inl err \<Rightarrow> (e1, Inl err)
           | Inr a1 \<Rightarrow> analyzeRows n cols it1 (Suc cnt) a1 e1))"

definition setDistinct :: "column list \<Rightarrow> analysis \<Rightarrow> string \<rightharpoonup> columnStats" where
  "setDistinct cols a =
     foldl (\<lambda>stats col.
       stats(colName col \<mapsto> (colStatsOf stats (colName col))\<lparr>
         DistinctCount := card (case snd a (colName col) of None \<Rightarrow> {} | Some s \<Rightarrow> s)\<rparr>)) (fst a) cols"

definition Analyze :: "txnID \<Rightarrow> string \<Rightarrow> engine \<Rightarrow> engine \<times> unit res" where
  "Analyze txn table e =
     (case withLock (\<lambda>e. (e, GetTable (catalog e) table)) e of
        (e1, Inl err) \<Rightarrow> (e1, Inl err)
      | (e1, Inr meta) \<Rightarrow>
          (case Scan txn table e1 of
             (e2, Inl err) \<Rightarrow> (e2, Inl err)
           | (e2, Inr iter) \<Rightarrow>
               let cols = Columns (tmSchema meta) in
               (case analyzeRows (iterFuel iter) cols iter 0 (Map.empty, Map.empty) e2 of
                  (e3, Inl err) \<Rightarrow> (e3, Inl err)
                | (e3, Inr (cnt, a)) \<Rightarrow>
                    withLock (\<lambda>e. (updTable table (\<lambda>m. m\<lparr>tmStats :=
                      Some \<lparr>RowCount = cnt, statColumns = setDistinct cols a\<rparr>\<rparr>) e, Inr ())) e3)))"

definition Stats :: "string \<Rightarrow> engine \<Rightarrow> engine \<times> tableStats option res" where
  "Stats table = withLock (\<lambda>e.
     case GetTable (catalog e) table of Inl _ \<Rightarrow> (e, Inr None) | Inr meta \<Rightarrow> (e, Inr (tmStats meta)))"

end
