(* ===== verification/EngineScan.thy ===== *)
theory EngineScan
  imports Engine
begin

text \<open>
  Scans of the storage engine.  \<open>versions\<close> is the list of row versions that a heap file holds, in
  storage order, and \<open>snapshot\<close> what a transaction may see of it.  The lemmas follow the iterator
  from call to call (\<open>rest\<close> is what it has still to visit) and show that a scan read to its end
  returns exactly the snapshot.
\<close>


section \<open>Versions of a table\<close>

declare Deserialize.simps [simp del]

definition decode_row :: "byte list \<Rightarrow> row" where
  "decode_row bs = (case Deserialize (bs, []) of Inr r \<Rightarrow> r | Inl _ \<Rightarrow> zeroRow)"

definition row_bytes :: "byte list \<Rightarrow> bool" where
  "row_bytes bs \<longleftrightarrow> (\<exists>r. storable r \<and> stored_row r = r \<and> bs = Serialize r)"

definition versions :: "heapFile \<Rightarrow> (rowID \<times> row) list" where
  "versions hf = map (\<lambda>(rid, bs). (rid, decode_row bs)) (heap_entries hf)"

definition rows_inv :: "heapFile \<Rightarrow> bool" where
  "rows_inv hf \<longleftrightarrow> heap_inv hf \<and> (\<forall>(rid, bs) \<in> set (heap_entries hf). row_bytes bs)"

lemma decode_Serialize [simp]: "storable r \<Longrightarrow> decode_row (Serialize r) = stored_row r"
  by (simp add: decode_row_def Deserialize_Serialize)

lemma length_Serialize: "16 \<le> length (Serialize r)"
  by (simp add: Serialize_def)

lemma row_bytes_decode:
  assumes "row_bytes bs"
  shows "Deserialize (bs, sp) = Inr (decode_row bs)" and "bs \<noteq> []"
proof -
  from assms obtain r where r: "storable r" "stored_row r = r" "bs = Serialize r" by (auto simp: row_bytes_def)
  then show "Deserialize (bs, sp) = Inr (decode_row bs)" by (simp add: Deserialize_Serialize)
  show "bs \<noteq> []" using length_Serialize [of r] r by auto
qed

section \<open>Lookup in the catalog\<close>

definition tableOf :: "engine \<Rightarrow> string \<rightharpoonup> tableMetadata" where
  "tableOf e = map_of (catalog e)"

lemma setHeap_sel [simp]:
  "mu (setHeap t hf e) = mu e" "nextTx (setHeap t hf e) = nextTx e"
  "activeTxns (setHeap t hf e) = activeTxns e" "committed (setHeap t hf e) = committed e"
  "txnSnapshots (setHeap t hf e) = txnSnapshots e" "indexFile (setHeap t hf e) = indexFile e"
  "committed_for (setHeap t hf e) x = committed_for e x"
  by (simp_all add: setHeap_def updTable_def committed_for_def split: option.splits)

lemma tableOf_setHeap:
  "tableOf e t = Some meta \<Longrightarrow> tableOf (setHeap t hf e) = (tableOf e)(t \<mapsto> meta\<lparr>tmHeapFile := hf\<rparr>)"
  by (simp add: tableOf_def setHeap_def updTable_def update_conv')

lemma setHeap_setHeap [simp]: "setHeap t hf (setHeap t hf' e) = setHeap t hf e"
  by (simp add: setHeap_def updTable_def update_conv' split: option.splits)

lemma GetTable_eq: "GetTable (catalog e) t =
    (case tableOf e t of None \<Rightarrow> Inl (Errorf ''table %q does not exist'' [ArgStr t]) | Some meta \<Rightarrow> Inr meta)"
  by (simp add: GetTable_def tableOf_def)

text \<open>An engine that differs only in what the pool of one table has cached.\<close>

definition cache_step :: "string \<Rightarrow> engine \<Rightarrow> engine \<Rightarrow> bool" where
  "cache_step t e e' \<longleftrightarrow>
     (\<exists>meta hf'. tableOf e t = Some meta \<and> same_view (tmHeapFile meta) hf' \<and> e' = setHeap t hf' e)"

lemma cache_step_trans:
  assumes "cache_step t e e1" and "cache_step t e1 e2" shows "cache_step t e e2"
proof -
  from assms(1) obtain meta h where h: "tableOf e t = Some meta" "same_view (tmHeapFile meta) h" "e1 = setHeap t h e"
    by (auto simp: cache_step_def)
  with assms(2) obtain h' where "same_view h h'" "e2 = setHeap t h' e1" by (auto simp: cache_step_def tableOf_setHeap)
  moreover with h(2) have "same_view (tmHeapFile meta) h'" by (simp add: same_view_def)
  ultimately show ?thesis using h unfolding cache_step_def by auto
qed

lemma cache_stepD:
  assumes "cache_step t e e'" and "tableOf e t = Some meta"
  obtains hf' where "same_view (tmHeapFile meta) hf'" and "e' = setHeap t hf' e"
    and "tableOf e' t = Some (meta\<lparr>tmHeapFile := hf'\<rparr>)"
  using assms by (auto simp: cache_step_def tableOf_setHeap)

lemma same_view_heap:
  assumes "same_view hf hf'"
  shows "heap_entries hf' = heap_entries hf" and "versions hf' = versions hf"
    and "heap_inv hf \<Longrightarrow> heap_inv hf'" and "rows_inv hf \<Longrightarrow> rows_inv hf'"
proof -
  show 1: "heap_entries hf' = heap_entries hf" using assms by (simp add: same_view_def heap_entries_def)
  then show "versions hf' = versions hf" by (simp add: versions_def)
  show "heap_inv hf \<Longrightarrow> heap_inv hf'" using assms by (simp add: same_view_def heap_inv_def)
  with 1 show "rows_inv hf \<Longrightarrow> rows_inv hf'" by (simp add: rows_inv_def)
qed

section \<open>Scans\<close>

definition slot_row :: "page \<Rightarrow> nat \<Rightarrow> row" where
  "slot_row p s = decode_row (page_rows p ! s)"

text \<open>The versions that an iterator has still to visit, and the ones of them that it returns.\<close>

definition rest :: "heapFile \<Rightarrow> heapFileIterator \<Rightarrow> (rowID \<times> row) list" where
  "rest hf it = concat (map (\<lambda>p. map (\<lambda>s. (encodeRowID p s, slot_row (pageAt hf p) s))
     [(if p = currPage it then currSlot it else 0)..<slotCount (pageAt hf p)]) [currPage it..<itPageCount it])"

definition sees :: "heapFileIterator \<Rightarrow> engine \<Rightarrow> row \<Rightarrow> bool" where
  "sees it e r \<longleftrightarrow> itRaw it \<or> visible (committed_for e (itTxn it)) (itTxn it) (Xmin r) (Xmax r)"

lemma slot_readable:
  assumes "rows_inv hf" and "p < pageCount hf" and "s < slotCount (pageAt hf p)"
  defines "pg \<equiv> pageAt hf p"
  shows "4 + s * 4 + 4 \<le> length (Data pg)" and "slotLen s pg \<noteq> 0"
    and "slotOff s pg + slotLen s pg \<le> length (Data pg)"
    and "Deserialize (bslice (slotOff s pg) (slotLen s pg) (Data pg), sp) = Inr (slot_row pg s)"
proof -
  have wf: "wf_page pg" using assms(1,2) by (simp add: rows_inv_def heap_inv_def pg_def)
  have s: "s < slotCount pg" using assms(3) by (simp add: pg_def)
  have "(encodeRowID p s, page_rows pg ! s) \<in> set (heap_entries hf)"
    using assms(2) s by (force simp: heap_entries_def page_entries_def pg_def)
  then have rb: "row_bytes (page_rows pg ! s)" using assms(1) by (auto simp: rows_inv_def)
  have eq: "page_rows pg ! s = bslice (slotOff s pg) (slotLen s pg) (Data pg)"
    using s by (simp add: nth_page_rows slotBytes_def)
  show "slotLen s pg \<noteq> 0" using row_bytes_decode(2) [OF rb] eq by (auto simp: bslice_def)
  show "Deserialize (bslice (slotOff s pg) (slotLen s pg) (Data pg), sp) = Inr (slot_row pg s)"
    using row_bytes_decode(1) [OF rb] by (simp add: slot_row_def eq)
  show "4 + s * 4 + 4 \<le> length (Data pg)" using wf s by (auto simp: wf_page_def)
  show "slotOff s pg + slotLen s pg \<le> length (Data pg)" using wf s by (auto simp: wf_page_def)
qed

text \<open>The slots of one page: up to the first row that is returned.\<close>

lemma Next_slots_ok:
  assumes rows: "rows_inv hf" and p: "p < pageCount hf" "currPage it = p"
    and lock: "itRaw it \<or> \<not> mu e"
  shows "\<exists>it' r. Next_slots (pageAt hf p) [a..<slotCount (pageAt hf p)] it e = (e, Inr (it', r)) \<and>
    currPage it' = p \<and> itTable it' = itTable it \<and> itTxn it' = itTxn it \<and> itRaw it' = itRaw it \<and>
    itPageCount it' = itPageCount it \<and>
    (let vs = (\<lambda>a. filter (sees it e \<circ> snd) (map (\<lambda>s. (encodeRowID p s, slot_row (pageAt hf p) s)) [a..<slotCount (pageAt hf p)])) in
     case r of None \<Rightarrow> vs a = [] | Some x \<Rightarrow> vs a = x # vs (currSlot it') \<and> a < currSlot it' \<and> currSlot it' \<le> slotCount (pageAt hf p))"
  using p(2) lock
proof (induction "slotCount (pageAt hf p) - a" arbitrary: a it)
  case 0
  then have "[a..<slotCount (pageAt hf p)] = []" by simp
  with 0 show ?case by (intro exI [of _ it] exI [of _ None]) (simp add: Let_def)
next
  case (Suc n)
  let ?pg = "pageAt hf p" and ?it = "it\<lparr>currSlot := Suc a\<rparr>"
  have a: "a < slotCount ?pg" using Suc.hyps(2) by simp
  then have upt: "[a..<slotCount ?pg] = a # [Suc a..<slotCount ?pg]" by (rule upt_conv_Cons)
  note R = slot_readable [OF rows p(1) a]
  have sees_it: "sees ?it e = sees it e" by (simp add: sees_def fun_eq_iff)
  have run: "Next_slots ?pg [a..<slotCount ?pg] it e =
      (if sees it e (slot_row ?pg a) then (e, Inr (?it, Some (encodeRowID p a, slot_row ?pg a)))
       else Next_slots ?pg [Suc a..<slotCount ?pg] ?it e)"
    using R Suc.prems unfolding upt by (auto simp: sees_def isVisible_eq Let_def)
  show ?case
  proof (cases "sees it e (slot_row ?pg a)")
    case True
    with run a Suc.prems show ?thesis
      by (intro exI [of _ ?it] exI [of _ "Some (encodeRowID p a, slot_row ?pg a)"]) (simp add: Let_def upt)
  next
    case False
    have "n = slotCount ?pg - Suc a" using Suc.hyps(2) by simp
    from Suc.hyps(1) [OF this, of ?it] Suc.prems obtain it' r where
      I: "Next_slots ?pg [Suc a..<slotCount ?pg] ?it e = (e, Inr (it', r))" "currPage it' = p"
      "itTable it' = itTable it" "itTxn it' = itTxn it" "itRaw it' = itRaw it" "itPageCount it' = itPageCount it"
      "let vs = (\<lambda>a. filter (sees it e \<circ> snd) (map (\<lambda>s. (encodeRowID p s, slot_row ?pg s)) [a..<slotCount ?pg])) in
       case r of None \<Rightarrow> vs (Suc a) = [] | Some x \<Rightarrow> vs (Suc a) = x # vs (currSlot it') \<and> Suc a < currSlot it' \<and> currSlot it' \<le> slotCount ?pg"
      unfolding sees_it by auto
    with False run show ?thesis
      by (intro exI [of _ it'] exI [of _ r]) (auto simp: Let_def upt split: option.splits)
  qed
qed


lemma setHeap_same: "tableOf e t = Some meta \<Longrightarrow> setHeap t (tmHeapFile meta) e = e"
  by (cases e) (simp add: setHeap_def updTable_def tableOf_def update_triv)

lemma cache_step_refl: "tableOf e t = Some meta \<Longrightarrow> pool_inv (tmHeapFile meta) \<Longrightarrow> cache_step t e e"
  by (auto simp: cache_step_def same_view_def intro!: exI [of _ "tmHeapFile meta"] setHeap_same [symmetric])

definition page_rest :: "heapFile \<Rightarrow> nat \<Rightarrow> nat \<Rightarrow> (rowID \<times> row) list" where
  "page_rest hf p a = map (\<lambda>s. (encodeRowID p s, slot_row (pageAt hf p) s)) [a..<slotCount (pageAt hf p)]"

lemma rest_unfold:
  assumes "currPage it < itPageCount it"
  shows "rest hf it = page_rest hf (currPage it) (currSlot it) @
    rest hf (it\<lparr>currPage := Suc (currPage it), currSlot := 0\<rparr>)"
proof -
  have "rest hf (it\<lparr>currPage := Suc (currPage it), currSlot := 0\<rparr>) =
      concat (map (\<lambda>p. page_rest hf p 0) [Suc (currPage it)..<itPageCount it])"
    by (auto simp: rest_def page_rest_def intro!: arg_cong [where f = concat])
  moreover have "rest hf it = page_rest hf (currPage it) (currSlot it) @
      concat (map (\<lambda>p. page_rest hf p 0) [Suc (currPage it)..<itPageCount it])"
    by (auto simp: rest_def page_rest_def upt_conv_Cons [OF assms] intro!: arg_cong [where f = concat])
  ultimately show ?thesis by simp
qed

lemma rest_end: "itPageCount it \<le> currPage it \<Longrightarrow> rest hf it = []"
  by (simp add: rest_def)

text \<open>The fields of an iterator that never change.\<close>

definition same_scan :: "heapFileIterator \<Rightarrow> heapFileIterator \<Rightarrow> bool" where
  "same_scan it it' \<longleftrightarrow> itTable it' = itTable it \<and> itTxn it' = itTxn it \<and> itRaw it' = itRaw it \<and>
     itPageCount it' = itPageCount it"

lemma sees_cong: "same_scan it it' \<Longrightarrow> sees it' e = sees it e"
  by (simp add: same_scan_def sees_def fun_eq_iff)

lemma sees_cache_step: "cache_step t e e' \<Longrightarrow> sees it e' = sees it e"
  by (auto simp: cache_step_def sees_def fun_eq_iff)

lemma rest_same_view: "same_view hf hf' \<Longrightarrow> rest hf' it = rest hf it"
  by (simp add: rest_def same_view_def)

definition next_spec :: "engine \<Rightarrow> heapFile \<Rightarrow> heapFileIterator \<Rightarrow> heapFileIterator \<Rightarrow> (rowID \<times> row) option \<Rightarrow> bool" where
  "next_spec e hf it it' r \<longleftrightarrow> same_scan it it' \<and>
     (case r of
        None \<Rightarrow> filter (sees it e \<circ> snd) (rest hf it) = [] \<and> rest hf it' = []
      | Some x \<Rightarrow> filter (sees it e \<circ> snd) (rest hf it) = x # filter (sees it e \<circ> snd) (rest hf it') \<and>
          length (rest hf it') < length (rest hf it))"

lemma Next_ok:
  assumes "tableOf e (itTable it) = Some meta" and "rows_inv (tmHeapFile meta)"
    and "itPageCount it \<le> pageCount (tmHeapFile meta)" and "itRaw it \<or> \<not> mu e"
  shows "\<exists>e' it' r. Next it e = (e', Inr (it', r)) \<and> cache_step (itTable it) e e' \<and>
    next_spec e (tmHeapFile meta) it it' r"
  using assms
proof (induction "itPageCount it - currPage it" arbitrary: it e meta)
  case 0
  then have "[currPage it..<itPageCount it] = []" "rest (tmHeapFile meta) it = []" by (simp_all add: rest_end)
  with 0 show ?case
    by (intro exI [of _ e] exI [of _ it] exI [of _ None])
      (simp add: Next_def next_spec_def same_scan_def cache_step_refl rows_inv_def heap_inv_def)
next
  case (Suc n)
  let ?hf = "tmHeapFile meta" and ?p = "currPage it" and ?t = "itTable it"
  let ?it = "it\<lparr>currPage := Suc ?p, currSlot := 0\<rparr>"
  have p: "?p < itPageCount it" "?p < pageCount ?hf" using Suc.hyps(2) Suc.prems(3) by simp_all
  then have upt: "[?p..<itPageCount it] = ?p # [Suc ?p..<itPageCount it]" by (simp add: upt_conv_Cons)
  have inv: "pool_inv ?hf" using Suc.prems(2) by (simp add: rows_inv_def heap_inv_def)
  from bp.fetch_cases [OF inv, of ?p] obtain h where h: "FetchPage ?hf ?p = (h, Inr (pageAt ?hf ?p))"
    "pool_inv h" "pageAt h = pageAt ?hf" "pageCount h = pageCount ?hf" .
  let ?e = "setHeap ?t h e"
  have view: "same_view ?hf h" using h by (simp add: same_view_def)
  have step: "cache_step ?t e ?e" using Suc.prems(1) view by (auto simp: cache_step_def)
  have sees: "sees i ?e = sees i e" for i by (rule sees_cache_step [OF step])
  from Next_slots_ok [OF Suc.prems(2) p(2) refl, of ?e "currSlot it"] Suc.prems(4) obtain it' r where
    I: "Next_slots (pageAt ?hf ?p) [currSlot it..<slotCount (pageAt ?hf ?p)] it ?e = (?e, Inr (it', r))"
    "currPage it' = ?p" "same_scan it it'"
    "case r of None \<Rightarrow> filter (sees it e \<circ> snd) (page_rest ?hf ?p (currSlot it)) = []
     | Some x \<Rightarrow> filter (sees it e \<circ> snd) (page_rest ?hf ?p (currSlot it)) =
         x # filter (sees it e \<circ> snd) (page_rest ?hf ?p (currSlot it')) \<and> currSlot it < currSlot it' \<and>
         currSlot it' \<le> slotCount (pageAt ?hf ?p)"
    unfolding sees Let_def page_rest_def same_scan_def by auto
  have it': "it'\<lparr>currPage := Suc ?p, currSlot := 0\<rparr> = ?it" using I(2,3)
    by (cases it, cases it') (simp add: same_scan_def)
  have here: "map_of (catalog e) ?t = Some meta" using Suc.prems(1) by (simp add: tableOf_def)
  show ?case
  proof (cases r)
    case (Some x)
    have run: "Next it e = (?e, Inr (it', Some x))"
      using here h(1) I(1) Some by (simp add: Next_def upt)
    have "currPage it' < itPageCount it'" using p I(2,3) by (simp add: same_scan_def)
    from rest_unfold [OF this] have rest': "rest ?hf it' = page_rest ?hf ?p (currSlot it') @ rest ?hf ?it"
      by (simp add: I(2) it')
    have "next_spec e ?hf it it' (Some x)"
      using I(3,4) Some unfolding next_spec_def rest' rest_unfold [OF p(1)]
      by (simp add: page_rest_def) linarith
    with run step show ?thesis by blast
  next
    case None
    have tbl: "tableOf ?e (itTable ?it) = Some (meta\<lparr>tmHeapFile := h\<rparr>)"
      using Suc.prems(1) by (simp add: tableOf_setHeap)
    have "n = itPageCount ?it - currPage ?it" using Suc.hyps(2) by simp
    from Suc.hyps(1) [OF this tbl] Suc.prems h(4) same_view_heap(4) [OF view] obtain e2 it2 r2 where
      J: "Next ?it ?e = (e2, Inr (it2, r2))" "cache_step ?t ?e e2" "next_spec ?e h ?it it2 r2" by auto
    have run: "Next it e = Next ?it ?e"
      using here h(1) I(1) None it' by (simp add: Next_def upt)
    have "next_spec e ?hf it it2 r2"
      using J(3) I(4) None sees_cong [of it ?it e] unfolding next_spec_def sees rest_same_view [OF view] rest_unfold [OF p(1)]
      by (auto simp: same_scan_def split: option.splits)
    with run J cache_step_trans [OF step J(2)] show ?thesis by metis
  qed
qed


text \<open>The loop in which every client reads an iterator to its end.\<close>

fun drain :: "nat \<Rightarrow> heapFileIterator \<Rightarrow> engine \<Rightarrow> engine \<times> (rowID \<times> row) list res" where
  "drain 0 it e = (e, Inl Diverges)"
| "drain (Suc n) it e =
     (case Next it e of
        (e1, Inl err) \<Rightarrow> (e1, Inl err)
      | (e1, Inr (it1, None)) \<Rightarrow> (e1, Inr [])
      | (e1, Inr (it1, Some x)) \<Rightarrow>
          (case drain n it1 e1 of (e2, Inl err) \<Rightarrow> (e2, Inl err) | (e2, Inr xs) \<Rightarrow> (e2, Inr (x # xs))))"

definition scanAll :: "txnID \<Rightarrow> string \<Rightarrow> engine \<Rightarrow> engine \<times> (rowID \<times> row) list res" where
  "scanAll txn table e =
     (case Scan txn table e of
        (e1, Inl err) \<Rightarrow> (e1, Inl err)
      | (e1, Inr it) \<Rightarrow> drain (iterFuel it) it e1)"

lemma drain_ok:
  assumes "tableOf e (itTable it) = Some meta" and "rows_inv (tmHeapFile meta)"
    and "itPageCount it \<le> pageCount (tmHeapFile meta)" and "itRaw it \<or> \<not> mu e"
    and "length (rest (tmHeapFile meta) it) < n"
  shows "\<exists>e'. drain n it e = (e', Inr (filter (sees it e \<circ> snd) (rest (tmHeapFile meta) it))) \<and>
    cache_step (itTable it) e e'"
  using assms
proof (induction n arbitrary: it e meta)
  case 0
  then show ?case by simp
next
  case (Suc n)
  let ?hf = "tmHeapFile meta"
  from Next_ok [OF Suc.prems(1-4)] obtain e1 it1 r where
    N: "Next it e = (e1, Inr (it1, r))" "cache_step (itTable it) e e1" "next_spec e ?hf it it1 r" by blast
  show ?case
  proof (cases r)
    case None
    with N show ?thesis by (intro exI [of _ e1]) (simp add: next_spec_def comp_def)
  next
    case (Some x)
    from cache_stepD [OF N(2) Suc.prems(1)] obtain h where
      h: "same_view ?hf h" "e1 = setHeap (itTable it) h e" "tableOf e1 (itTable it) = Some (meta\<lparr>tmHeapFile := h\<rparr>)" .
    have sc: "same_scan it it1" using N(3) by (simp add: next_spec_def)
    have rest: "rest h i = rest ?hf i" for i by (rule rest_same_view [OF h(1)])
    have "tableOf e1 (itTable it1) = Some (meta\<lparr>tmHeapFile := h\<rparr>)" "rows_inv h" "itPageCount it1 \<le> pageCount h"
      "itRaw it1 \<or> \<not> mu e1" "length (rest h it1) < n"
      using h sc Suc.prems same_view_heap(4) [OF h(1)] N(3) Some
      by (auto simp: same_scan_def same_viewD(3) [OF h(1)] next_spec_def rest)
    with Suc.IH [of e1 it1 "meta\<lparr>tmHeapFile := h\<rparr>"] obtain e2 where
      D: "drain n it1 e1 = (e2, Inr (filter (sees it1 e1 \<circ> snd) (rest h it1)))" "cache_step (itTable it1) e1 e2" by (auto simp: comp_def)
    have "sees it1 e1 = sees it e" using sees_cong [OF sc] sees_cache_step [OF N(2)] by simp
    moreover have "cache_step (itTable it) e e2"
      using cache_step_trans [OF N(2)] D(2) sc by (simp add: same_scan_def)
    ultimately show ?thesis using N D Some by (intro exI [of _ e2]) (simp add: next_spec_def rest comp_def)
  qed
qed

lemma rest_versions:
  assumes "rows_inv hf"
  shows "rest hf \<lparr>itTable = t, itTxn = x, itRaw = raw, itPageCount = pageCount hf, currPage = 0, currSlot = 0\<rparr> = versions hf"
proof -
  have "map (\<lambda>s. (encodeRowID p s, slot_row (pageAt hf p) s)) [0..<slotCount (pageAt hf p)] =
      map (\<lambda>(rid, bs). (rid, decode_row bs)) (page_entries p (pageAt hf p))" for p
    by (simp add: page_entries_def slot_row_def)
  then show ?thesis by (simp add: rest_def versions_def heap_entries_def map_concat comp_def cong: if_cong)
qed

lemma length_versions: "heap_inv hf \<Longrightarrow> length (versions hf) \<le> pageCount hf * 65536"
proof -
  assume "heap_inv hf"
  then have "slotCount (pageAt hf p) \<le> 65536" if "p < pageCount hf" for p
    using wf_page_slotCount [OF heap_invD(2) [OF _ that]] by simp
  then have "sum_list (map (\<lambda>p. slotCount (pageAt hf p)) [0..<pageCount hf]) \<le> sum_list (map (\<lambda>_. 65536) [0..<pageCount hf])"
    by (intro sum_list_mono) simp
  moreover have "length (versions hf) = sum_list (map (\<lambda>p. slotCount (pageAt hf p)) [0..<pageCount hf])"
    by (simp add: versions_def heap_entries_def page_entries_def length_concat comp_def)
  ultimately show ?thesis by (simp add: sum_list_triv)
qed

definition snapshot :: "engine \<Rightarrow> txnID \<Rightarrow> (rowID \<times> row) list \<Rightarrow> (rowID \<times> row) list" where
  "snapshot e txn vs = filter (\<lambda>(_, r). visible (committed_for e txn) txn (Xmin r) (Xmax r)) vs"

section \<open>A small database\<close>

text \<open>An engine with one empty table of one column, where transaction 1 has committed and
  transactions 2 and 3 are running.\<close>

definition demoMeta :: tableMetadata where
  "demoMeta = \<lparr>tmName = ''t'', tmSchema = \<lparr>Columns = [\<lparr>colName = ''id'', colType = TypeInt\<rparr>]\<rparr>,
     tmHeapFile = NewHeapFile [] (NewBufferPool 100 []), IndexRoots = [], tmStats = None\<rparr>"

definition demoEngine :: engine where
  "demoEngine = \<lparr>mu = False, nextTx = 3, activeTxns = {2, 3}, committed = {1}, txnSnapshots = [2 \<mapsto> {1}, 3 \<mapsto> {1}],
     catalog = [(''t'', demoMeta)], indexFile = NewHeapFile [] (NewBufferPool 100 []), leftFiles = [],
     savedCatalog = None, orders = []\<rparr>"

lemma demoEngine_ok:
  "tableOf demoEngine ''t'' = Some demoMeta" "rows_inv (tmHeapFile demoMeta)" "pageCount (tmHeapFile demoMeta) = 0"
  "versions (tmHeapFile demoMeta) = []" "IndexRoots demoMeta = []" "txn_inv demoEngine"
proof -
  show "tableOf demoEngine ''t'' = Some demoMeta" "IndexRoots demoMeta = []"
    by (simp_all add: tableOf_def demoEngine_def demoMeta_def)
  show 0: "pageCount (tmHeapFile demoMeta) = 0" by (simp add: demoMeta_def NewHeapFile_def getPageCount_def)
  then have "heap_entries (tmHeapFile demoMeta) = []" by (simp add: heap_entries_def)
  then show "rows_inv (tmHeapFile demoMeta)" "versions (tmHeapFile demoMeta) = []"
    using empty_heap [of 100 "[]"] by (simp_all add: rows_inv_def versions_def demoMeta_def)
  show "txn_inv demoEngine" by (auto simp: txn_inv_def demoEngine_def split: if_splits)
qed

section \<open>Properties\<close>

text \<open>C2: A sequential scan ends and returns exactly the row versions of the table that are visible to
  its transaction, each once and in storage order, and changes nothing but what is cached.\<close>

theorem scanAll_snapshot:
  assumes "tableOf e t = Some meta" and "rows_inv (tmHeapFile meta)" and "\<not> mu e"
  shows "\<exists>e'. scanAll txn t e = (e', Inr (snapshot e txn (versions (tmHeapFile meta)))) \<and> cache_step t e e'"
proof -
  let ?hf = "tmHeapFile meta"
  let ?it = "\<lparr>itTable = t, itTxn = txn, itRaw = False, itPageCount = pageCount ?hf, currPage = 0, currSlot = 0\<rparr>"
  have "heap_inv ?hf" using assms(2) by (simp add: rows_inv_def)
  with length_versions have "length (rest ?hf ?it) < iterFuel ?it"
    unfolding rest_versions [OF assms(2)] by (simp add: iterFuel_def less_Suc_eq_le)
  with drain_ok [of e ?it meta "iterFuel ?it"] assms obtain e' where
    "drain (iterFuel ?it) ?it e = (e', Inr (filter (sees ?it e \<circ> snd) (versions ?hf)))" "cache_step t e e'"
    by (auto simp: rest_versions [OF assms(2)] comp_def)
  moreover have "filter (sees ?it e \<circ> snd) (versions ?hf) = snapshot e txn (versions ?hf)"
    unfolding snapshot_def by (rule filter_cong) (auto simp: sees_def)
  moreover have "Scan txn t e = (e, Inr ?it)" using assms(1) by (simp add: Scan_def GetTable_eq)
  ultimately show ?thesis by (simp add: scanAll_def)
qed

theorem scanAll_snapshot_witness:
  "\<exists>e'. scanAll 2 ''t'' demoEngine = (e', Inr (snapshot demoEngine 2 (versions (tmHeapFile demoMeta)))) \<and>
    cache_step ''t'' demoEngine e'"
  by (rule scanAll_snapshot [OF demoEngine_ok(1,2)]) (simp add: demoEngine_def)

end
