(* ===== verification/EngineWrite.thy ===== *)
theory EngineWrite
  imports EngineScan
begin

text \<open>
  Writes of the storage engine.  The lemmas show what \<^verbatim>\<open>Insert\<close>, \<^verbatim>\<open>Update\<close> and \<^verbatim>\<open>Delete\<close> do to the
  versions of a table (one version added, one stamp set), that the indexes cannot change that, and
  what the writer and every other transaction see afterwards: the guarantees of snapshot isolation,
  and the place where two concurrent writers of one row get past the conflict check.
\<close>

section \<open>The indexes do not touch the tables\<close>

definition heapOf :: "engine \<Rightarrow> string \<rightharpoonup> heapFile" where
  "heapOf e t = map_option tmHeapFile (tableOf e t)"

text \<open>Two engines with the same tables and transactions: they differ in the indexes at most.\<close>

definition index_step :: "engine \<Rightarrow> engine \<Rightarrow> bool" where
  "index_step e e' \<longleftrightarrow> heapOf e' = heapOf e \<and> mu e' = mu e \<and> nextTx e' = nextTx e \<and>
     activeTxns e' = activeTxns e \<and> committed e' = committed e \<and> txnSnapshots e' = txnSnapshots e"

lemma index_step_refl [simp]: "index_step e e"
  by (simp add: index_step_def)

lemma index_step_trans: "index_step e e1 \<Longrightarrow> index_step e1 e2 \<Longrightarrow> index_step e e2"
  by (simp add: index_step_def)

lemma index_step_indexFile [simp]: "index_step e (e\<lparr>indexFile := ix\<rparr>)"
  by (simp add: index_step_def heapOf_def tableOf_def fun_eq_iff)

lemma index_step_saveCatalog [simp]: "index_step e (saveCatalog e)"
  by (simp add: index_step_def heapOf_def tableOf_def saveCatalog_def fun_eq_iff)

lemma index_step_updTable:
  "(\<And>m. tmHeapFile (f m) = tmHeapFile m) \<Longrightarrow> index_step e (updTable t f e)"
  by (auto simp: index_step_def heapOf_def tableOf_def updTable_def fun_eq_iff update_conv' split: option.splits)

lemma index_step_withLock:
  assumes "withLock body e = (e', r)" and "\<And>e1 e2 r. body e1 = (e2, r) \<Longrightarrow> index_step e1 e2"
  shows "index_step e e'"
proof (cases "mu e")
  case True
  with assms(1) show ?thesis by (simp add: withLock_def)
next
  case False
  then obtain e1 where "body (e\<lparr>mu := True\<rparr>) = (e1, r)" "e' = e1\<lparr>mu := False\<rparr>"
    using assms(1) by (auto simp: withLock_def split: prod.splits)
  moreover from assms(2) [OF this(1)] have "index_step (e\<lparr>mu := True\<rparr>) e1" .
  ultimately show ?thesis using False by (simp add: index_step_def heapOf_def tableOf_def fun_eq_iff)
qed

lemma index_step_insertBelow:
  assumes "insertBelow t col root key rid e = (e', r)" shows "index_step e e'"
proof -
  have cat: "index_step e e2" if "createNewRoot_catalog t col i e = (e2, r2)" for e e2 i r2
  proof -
    obtain e1 r1 where L: "withLock (\<lambda>e. case GetTable (catalog e) t of Inl err \<Rightarrow> (e, Inl err)
          | Inr meta \<Rightarrow> (updTable t (\<lambda>m. m\<lparr>IndexRoots := AList.update col i (IndexRoots m)\<rparr>) e, Inr ())) e = (e1, r1)"
      by fastforce
    have "index_step e e1"
      by (rule index_step_withLock [OF L]) (auto split: sum.splits intro: index_step_updTable)
    moreover have "e2 = e1 \<or> e2 = saveCatalog e1"
      using that L by (auto simp: createNewRoot_catalog_def split: sum.splits)
    ultimately show ?thesis using index_step_trans by fastforce
  qed
  obtain ix r' where "insertIntoTree (indexFile e) root key rid = (ix, r')" by fastforce
  with assms cat [where e = "e\<lparr>indexFile := ix\<rparr>"] index_step_trans [OF index_step_indexFile [of e ix]] show ?thesis
    by (auto simp: insertBelow_def split: sum.splits option.splits)
qed

lemma index_step_InsertIntoIndex:
  assumes "InsertIntoIndex t col key rid e = (e', r)" shows "index_step e e'"
proof -
  obtain e1 r1 where L: "getIndexRootPage t col e = (e1, r1)" by fastforce
  have "index_step e e1"
    by (rule index_step_withLock [OF L [unfolded getIndexRootPage_def]]) auto
  with assms L index_step_insertBelow [of t col _ key rid e1 e' r] index_step_trans show ?thesis
    by (auto simp: InsertIntoIndex_def split: sum.splits)
qed

lemma index_step_indexVersion: "indexVersion t rid vals i cols e = (e', r) \<Longrightarrow> index_step e e'"
proof (induction cols arbitrary: i e)
  case Nil
  then show ?case by simp
next
  case (Cons col cols)
  obtain e1 r1 where I: "InsertIntoIndex t (colName col) (vals ! i) rid e = (e1, r1)" by fastforce
  note S = index_step_InsertIntoIndex [OF I]
  show ?case
  proof (cases r1)
    case (Inl err)
    with Cons I S show ?thesis by (auto split: option.splits if_splits)
  next
    case (Inr u)
    with Cons I S index_step_trans [OF S] show ?thesis by (auto split: option.splits if_splits)
  qed
qed

section \<open>Insertion\<close>

lemma stored_row_sel [simp]:
  "Xmin (stored_row r) = Xmin r" "Xmax (stored_row r) = Xmax r" "Values (stored_row r) = map stored_value (Values r)"
  by (simp_all add: stored_row_def)

lemma stored_row_idem [simp]: "stored_row (stored_row r) = stored_row r"
  by (simp add: stored_row_def comp_def)

lemma stored_value_text:
  "vType (stored_value v) = TypeText \<Longrightarrow> vType v = TypeText \<and> vStr (stored_value v) = vStr v"
  by (auto simp: stored_value_def zeroValue_def split: if_splits columnType.splits)

lemma storable_stored: "storable r \<Longrightarrow> storable (stored_row r)"
  using stored_value_text by (fastforce simp: storable_def)

lemma Serialize_stored_value [simp]: "Serialize_value (stored_value v) = Serialize_value v"
  by (auto simp: Serialize_value_def stored_value_def zeroValue_def split: columnType.splits)

lemma Serialize_stored [simp]: "Serialize (stored_row r) = Serialize r"
  by (simp add: Serialize_def comp_def)

lemma row_bytes_Serialize: "storable r \<Longrightarrow> row_bytes (Serialize r)"
  unfolding row_bytes_def by (intro exI [of _ "stored_row r"]) (simp add: storable_stored)

text \<open>The version that an insertion writes.\<close>

definition newVersion :: "txnID \<Rightarrow> row \<Rightarrow> row" where
  "newVersion txn r = stored_row (r\<lparr>Xmin := txn, Xmax := 0\<rparr>)"

lemma newVersion_sel [simp]: "Xmin (newVersion txn r) = txn" "Xmax (newVersion txn r) = 0"
  by (simp_all add: newVersion_def)

lemma heapOf_setHeap: "tableOf e t = Some meta \<Longrightarrow> heapOf (setHeap t hf e) = (heapOf e)(t \<mapsto> hf)"
  by (auto simp: heapOf_def tableOf_setHeap fun_eq_iff)

lemma storable_stamps [simp]: "storable (r\<lparr>Xmin := a\<rparr>) = storable r" "storable (r\<lparr>Xmax := b\<rparr>) = storable r"
  by (simp_all add: storable_def)

lemma length_Serialize_stamps [simp]:
  "length (Serialize (r\<lparr>Xmin := a\<rparr>)) = length (Serialize r)"
  "length (Serialize (r\<lparr>Xmax := b\<rparr>)) = length (Serialize r)"
  by (simp_all add: Serialize_def)

text \<open>Nothing changes but one heap file and the indexes.\<close>

definition heap_step :: "string \<Rightarrow> heapFile \<Rightarrow> engine \<Rightarrow> engine \<Rightarrow> bool" where
  "heap_step t hf e e' \<longleftrightarrow> heapOf e' = (heapOf e)(t \<mapsto> hf) \<and> mu e' = mu e \<and> nextTx e' = nextTx e \<and>
     activeTxns e' = activeTxns e \<and> committed e' = committed e \<and> txnSnapshots e' = txnSnapshots e"

lemma heap_step_index:
  "heap_step t hf e e1 \<Longrightarrow> index_step e1 e2 \<Longrightarrow> heap_step t hf e e2"
  by (simp add: heap_step_def index_step_def)

lemma heap_step_setHeap: "tableOf e t = Some meta \<Longrightarrow> heap_step t hf e (setHeap t hf e)"
  by (simp add: heap_step_def heapOf_setHeap)

lemma pageCount_Insert:
  assumes "heap_inv hf" shows "pageCount (fst (HeapFile_Insert hf bs)) \<le> Suc (pageCount hf)"
proof -
  obtain h r where trial: "HeapFile_tryPages hf bs [0..<pageCount hf] = (h, r)" by fastforce
  from tryPages_cases [OF assms upt_below trial] have h: "pool_inv h" "pageCount h = pageCount hf" by simp_all
  have "pageCount (putPage (h\<lparr>fileBytes := writePage (fileBytes h) (pageCount hf) q\<rparr>) (pageCount hf) q) = Suc (pageCount hf)"
    if "plainPage q" for q using append_ok(3) [OF h(1) that] h(2) by simp
  moreover have "plainPage q" if "Page_Insert NewPage bs = (q, Inr s)" for q s
    using that NewPage_insert(1,2) [of bs] by (cases "length bs \<le> 4088") auto
  ultimately show ?thesis using trial h(2)
    by (auto simp: HeapFile_Insert_def Let_def split: sum.splits option.splits prod.splits)
qed

lemma Insert_heap:
  assumes tbl: "tableOf e t = Some meta" and rows: "rows_inv (tmHeapFile meta)"
    and room: "pageCount (tmHeapFile meta) < 2 ^ 48" and row: "storable r" "length (Serialize r) \<le> 4088"
  obtains e' res hf' rid xs ys where "Insert txn t r e = (e', res)" and "res = Inr rid \<or> (\<exists>err. res = Inl err)"
    and "heap_step t hf' e e'" and "rows_inv hf'"
    and "versions (tmHeapFile meta) = xs @ ys" and "versions hf' = xs @ (rid, newVersion txn r) # ys"
    and "IndexRoots meta = [] \<Longrightarrow> res = Inr rid \<and> e' = setHeap t hf' e"
    and "pageCount hf' \<le> Suc (pageCount (tmHeapFile meta))"
proof -
  let ?r = "r\<lparr>Xmin := txn, Xmax := 0\<rparr>" and ?hf = "tmHeapFile meta"
  have "heap_inv ?hf" using rows by (simp add: rows_inv_def)
  from hfs.ins_adds [OF this room, of "Serialize ?r"] row(2) obtain hf' rid as bs where
    I: "HeapFile_Insert ?hf (Serialize ?r) = (hf', Inr rid)" "heap_inv hf'" "heap_entries ?hf = as @ bs"
    "heap_entries hf' = as @ (rid, Serialize ?r) # bs" by auto
  let ?e = "setHeap t hf' e"
  obtain e' ires where X: "indexVersion t rid (Values ?r) 0 (Columns (tmSchema meta)) ?e = (e', ires)" by fastforce
  have step: "heap_step t hf' e e'"
    by (rule heap_step_index [OF heap_step_setHeap [OF tbl] index_step_indexVersion [OF X]])
  have run: "Insert txn t r e = (e', case ires of Inl err \<Rightarrow> Inl err | Inr _ \<Rightarrow> Inr rid)"
    using I(1) X tbl by (simp add: Insert_def Let_def GetTable_eq split: sum.splits)
  have "row_bytes (Serialize ?r)" using row(1) by (simp add: row_bytes_Serialize)
  then have rows': "rows_inv hf'" using rows I by (auto simp: rows_inv_def)
  have noix: "ires = Inr () \<and> e' = ?e" if "IndexRoots meta = []"
  proof -
    have "indexVersion t rid vals i cols ?e = (?e, Inr ())" for vals i cols
      using that tbl by (induction cols arbitrary: i)
        (auto simp: tableOf_setHeap [unfolded tableOf_def] tableOf_def split: option.splits)
    with X show ?thesis by simp
  qed
  have cnt: "pageCount hf' \<le> Suc (pageCount ?hf)"
    using pageCount_Insert [OF \<open>heap_inv ?hf\<close>, of "Serialize ?r"] I(1) by simp
  show thesis
    by (rule that [OF run _ step rows' _ _ _ cnt])
      (use I row(1) noix in \<open>auto simp: versions_def newVersion_def split: sum.splits\<close>)
qed


section \<open>Deletion and update\<close>

lemma pageCount_Get_Update:
  assumes "pool_inv hf"
  shows "pageCount (fst (HeapFile_Get hf rid)) = pageCount hf"
    and "pageCount (fst (HeapFile_Update hf rid bs)) = pageCount hf"
proof -
  obtain i s where d: "decodeRowID rid = (i, s)" by fastforce
  from bp.fetch_cases [OF assms, of i] obtain h where "FetchPage hf i = (h, Inr (pageAt hf i))" "pageCount h = pageCount hf" .
  then show "pageCount (fst (HeapFile_Get hf rid)) = pageCount hf"
    "pageCount (fst (HeapFile_Update hf rid bs)) = pageCount hf"
    by (auto simp: HeapFile_Get_def HeapFile_Update_def d MarkDirty_def putPage_def split: prod.splits sum.splits)
qed

lemma map_of_versions:
  "map_of (versions hf) rid = map_option decode_row (map_of (heap_entries hf) rid)"
  unfolding versions_def by (simp add: map_of_map)

lemma versions_replace:
  "heap_entries hf' = replace_key rid bs (heap_entries hf) \<Longrightarrow>
   versions hf' = replace_key rid (decode_row bs) (versions hf)"
  by (auto simp: versions_def replace_key_def)

definition conflict_free :: "engine \<Rightarrow> txnID \<Rightarrow> row \<Rightarrow> bool" where
  "conflict_free e txn r \<longleftrightarrow>
     \<not> (Xmax r \<noteq> 0 \<and> Xmax r \<noteq> txn \<and> Xmax r \<in> committed e) \<and>
     \<not> (\<exists>snap. txnSnapshots e txn = Some snap \<and> Xmin r \<noteq> txn \<and> Xmin r \<in> committed e \<and> Xmin r \<notin> snap)"

lemma readForWrite_ok:
  assumes tbl: "tableOf e t = Some meta" and rows: "rows_inv (tmHeapFile meta)" and lock: "\<not> mu e"
    and v: "map_of (versions (tmHeapFile meta)) rid = Some r"
  obtains hf where "rows_inv hf" and "heap_entries hf = heap_entries (tmHeapFile meta)"
    and "pageCount hf = pageCount (tmHeapFile meta)"
    and "conflict_free e txn r \<Longrightarrow> readForWrite txn t rid e = (setHeap t hf e, Inr r)"
    and "\<not> conflict_free e txn r \<Longrightarrow> \<exists>msg. readForWrite txn t rid e = (setHeap t hf e, Inl (Errorf msg []))"
proof -
  let ?hf = "tmHeapFile meta"
  have hinv: "heap_inv ?hf" using rows by (simp add: rows_inv_def)
  from v obtain bs where bs: "map_of (heap_entries ?hf) rid = Some bs" "r = decode_row bs"
    by (auto simp: map_of_versions)
  from hfs.get_reads [OF hinv, of rid] bs(1) obtain hf sp where
    G: "heap_inv hf" "heap_entries hf = heap_entries ?hf" "HeapFile_Get ?hf rid = (hf, Inr (bs, sp))" by auto
  have "row_bytes bs" using rows map_of_SomeD [OF bs(1)] by (auto simp: rows_inv_def)
  then have D: "Deserialize (bs, sp) = Inr r" by (simp add: row_bytes_decode bs(2))
  obtain c where C: "checkWriteConflict txn r (setHeap t hf e) = (setHeap t hf e, c)"
    using checkWriteConflict_unlocked(1) [of "setHeap t hf e" txn r] lock by (metis prod.collapse setHeap_sel(1))
  have ok: "is_ok c \<longleftrightarrow> conflict_free e txn r"
    using checkWriteConflict_unlocked(2) [of "setHeap t hf e" txn r] lock C by (simp add: conflict_free_def)
  have run: "readForWrite txn t rid e = (setHeap t hf e, case c of Inl err \<Rightarrow> Inl err | Inr _ \<Rightarrow> Inr r)"
    using tbl G(3) D C by (simp add: readForWrite_def GetTable_eq split: sum.splits)
  have "\<exists>msg. err = Errorf msg []" if "c = Inl err" for err
    using C lock that by (auto simp: checkWriteConflict_def withLock_def split: if_splits option.splits)
  with run ok show thesis
    using G rows pageCount_Get_Update(1) [OF heap_invD(1) [OF hinv], of rid]
    by (intro that [of hf]) (auto simp: rows_inv_def split: sum.splits)
qed

lemma stampVersion_ok:
  assumes tbl: "tableOf e t = Some meta" and rows: "rows_inv (tmHeapFile meta)"
    and v: "map_of (versions (tmHeapFile meta)) rid = Some r"
  obtains hf where "stampVersion t rid (r\<lparr>Xmax := txn\<rparr>) e = (setHeap t hf e, Inr ())" and "rows_inv hf"
    and "versions hf = replace_key rid (r\<lparr>Xmax := txn\<rparr>) (versions (tmHeapFile meta))"
    and "pageCount hf = pageCount (tmHeapFile meta)"
proof -
  let ?hf = "tmHeapFile meta" and ?r = "r\<lparr>Xmax := txn\<rparr>"
  have hinv: "heap_inv ?hf" using rows by (simp add: rows_inv_def)
  from v obtain bs where bs: "map_of (heap_entries ?hf) rid = Some bs" "r = decode_row bs"
    by (auto simp: map_of_versions)
  have "row_bytes bs" using rows map_of_SomeD [OF bs(1)] by (auto simp: rows_inv_def)
  then have st: "storable r" "stored_row r = r" "bs = Serialize r" by (auto simp: row_bytes_def bs(2))
  have st': "storable ?r" using st(1) by simp
  have "stored_row ?r = (stored_row r)\<lparr>Xmax := txn\<rparr>" by (simp add: stored_row_def)
  then have st2: "stored_row ?r = ?r" by (simp only: st(2))
  have "length (Serialize ?r) \<le> length bs" by (simp add: st(3))
  from hfs.upd_replaces [OF hinv bs(1) this] obtain hf where
    U: "heap_inv hf" "HeapFile_Update ?hf rid (Serialize ?r) = (hf, Inr ())"
    "heap_entries hf = replace_key rid (Serialize ?r) (heap_entries ?hf)" by blast
  have "rows_inv hf" using rows U row_bytes_Serialize [OF st']
    by (auto simp: rows_inv_def replace_key_def split: if_splits)
  moreover have "pageCount hf = pageCount ?hf"
    using pageCount_Get_Update(2) [OF heap_invD(1) [OF hinv], of rid "Serialize ?r"] U(2) by simp
  ultimately show thesis
    using versions_replace [OF U(3)] U(2) st' st2 tbl by (intro that [of hf]) (simp_all add: stampVersion_def GetTable_eq)
qed


lemma committed_for_heap_step: "heap_step t hf e e' \<Longrightarrow> committed_for e' u = committed_for e u"
  by (simp add: heap_step_def committed_for_def split: option.splits)

lemma Delete_ok:
  assumes tbl: "tableOf e t = Some meta" and rows: "rows_inv (tmHeapFile meta)" and lock: "\<not> mu e"
    and v: "map_of (versions (tmHeapFile meta)) rid = Some r" and free: "conflict_free e txn r"
  obtains e' hf' where "Delete txn t rid e = (e', Inr ())" and "heap_step t hf' e e'" and "rows_inv hf'"
    and "versions hf' = replace_key rid (r\<lparr>Xmax := txn\<rparr>) (versions (tmHeapFile meta))"
    and "pageCount hf' = pageCount (tmHeapFile meta)" and "e' = setHeap t hf' e"
proof -
  from readForWrite_ok [OF tbl rows lock v, of txn] free obtain h where h: "rows_inv h"
    "heap_entries h = heap_entries (tmHeapFile meta)" "pageCount h = pageCount (tmHeapFile meta)"
    "readForWrite txn t rid e = (setHeap t h e, Inr r)" by metis
  have tbl1: "tableOf (setHeap t h e) t = Some (meta\<lparr>tmHeapFile := h\<rparr>)" using tbl by (simp add: tableOf_setHeap)
  have v1: "versions h = versions (tmHeapFile meta)" using h(2) by (simp add: versions_def)
  from stampVersion_ok [OF tbl1, of rid r txn] h(1) v v1 obtain hf where
    "stampVersion t rid (r\<lparr>Xmax := txn\<rparr>) (setHeap t h e) = (setHeap t hf e, Inr ())" "rows_inv hf"
    "versions hf = replace_key rid (r\<lparr>Xmax := txn\<rparr>) (versions (tmHeapFile meta))" "pageCount hf = pageCount h"
    by auto
  with h(3,4) heap_step_setHeap [OF tbl] show thesis
    by (intro that [of "setHeap t hf e" hf]) (simp_all add: Delete_def)
qed

lemma write_conflict_refused:
  assumes "tableOf e t = Some meta" and "rows_inv (tmHeapFile meta)" and "\<not> mu e"
    and "map_of (versions (tmHeapFile meta)) rid = Some r" and "\<not> conflict_free e txn r"
  obtains e' hf' msg where "Delete txn t rid e = (e', Inl (Errorf msg []))" and "Update txn t rid r0 e = (e', Inl (Errorf msg []))"
    and "heap_step t hf' e e'" and "versions hf' = versions (tmHeapFile meta)"
proof -
  from readForWrite_ok [OF assms(1-4), of txn] assms(5) obtain h msg where
    "heap_entries h = heap_entries (tmHeapFile meta)" "readForWrite txn t rid e = (setHeap t h e, Inl (Errorf msg []))"
    by metis
  then show thesis
    by (intro that [of "setHeap t h e" msg h]) (simp_all add: Delete_def Update_def versions_def heap_step_setHeap [OF assms(1)])
qed

lemma Update_as_Delete_Insert:
  "Update txn t rid r0 e = (case Delete txn t rid e of
     (e2, Inl err) \<Rightarrow> (e2, Inl err)
   | (e2, Inr _) \<Rightarrow> (case Insert txn t r0 e2 of (e3, Inl err) \<Rightarrow> (e3, Inl err) | (e3, Inr _) \<Rightarrow> (e3, Inr ())))"
  by (simp add: Update_def Delete_def split: prod.splits sum.splits)

lemma Update_ok:
  assumes tbl: "tableOf e t = Some meta" and rows: "rows_inv (tmHeapFile meta)" and lock: "\<not> mu e"
    and v: "map_of (versions (tmHeapFile meta)) rid = Some r" and free: "conflict_free e txn r"
    and room: "pageCount (tmHeapFile meta) < 2 ^ 48" and row: "storable r0" "length (Serialize r0) \<le> 4088"
  obtains e' res hf' rid' xs ys where "Update txn t rid r0 e = (e', res)" and "res = Inr () \<or> (\<exists>err. res = Inl err)"
    and "heap_step t hf' e e'" and "rows_inv hf'"
    and "replace_key rid (r\<lparr>Xmax := txn\<rparr>) (versions (tmHeapFile meta)) = xs @ ys"
    and "versions hf' = xs @ (rid', newVersion txn r0) # ys"
    and "IndexRoots meta = [] \<Longrightarrow> res = Inr () \<and> e' = setHeap t hf' e"
    and "pageCount hf' \<le> Suc (pageCount (tmHeapFile meta))"
proof -
  from Delete_ok [OF tbl rows lock v free] obtain e1 h where D: "Delete txn t rid e = (e1, Inr ())" "heap_step t h e e1"
    "rows_inv h" "versions h = replace_key rid (r\<lparr>Xmax := txn\<rparr>) (versions (tmHeapFile meta))"
    "pageCount h = pageCount (tmHeapFile meta)" "e1 = setHeap t h e" .
  have tbl1: "tableOf e1 t = Some (meta\<lparr>tmHeapFile := h\<rparr>)" using tbl D(6) by (simp add: tableOf_setHeap)
  have h: "tmHeapFile (meta\<lparr>tmHeapFile := h\<rparr>) = h" "IndexRoots (meta\<lparr>tmHeapFile := h\<rparr>) = IndexRoots meta" by simp_all
  have "pageCount h < 2 ^ 48" using D(5) room by simp
  from Insert_heap [OF tbl1, unfolded h, OF D(3) this row, of txn] obtain e2 res hf' rid' xs ys where
    I: "Insert txn t r0 e1 = (e2, res)" "res = Inr rid' \<or> (\<exists>err. res = Inl err)" "heap_step t hf' e1 e2" "rows_inv hf'"
    "versions h = xs @ ys" "versions hf' = xs @ (rid', newVersion txn r0) # ys"
    "IndexRoots meta = [] \<Longrightarrow> res = Inr rid' \<and> e2 = setHeap t hf' e1" "pageCount hf' \<le> Suc (pageCount h)"
    by metis
  have "heap_step t hf' e e2" using I(3) D(2) by (auto simp: heap_step_def fun_eq_iff)
  moreover have "Update txn t rid r0 e = (e2, case res of Inl err \<Rightarrow> Inl err | Inr _ \<Rightarrow> Inr ())"
    using D(1) I(1) by (simp add: Update_as_Delete_Insert split: sum.splits)
  ultimately show thesis
    using I D(4-6) by (intro that [of e2 "case res of Inl err \<Rightarrow> Inl err | Inr _ \<Rightarrow> Inr ()" hf' xs ys rid'])
      (auto split: sum.splits)
qed


section \<open>What readers see of a write\<close>

lemma snapshot_append: "snapshot e u (xs @ ys) = snapshot e u xs @ snapshot e u ys"
  by (simp add: snapshot_def)

lemma snapshot_heap_step: "heap_step t hf e e' \<Longrightarrow> snapshot e' u = snapshot e u"
  by (simp add: snapshot_def committed_for_heap_step fun_eq_iff)

lemma snapshot_hidden:
  assumes "u \<noteq> txn" and "txn \<notin> committed_for e u"
  shows "snapshot e u (xs @ (rid, newVersion txn r) # ys) = snapshot e u (xs @ ys)"
  using assms by (simp add: snapshot_def visible_def)

lemma snapshot_own:
  "txn \<notin> committed_for e txn \<Longrightarrow>
   snapshot e txn (xs @ (rid, newVersion txn r) # ys) = snapshot e txn xs @ (rid, newVersion txn r) # snapshot e txn ys"
  by (simp add: snapshot_def visible_def)

text \<open>A stamp by a transaction that the reader does not see makes no difference to the reader, unless
  it replaces the reader's own stamp or that of a transaction the reader sees.\<close>

lemma snapshot_stamp_hidden:
  assumes d: "distinct (map fst vs)" and v: "map_of vs rid = Some r" and "u \<noteq> txn" and "txn \<notin> committed_for e u"
    and "Xmax r = 0 \<or> Xmax r \<noteq> u \<and> Xmax r \<notin> committed_for e u"
  shows "map fst (snapshot e u (replace_key rid (r\<lparr>Xmax := txn\<rparr>) vs)) = map fst (snapshot e u vs)"
    and "map (Values \<circ> snd) (snapshot e u (replace_key rid (r\<lparr>Xmax := txn\<rparr>) vs)) = map (Values \<circ> snd) (snapshot e u vs)"
proof -
  have vis: "visible (committed_for e u) u (Xmin r) txn = visible (committed_for e u) u (Xmin r) (Xmax r)"
    using assms(3-5) by (auto simp: visible_def)
  have same: "x = r" if "(rid, x) \<in> set vs" for x using d v that by (metis map_of_is_SomeI option.inject)
  have "map f (snapshot e u (replace_key rid (r\<lparr>Xmax := txn\<rparr>) ws)) = map f (snapshot e u ws)"
    if "set ws \<subseteq> set vs" and "\<And>k x y. Values x = Values y \<Longrightarrow> f (k, x) = f (k, y)" for ws and f :: "rowID \<times> row \<Rightarrow> 'b"
    using that(1)
  proof (induction ws)
    case (Cons w ws)
    obtain k x where w: "w = (k, x)" by force
    have "f (rid, r\<lparr>Xmax := txn\<rparr>) = f (rid, r)" by (rule that(2)) simp
    with Cons same [of x] w vis show ?case by (auto simp: snapshot_def replace_key_def)
  qed (simp add: snapshot_def replace_key_def)
  from this [of vs fst] this [of vs "Values \<circ> snd"]
  show "map fst (snapshot e u (replace_key rid (r\<lparr>Xmax := txn\<rparr>) vs)) = map fst (snapshot e u vs)"
    "map (Values \<circ> snd) (snapshot e u (replace_key rid (r\<lparr>Xmax := txn\<rparr>) vs)) = map (Values \<circ> snd) (snapshot e u vs)"
    by simp_all
qed

lemma pairs: "map (\<lambda>(k, v). (k, Values v)) xs = zip (map fst xs) (map (Values \<circ> snd) xs)"
  by (induction xs) auto

lemma snapshot_stamp_own:
  assumes d: "distinct (map fst vs)" and v: "map_of vs rid = Some r" and "txn \<noteq> 0"
  shows "snapshot e txn (replace_key rid (r\<lparr>Xmax := txn\<rparr>) vs) = filter (\<lambda>(k, _). k \<noteq> rid) (snapshot e txn vs)"
proof -
  have "snapshot e txn (replace_key rid (r\<lparr>Xmax := txn\<rparr>) ws) = filter (\<lambda>(k, _). k \<noteq> rid) (snapshot e txn ws)" for ws
  proof (induction ws)
    case (Cons w ws)
    obtain k x where w: "w = (k, x)" by force
    have "\<not> visible (committed_for e txn) txn (Xmin r) txn" using assms(3) by (simp add: visible_def)
    with Cons w show ?case by (cases "k = rid") (simp_all add: snapshot_def replace_key_def)
  qed (simp add: snapshot_def replace_key_def)
  then show ?thesis .
qed

lemma distinct_versions: "rows_inv hf \<Longrightarrow> distinct (map fst (versions hf))"
  using distinct_heap_entries by (simp add: rows_inv_def versions_def comp_def split_beta)


section \<open>A small database\<close>

text \<open>A row for the empty table, and the engine after transaction 1 had inserted it.\<close>

definition demoRow :: row where
  "demoRow = \<lparr>Values = [NewInt 7], Xmin = 0, Xmax = 0\<rparr>"

definition demoEngine1 :: engine where
  "demoEngine1 = fst (Insert 1 ''t'' demoRow demoEngine)"

definition demoRowID :: rowID where
  "demoRowID = projr (snd (Insert 1 ''t'' demoRow demoEngine))"

lemma demoRow_ok: "storable demoRow" "length (Serialize demoRow) \<le> 4088"
  by (simp_all add: demoRow_def storable_def Serialize_def Serialize_value_def)

lemma demoEngine1_ok:
  obtains hf where "demoEngine1 = setHeap ''t'' hf demoEngine" and "rows_inv hf" and "pageCount hf \<le> 1"
    and "versions hf = [(demoRowID, newVersion 1 demoRow)]"
    and "tableOf demoEngine1 ''t'' = Some (demoMeta\<lparr>tmHeapFile := hf\<rparr>)"
proof -
  have "pageCount (tmHeapFile demoMeta) < 2 ^ 48" by (simp add: demoEngine_ok)
  from Insert_heap [OF demoEngine_ok(1,2) this demoRow_ok, of 1] obtain e' res hf rid xs ys where
    I: "Insert 1 ''t'' demoRow demoEngine = (e', res)" "rows_inv hf" "versions (tmHeapFile demoMeta) = xs @ ys"
    "versions hf = xs @ (rid, newVersion 1 demoRow) # ys" "res = Inr rid \<and> e' = setHeap ''t'' hf demoEngine"
    "pageCount hf \<le> Suc (pageCount (tmHeapFile demoMeta))" using demoEngine_ok(5) by metis
  then show thesis
    by (intro that [of hf]) (simp_all add: demoEngine1_def demoRowID_def demoEngine_ok tableOf_setHeap)
qed

section \<open>Properties\<close>

text \<open>C3: Insert.  When the writer has not committed, inserting a storable row of at most 4088 bytes into a table
  with fewer than \<open>2\<^sup>48\<close> pages adds exactly one version to the rows of the table, stamped with the writer and not
  deleted.  The writer sees it at once; no transaction whose snapshot lacks the writer sees any difference; the
  rows of other tables and the transaction tables are unchanged.  Without indexes on the table the call
  succeeds and changes nothing else in the engine.  With indexes their pages and roots change too, and the
  version is stored even when an index then refuses the key.\<close>

theorem Insert_isolated:
  assumes "tableOf e t = Some meta" and "rows_inv (tmHeapFile meta)" and "pageCount (tmHeapFile meta) < 2 ^ 48"
    and "storable r" and "length (Serialize r) \<le> 4088" and "txn \<notin> committed_for e txn"
  shows "\<exists>e' res hf' rid xs ys. Insert txn t r e = (e', res) \<and> heap_step t hf' e e' \<and> rows_inv hf' \<and>
    (IndexRoots meta = [] \<longrightarrow> res = Inr rid \<and> e' = setHeap t hf' e) \<and>
    snapshot e txn (versions (tmHeapFile meta)) = xs @ ys \<and>
    snapshot e' txn (versions hf') = xs @ (rid, newVersion txn r) # ys \<and>
    (\<forall>u. u \<noteq> txn \<longrightarrow> txn \<notin> committed_for e u \<longrightarrow>
       snapshot e' u (versions hf') = snapshot e u (versions (tmHeapFile meta)))"
proof -
  from Insert_heap [OF assms(1-5), of txn] obtain e' res hf' rid xs ys where
    I: "Insert txn t r e = (e', res)" "heap_step t hf' e e'" "rows_inv hf'" "versions (tmHeapFile meta) = xs @ ys"
    "versions hf' = xs @ (rid, newVersion txn r) # ys" "IndexRoots meta = [] \<Longrightarrow> res = Inr rid \<and> e' = setHeap t hf' e" by metis
  then show ?thesis
    using snapshot_own [OF assms(6), of xs rid r ys] snapshot_hidden [of _ txn e xs rid r ys] snapshot_heap_step [OF I(2)]
    by (intro exI [of _ e'] exI [of _ res] exI [of _ hf'] exI [of _ rid] exI [of _ "snapshot e txn xs"]
        exI [of _ "snapshot e txn ys"]) (simp add: snapshot_append)
qed

theorem Insert_isolated_witness:
  "\<exists>e' res hf' rid xs ys. Insert 2 ''t'' demoRow demoEngine = (e', res) \<and> heap_step ''t'' hf' demoEngine e' \<and> rows_inv hf' \<and>
    (IndexRoots demoMeta = [] \<longrightarrow> res = Inr rid \<and> e' = setHeap ''t'' hf' demoEngine) \<and>
    snapshot demoEngine 2 (versions (tmHeapFile demoMeta)) = xs @ ys \<and>
    snapshot e' 2 (versions hf') = xs @ (rid, newVersion 2 demoRow) # ys \<and>
    (\<forall>u. u \<noteq> 2 \<longrightarrow> 2 \<notin> committed_for demoEngine u \<longrightarrow>
       snapshot e' u (versions hf') = snapshot demoEngine u (versions (tmHeapFile demoMeta)))"
  by (rule Insert_isolated [OF demoEngine_ok(1,2) _ demoRow_ok])
    (simp_all add: demoEngine_ok committed_for_def, simp add: demoEngine_def)

text \<open>C6: Delete.  Deleting a version that is free of conflicts succeeds: the writer no longer sees the
  row, and every other transaction whose snapshot lacks the writer, and that neither stamped the version
  itself nor has its previous stamp in its snapshot, still sees the same rows with the same values.  Here too a
  running transaction that had stamped the version sees it again.\<close>

theorem Delete_isolated:
  assumes "tableOf e t = Some meta" and "rows_inv (tmHeapFile meta)" and "\<not> mu e"
    and "map_of (versions (tmHeapFile meta)) rid = Some r" and "conflict_free e txn r" and "txn \<noteq> 0"
  shows "\<exists>e' hf'. Delete txn t rid e = (e', Inr ()) \<and> heap_step t hf' e e' \<and> rows_inv hf' \<and>
    snapshot e' txn (versions hf') = filter (\<lambda>(k, _). k \<noteq> rid) (snapshot e txn (versions (tmHeapFile meta))) \<and>
    (\<forall>u. u \<noteq> txn \<longrightarrow> txn \<notin> committed_for e u \<longrightarrow> Xmax r = 0 \<or> Xmax r \<noteq> u \<and> Xmax r \<notin> committed_for e u \<longrightarrow>
       map (\<lambda>(k, v). (k, Values v)) (snapshot e' u (versions hf')) =
       map (\<lambda>(k, v). (k, Values v)) (snapshot e u (versions (tmHeapFile meta))))"
proof -
  let ?vs = "versions (tmHeapFile meta)"
  note d = distinct_versions [OF assms(2)]
  from Delete_ok [OF assms(1-5)] obtain e' hf' where
    D: "Delete txn t rid e = (e', Inr ())" "heap_step t hf' e e'" "rows_inv hf'"
    "versions hf' = replace_key rid (r\<lparr>Xmax := txn\<rparr>) ?vs" by metis
  show ?thesis
    using D snapshot_heap_step [OF D(2)] snapshot_stamp_own [OF d assms(4,6)] snapshot_stamp_hidden [OF d assms(4)]
    by (intro exI [of _ e'] exI [of _ hf']) (simp add: pairs)
qed

theorem Delete_isolated_witness:
  "\<exists>hf. tableOf demoEngine1 ''t'' = Some (demoMeta\<lparr>tmHeapFile := hf\<rparr>) \<and>
    (\<exists>e' hf'. Delete 2 ''t'' demoRowID demoEngine1 = (e', Inr ()) \<and> heap_step ''t'' hf' demoEngine1 e' \<and> rows_inv hf' \<and>
      snapshot e' 2 (versions hf') = filter (\<lambda>(k, _). k \<noteq> demoRowID) (snapshot demoEngine1 2 (versions hf)))"
proof -
  obtain hf where D: "demoEngine1 = setHeap ''t'' hf demoEngine" "rows_inv hf" "pageCount hf \<le> 1"
    "versions hf = [(demoRowID, newVersion 1 demoRow)]" "tableOf demoEngine1 ''t'' = Some (demoMeta\<lparr>tmHeapFile := hf\<rparr>)"
    by (rule demoEngine1_ok)
  have "conflict_free demoEngine1 2 (newVersion 1 demoRow)" "\<not> mu demoEngine1"
    by (simp_all add: D(1) conflict_free_def) (simp_all add: demoEngine_def)
  with Delete_isolated [OF D(5), of demoRowID "newVersion 1 demoRow" 2] D(2,4,5) show ?thesis by fastforce
qed

text \<open>C5: Update.  On a table without indexes, with fewer than \<open>2\<^sup>48\<close> pages, updating a conflict-free version to a
  storable row of at most 4088 bytes succeeds: the writer sees the new version in place of the old one, and
  every other transaction whose snapshot lacks the writer, and that neither stamped the old version itself
  nor has its previous stamp in its snapshot, still sees the same rows with the same values.  The last
  condition is needed: a running transaction that had stamped the version sees it again once its stamp is
  overwritten.\<close>

theorem Update_isolated:
  assumes "tableOf e t = Some meta" and "rows_inv (tmHeapFile meta)" and "\<not> mu e"
    and "map_of (versions (tmHeapFile meta)) rid = Some r" and "conflict_free e txn r" and "txn \<noteq> 0"
    and "txn \<notin> committed_for e txn" and "pageCount (tmHeapFile meta) < 2 ^ 48"
    and "storable r0" and "length (Serialize r0) \<le> 4088" and "IndexRoots meta = []"
  shows "\<exists>e' hf' rid' xs ys. Update txn t rid r0 e = (e', Inr ()) \<and> heap_step t hf' e e' \<and> rows_inv hf' \<and>
    filter (\<lambda>(k, _). k \<noteq> rid) (snapshot e txn (versions (tmHeapFile meta))) = xs @ ys \<and>
    snapshot e' txn (versions hf') = xs @ (rid', newVersion txn r0) # ys \<and>
    (\<forall>u. u \<noteq> txn \<longrightarrow> txn \<notin> committed_for e u \<longrightarrow> Xmax r = 0 \<or> Xmax r \<noteq> u \<and> Xmax r \<notin> committed_for e u \<longrightarrow>
       map (\<lambda>(k, v). (k, Values v)) (snapshot e' u (versions hf')) =
       map (\<lambda>(k, v). (k, Values v)) (snapshot e u (versions (tmHeapFile meta))))"
proof -
  let ?vs = "versions (tmHeapFile meta)" and ?ws = "replace_key rid (r\<lparr>Xmax := txn\<rparr>) (versions (tmHeapFile meta))"
  note d = distinct_versions [OF assms(2)]
  from Update_ok [OF assms(1-5,8-10)] assms(11) obtain e' hf' rid' xs ys where
    U: "Update txn t rid r0 e = (e', Inr ())" "heap_step t hf' e e'" "rows_inv hf'" "?ws = xs @ ys"
    "versions hf' = xs @ (rid', newVersion txn r0) # ys" by metis
  have own: "filter (\<lambda>(k, _). k \<noteq> rid) (snapshot e txn ?vs) = snapshot e txn xs @ snapshot e txn ys"
    using snapshot_stamp_own [OF d assms(4,6), of e] by (simp add: U(4) snapshot_append)
  have "map (\<lambda>(k, v). (k, Values v)) (snapshot e' u (versions hf')) = map (\<lambda>(k, v). (k, Values v)) (snapshot e u ?vs)"
    if "u \<noteq> txn" "txn \<notin> committed_for e u" "Xmax r = 0 \<or> Xmax r \<noteq> u \<and> Xmax r \<notin> committed_for e u" for u
    using snapshot_hidden [OF that(1,2), of xs rid' r0 ys] snapshot_stamp_hidden [OF d assms(4) that]
    by (simp add: snapshot_heap_step [OF U(2)] U(5) pairs flip: U(4))
  with U own snapshot_own [OF assms(7), of xs rid' r0 ys] snapshot_heap_step [OF U(2)] show ?thesis
    by (intro exI [of _ e'] exI [of _ hf'] exI [of _ rid'] exI [of _ "snapshot e txn xs"] exI [of _ "snapshot e txn ys"])
      simp
qed


theorem Update_isolated_witness:
  "\<exists>hf. tableOf demoEngine1 ''t'' = Some (demoMeta\<lparr>tmHeapFile := hf\<rparr>) \<and>
    (\<exists>e' hf' rid' xs ys. Update 2 ''t'' demoRowID demoRow demoEngine1 = (e', Inr ()) \<and> heap_step ''t'' hf' demoEngine1 e' \<and>
      rows_inv hf' \<and> filter (\<lambda>(k, _). k \<noteq> demoRowID) (snapshot demoEngine1 2 (versions hf)) = xs @ ys \<and>
      snapshot e' 2 (versions hf') = xs @ (rid', newVersion 2 demoRow) # ys)"
proof -
  obtain hf where D: "demoEngine1 = setHeap ''t'' hf demoEngine" "rows_inv hf" "pageCount hf \<le> 1"
    "versions hf = [(demoRowID, newVersion 1 demoRow)]" "tableOf demoEngine1 ''t'' = Some (demoMeta\<lparr>tmHeapFile := hf\<rparr>)"
    by (rule demoEngine1_ok)
  have "conflict_free demoEngine1 2 (newVersion 1 demoRow)" "\<not> mu demoEngine1" "2 \<notin> committed_for demoEngine1 2"
    by (simp_all add: D(1) conflict_free_def committed_for_def) (simp_all add: demoEngine_def)
  with Update_isolated [OF D(5), of demoRowID "newVersion 1 demoRow" 2 demoRow] D(2-5) demoRow_ok demoEngine_ok(5)
  show ?thesis by fastforce
qed

text \<open>C13: A refused write.  When the version has been deleted or replaced by a transaction that
  committed since the writer began, both \<^verbatim>\<open>Update\<close> and \<^verbatim>\<open>Delete\<close> return an ordinary error and leave
  every row of every table as it is.\<close>

theorem write_conflict_leaves_rows:
  assumes "tableOf e t = Some meta" and "rows_inv (tmHeapFile meta)" and "\<not> mu e"
    and "map_of (versions (tmHeapFile meta)) rid = Some r" and "Xmax r \<noteq> 0" and "Xmax r \<noteq> txn" and "Xmax r \<in> committed e"
  shows "\<exists>e' hf' err. Delete txn t rid e = (e', Inl err) \<and> Update txn t rid r0 e = (e', Inl err) \<and> \<not> abnormal err \<and>
    heap_step t hf' e e' \<and> versions hf' = versions (tmHeapFile meta)"
proof -
  have "\<not> conflict_free e txn r" using assms(5-7) by (simp add: conflict_free_def)
  from write_conflict_refused [OF assms(1-4) this, of r0] show ?thesis by (metis abnormal.simps(5))
qed

theorem write_conflict_leaves_rows_witness:
  "\<exists>e0 e' hf err. e0 = (fst (Delete 2 ''t'' demoRowID demoEngine1))\<lparr>committed := {1, 2}, activeTxns := {3}\<rparr> \<and>
    tableOf e0 ''t'' = Some (demoMeta\<lparr>tmHeapFile := hf\<rparr>) \<and>
    Delete 3 ''t'' demoRowID e0 = (e', Inl err) \<and> Update 3 ''t'' demoRowID demoRow e0 = (e', Inl err) \<and> \<not> abnormal err"
proof -
  obtain hf where D: "demoEngine1 = setHeap ''t'' hf demoEngine" "rows_inv hf" "pageCount hf \<le> 1"
    "versions hf = [(demoRowID, newVersion 1 demoRow)]" "tableOf demoEngine1 ''t'' = Some (demoMeta\<lparr>tmHeapFile := hf\<rparr>)"
    by (rule demoEngine1_ok)
  have c: "conflict_free demoEngine1 2 (newVersion 1 demoRow)" "\<not> mu demoEngine1"
    by (simp_all add: D(1) conflict_free_def) (simp_all add: demoEngine_def)
  have h: "tmHeapFile (demoMeta\<lparr>tmHeapFile := hf\<rparr>) = hf" by simp
  have v: "map_of (versions hf) demoRowID = Some (newVersion 1 demoRow)" by (simp add: D(4))
  from Delete_ok [OF D(5), unfolded h, OF D(2) c(2) v c(1)] obtain e1 hf1 where
    E: "Delete 2 ''t'' demoRowID demoEngine1 = (e1, Inr ())" "rows_inv hf1" "e1 = setHeap ''t'' hf1 demoEngine1"
    "versions hf1 = replace_key demoRowID ((newVersion 1 demoRow)\<lparr>Xmax := 2\<rparr>) (versions hf)" by metis
  let ?e = "e1\<lparr>committed := {1, 2}, activeTxns := {3}\<rparr>"
  have "tableOf ?e ''t'' = tableOf e1 ''t''" by (simp add: tableOf_def)
  also have "\<dots> = Some (demoMeta\<lparr>tmHeapFile := hf1\<rparr>)" unfolding E(3) using D(5) by (simp add: tableOf_setHeap)
  finally have T: "tableOf ?e ''t'' = Some (demoMeta\<lparr>tmHeapFile := hf1\<rparr>)" .
  have "map_of (versions hf1) demoRowID = Some ((newVersion 1 demoRow)\<lparr>Xmax := 2\<rparr>)" "\<not> mu ?e"
    using c(2) by (simp_all add: E(3,4) D(4) replace_key_def)
  with write_conflict_leaves_rows [OF T, of demoRowID "(newVersion 1 demoRow)\<lparr>Xmax := 2\<rparr>" 3 demoRow] E(1,2) T
  show ?thesis by fastforce
qed

text \<open>C14: Two writers of one row.  The conflict check looks at committed transactions only, so two
  running transactions that both see a row can both update it and both commit: a transaction that
  begins afterwards sees both new versions.\<close>

theorem concurrent_updates_both_commit:
  assumes tbl: "tableOf e t = Some meta" and rows: "rows_inv (tmHeapFile meta)" and inv: "txn_inv e"
    and noix: "IndexRoots meta = []" and room: "Suc (pageCount (tmHeapFile meta)) < 2 ^ 48"
    and act: "a \<in> activeTxns e" "b \<in> activeTxns e" "a \<noteq> b"
    and v: "map_of (versions (tmHeapFile meta)) rid = Some r" "Xmax r = 0"
    and vis: "Xmin r \<in> committed_for e a" "Xmin r \<in> committed_for e b"
    and ra: "storable ra" "length (Serialize ra) \<le> 4088" and rb: "storable rb" "length (Serialize rb) \<le> 4088"
  shows "\<exists>e1 e2 e3 e4 e5 c hf. Update a t rid ra e = (e1, Inr ()) \<and> Update b t rid rb e1 = (e2, Inr ()) \<and>
    commit a e2 = (e3, Inr ()) \<and> commit b e3 = (e4, Inr ()) \<and> Begin e4 = (e5, Inr c) \<and> heapOf e5 t = Some hf \<and>
    (\<exists>rid1. (rid1, newVersion a ra) \<in> set (snapshot e5 c (versions hf))) \<and>
    (\<exists>rid2. (rid2, newVersion b rb) \<in> set (snapshot e5 c (versions hf)))"
proof -
  have lock: "\<not> mu e" and ncom: "a \<notin> committed e" "b \<notin> committed e" using inv act by (auto simp: txn_inv_def)
  have cf: "conflict_free e x (r\<lparr>Xmax := y\<rparr>)" if "x \<in> {a, b}" "y \<notin> committed e \<or> y = 0" for x y
  proof -
    have "x \<in> activeTxns e" "Xmin r \<in> committed_for e x" using that(1) act vis by auto
    then show ?thesis using that(2) by (auto simp: conflict_free_def committed_for_def)
  qed
  have "r\<lparr>Xmax := 0\<rparr> = r" using v(2) by (cases r) simp
  with cf [of a 0] have cfa: "conflict_free e a r" by simp
  have "pageCount (tmHeapFile meta) < 2 ^ 48" using room by simp
  from Update_ok [OF tbl rows lock v(1) cfa this ra] noix obtain e1 h1 rid1 xs ys where
    U1: "Update a t rid ra e = (e1, Inr ())" "rows_inv h1"
    "replace_key rid (r\<lparr>Xmax := a\<rparr>) (versions (tmHeapFile meta)) = xs @ ys"
    "versions h1 = xs @ (rid1, newVersion a ra) # ys" "e1 = setHeap t h1 e"
    "pageCount h1 \<le> Suc (pageCount (tmHeapFile meta))" by metis
  have rk: "rid \<in> fst ` set (versions (tmHeapFile meta))" using v(1) by (metis map_of_SomeD fst_conv imageI)
  have mo: "map_of (xs @ ys) rid = Some (r\<lparr>Xmax := a\<rparr>)" using map_of_replace_key [OF rk] U1(3) by (metis fun_upd_same)
  have "distinct (map fst (versions h1))" by (rule distinct_versions [OF U1(2)])
  then have fresh: "rid1 \<notin> fst ` set xs" "rid1 \<notin> fst ` set (xs @ ys)" by (auto simp: U1(4))
  then have ne: "rid1 \<noteq> rid" using map_of_SomeD [OF mo] by force
  then have v1: "map_of (versions h1) rid = Some (r\<lparr>Xmax := a\<rparr>)"
    unfolding U1(4) map_of_insert_middle [OF fresh(1)] using mo by simp
  have tbl1: "tableOf e1 t = Some (meta\<lparr>tmHeapFile := h1\<rparr>)" using tbl U1(5) by (simp add: tableOf_setHeap)
  have h1: "tmHeapFile (meta\<lparr>tmHeapFile := h1\<rparr>) = h1" "IndexRoots (meta\<lparr>tmHeapFile := h1\<rparr>) = []" using noix by simp_all
  have lock1: "\<not> mu e1" and cfb: "conflict_free e1 b (r\<lparr>Xmax := a\<rparr>)"
    using lock cf [of b a] ncom U1(5) by (simp_all add: conflict_free_def)
  have "pageCount h1 < 2 ^ 48" using U1(6) room by simp
  from Update_ok [OF tbl1, unfolded h1, OF U1(2) lock1 v1 cfb this rb] obtain e2 h2 rid2 xs2 ys2 where
    U2: "Update b t rid rb e1 = (e2, Inr ())" "replace_key rid (r\<lparr>Xmax := a, Xmax := b\<rparr>) (versions h1) = xs2 @ ys2"
    "versions h2 = xs2 @ (rid2, newVersion b rb) # ys2" "e2 = setHeap t h2 e1" by metis
  have "(rid1, newVersion a ra) \<in> set (replace_key rid (r\<lparr>Xmax := a, Xmax := b\<rparr>) (versions h1))"
    using ne by (auto simp: U1(4) replace_key_def)
  then have in1: "(rid1, newVersion a ra) \<in> set (versions h2)" by (simp only: U2(2,3)) auto
  have in2: "(rid2, newVersion b rb) \<in> set (versions h2)" by (simp add: U2(3))
  let ?e3 = "fst (commit a e2)" and ?e4 = "fst (commit b (fst (commit a e2)))"
  let ?e5 = "fst (Begin (fst (commit b (fst (commit a e2)))))"
  have e2: "mu e2 = False" "activeTxns e2 = activeTxns e" "nextTx e2 = nextTx e" using lock by (simp_all add: U2(4) U1(5))
  have "heapOf e2 t = Some h2" using tbl1 by (simp add: U2(4) heapOf_setHeap)
  then have heap: "heapOf ?e5 t = Some h2"
    using e2 act by (simp add: commit_eq Begin_eq heapOf_def tableOf_def)
  have com: "committed_for ?e5 (nextTx e + 1) = insert b (insert a (committed e2))"
    using e2 act by (simp add: commit_eq Begin_eq committed_for_def)
  have "commit a e2 = (?e3, Inr ())" "commit b ?e3 = (?e4, Inr ())" "Begin ?e4 = (?e5, Inr (nextTx e + 1))"
    using e2 act by (simp_all add: commit_eq Begin_eq)
  moreover have "(rid1, newVersion a ra) \<in> set (snapshot ?e5 (nextTx e + 1) (versions h2))"
    "(rid2, newVersion b rb) \<in> set (snapshot ?e5 (nextTx e + 1) (versions h2))"
    using in1 in2 unfolding snapshot_def com by (simp_all add: visible_def)
  ultimately show ?thesis using U1(1) U2(1) heap by blast
qed

theorem concurrent_updates_both_commit_witness:
  "\<exists>e1 e2 e3 e4 e5 c hf. Update 2 ''t'' demoRowID demoRow demoEngine1 = (e1, Inr ()) \<and>
    Update 3 ''t'' demoRowID demoRow e1 = (e2, Inr ()) \<and>
    commit 2 e2 = (e3, Inr ()) \<and> commit 3 e3 = (e4, Inr ()) \<and> Begin e4 = (e5, Inr c) \<and> heapOf e5 ''t'' = Some hf \<and>
    (\<exists>rid1. (rid1, newVersion 2 demoRow) \<in> set (snapshot e5 c (versions hf))) \<and>
    (\<exists>rid2. (rid2, newVersion 3 demoRow) \<in> set (snapshot e5 c (versions hf)))"
proof -
  obtain hf where D: "demoEngine1 = setHeap ''t'' hf demoEngine" "rows_inv hf" "pageCount hf \<le> 1"
    "versions hf = [(demoRowID, newVersion 1 demoRow)]" "tableOf demoEngine1 ''t'' = Some (demoMeta\<lparr>tmHeapFile := hf\<rparr>)"
    by (rule demoEngine1_ok)
  have "txn_inv demoEngine1" using demoEngine_ok(6) by (simp add: txn_inv_def D(1))
  moreover have "2 \<in> activeTxns demoEngine1" "3 \<in> activeTxns demoEngine1" "1 \<in> committed_for demoEngine1 2"
    "1 \<in> committed_for demoEngine1 3"
    by (simp_all add: D(1) committed_for_def) (simp_all add: demoEngine_def)
  ultimately show ?thesis
    by (intro concurrent_updates_both_commit [OF D(5), where r = "newVersion 1 demoRow"])
      (use D(2-4) demoRow_ok demoEngine_ok(5) in simp_all)
qed

end
