(* ===== verification/StorageReads.thy ===== *)
theory StorageReads
  imports EngineWrite Plans
begin

text \<open>
  The storage engine behind the executor's interface: its methods as a record of operations, and the
  interpretation of \<open>storage_reads\<close> on them.  A query then computes \<open>selectRows\<close> of the rows in the
  snapshot of its transaction.
\<close>

section \<open>The interface\<close>

text \<open>The two implementations of \<^verbatim>\<open>core.RowIterator\<close>.\<close>

datatype rowIterator = HeapIter heapFileIterator | SeekIter btreeIterator

fun iteratorNext :: "rowIterator \<Rightarrow> engine \<Rightarrow> engine \<times> (rowIterator \<times> (rowID \<times> row) option) res" where
  "iteratorNext (HeapIter it) e = andThen (Next it e) (\<lambda>(it, x) e. (e, Inr (HeapIter it, x)))"
| "iteratorNext (SeekIter it) e = andThen (Seek_Next it e) (\<lambda>(it, x) e. (e, Inr (SeekIter it, x)))"

definition storageOps :: "(engine, rowIterator) storageEngine" where
  "storageOps = \<lparr>
     eBegin = Begin, eCommit = commit, eRollback = rollback,
     eCreateTable = (\<lambda>_. CreateTable), eDropTable = (\<lambda>_. DropTable), eGetSchema = GetSchema, eListTables = ListTables,
     eInsert = Insert, eUpdate = Update, eDelete = Delete,
     eScan = (\<lambda>txn t e. andThen (Scan txn t e) (\<lambda>it e. (e, Inr (HeapIter it)))),
     eNext = iteratorNext,
     eCreateIndex = (\<lambda>_. CreateIndex), eHasIndex = HasIndex,
     eSeekIndex = (\<lambda>txn t c key e. andThen (SeekIndex txn t c key e) (\<lambda>it e. (e, Inr (SeekIter it)))),
     eAnalyze = Analyze, eStats = Stats,
     eSetValue = (\<lambda>_ _ _ _ _ e. e)\<rparr>"

lemma storageOps_sel [simp]:
  "eBegin storageOps = Begin" "eCommit storageOps = commit" "eRollback storageOps = rollback"
  "eGetSchema storageOps = GetSchema" "eHasIndex storageOps = HasIndex" "eNext storageOps = iteratorNext"
  "eInsert storageOps = Insert" "eUpdate storageOps = Update" "eDelete storageOps = Delete"
  "eScan storageOps = (\<lambda>txn t e. andThen (Scan txn t e) (\<lambda>it e. (e, Inr (HeapIter it))))"
  "eSetValue storageOps = (\<lambda>_ _ _ _ _ e. e)"
  by (simp_all add: storageOps_def)

section \<open>Reading\<close>

definition engine_inv :: "engine \<Rightarrow> bool" where
  "engine_inv e \<longleftrightarrow> \<not> mu e \<and> (\<forall>t meta. tableOf e t = Some meta \<longrightarrow> rows_inv (tmHeapFile meta))"

definition engine_reads :: "engine \<Rightarrow> engine \<Rightarrow> bool" where
  "engine_reads = (\<lambda>e e'. \<exists>t. cache_step t e e')\<^sup>*\<^sup>*"

definition tableSchema :: "engine \<Rightarrow> string \<Rightarrow> schema option" where
  "tableSchema e t = map_option tmSchema (tableOf e t)"

definition tableView :: "engine \<Rightarrow> txnID \<Rightarrow> string \<Rightarrow> (rowID \<times> row) list" where
  "tableView e txn t = (case tableOf e t of None \<Rightarrow> [] | Some meta \<Rightarrow> snapshot e txn (versions (tmHeapFile meta)))"

definition hasIndexOn :: "engine \<Rightarrow> string \<Rightarrow> string \<Rightarrow> bool" where
  "hasIndexOn e t c \<longleftrightarrow> (\<exists>meta. tableOf e t = Some meta \<and> map_of (IndexRoots meta) c \<noteq> None)"

fun iter_live :: "engine \<Rightarrow> rowIterator \<Rightarrow> bool" where
  "iter_live e (HeapIter it) \<longleftrightarrow>
     (\<exists>meta. tableOf e (itTable it) = Some meta \<and> itPageCount it \<le> pageCount (tmHeapFile meta))"
| "iter_live e (SeekIter it) \<longleftrightarrow> False"

fun iter_rows :: "engine \<Rightarrow> rowIterator \<Rightarrow> (rowID \<times> row) list" where
  "iter_rows e (HeapIter it) =
     (case tableOf e (itTable it) of None \<Rightarrow> [] | Some meta \<Rightarrow> filter (sees it e \<circ> snd) (rest (tmHeapFile meta) it))"
| "iter_rows e (SeekIter it) = []"

lemma engine_readsI: "cache_step t e e' \<Longrightarrow> engine_reads e e'"
  unfolding engine_reads_def by (rule r_into_rtranclp) blast

lemma engine_reads_induct [consumes 1, case_names refl step]:
  assumes "engine_reads e e'" and "P e" and "\<And>e1 t e2. P e1 \<Longrightarrow> cache_step t e1 e2 \<Longrightarrow> P e2"
  shows "P e'"
  using assms(1) unfolding engine_reads_def by (induction rule: rtranclp_induct) (use assms(2,3) in blast)+

text \<open>What a cache step leaves as it was.\<close>

lemma cache_step_tableOf:
  assumes "cache_step t e e'"
  obtains meta hf where "tableOf e t = Some meta" "same_view (tmHeapFile meta) hf"
    "tableOf e' = (tableOf e)(t \<mapsto> meta\<lparr>tmHeapFile := hf\<rparr>)" "mu e' = mu e" "committed_for e' = committed_for e"
  using assms by (auto simp: cache_step_def tableOf_setHeap fun_eq_iff intro: that)

lemma cache_step_inv: "cache_step t e e' \<Longrightarrow> engine_inv e \<Longrightarrow> engine_inv e'"
  by (erule cache_step_tableOf) (auto simp: engine_inv_def same_view_heap(4) split: if_splits)

lemma cache_step_tables:
  assumes "cache_step t e e'"
  shows "tableSchema e' = tableSchema e" and "tableView e' = tableView e" and "hasIndexOn e' = hasIndexOn e"
proof -
  from assms obtain meta hf where
    m: "tableOf e t = Some meta" "same_view (tmHeapFile meta) hf"
    "tableOf e' = (tableOf e)(t \<mapsto> meta\<lparr>tmHeapFile := hf\<rparr>)" "mu e' = mu e" "committed_for e' = committed_for e"
    by (rule cache_step_tableOf)
  have "snapshot e' = snapshot e" by (simp add: snapshot_def m(5) fun_eq_iff)
  then show "tableView e' = tableView e"
    using m same_view_heap(2) [OF m(2)] by (auto simp: tableView_def fun_eq_iff split: option.splits)
  show "tableSchema e' = tableSchema e" "hasIndexOn e' = hasIndexOn e"
    using m by (auto simp: tableSchema_def hasIndexOn_def fun_eq_iff)
qed

lemma cache_step_iter:
  assumes "cache_step t e e'" and "iter_live e it"
  shows "iter_live e' it" and "iter_rows e' it = iter_rows e it"
proof -
  from assms(1) obtain meta hf where
    m: "tableOf e t = Some meta" "same_view (tmHeapFile meta) hf"
    "tableOf e' = (tableOf e)(t \<mapsto> meta\<lparr>tmHeapFile := hf\<rparr>)" by (rule cache_step_tableOf)
  from assms(2) obtain h where h: "it = HeapIter h" by (cases it) auto
  show "iter_live e' it" using assms(2) m same_viewD(3) [OF m(2)] by (auto simp: h)
  show "iter_rows e' it = iter_rows e it"
    using m rest_same_view [OF m(2)] sees_cache_step [OF assms(1)] by (auto simp: h split: option.splits)
qed

lemma iteratorNext_ok:
  assumes "engine_inv e" and "iter_live e it"
  shows "\<exists>e' it'. iteratorNext it e = (e', Inr (it', case iter_rows e it of [] \<Rightarrow> None | x # _ \<Rightarrow> Some x)) \<and>
    engine_reads e e' \<and> iter_live e' it' \<and> iter_rows e' it' = tl (iter_rows e it)"
proof -
  from assms(2) obtain h meta where h: "it = HeapIter h" "tableOf e (itTable h) = Some meta" "itPageCount h \<le> pageCount (tmHeapFile meta)"
    by (cases it) auto
  from Next_ok [OF h(2) _ h(3)] assms(1) h(2) obtain e' h' r where
    N: "Next h e = (e', Inr (h', r))" "cache_step (itTable h) e e'" "next_spec e (tmHeapFile meta) h h' r"
    by (auto simp: engine_inv_def)
  have sc: "same_scan h h'" using N(3) by (simp add: next_spec_def)
  have live: "iter_live e (HeapIter h')" using h sc by (auto simp: same_scan_def)
  have rows: "iter_rows e (HeapIter i) = filter (sees h e \<circ> snd) (rest (tmHeapFile meta) i)" if "same_scan h i" for i
    using h sees_cong [OF that] that by (simp add: same_scan_def comp_def)
  have "same_scan h h" by (simp add: same_scan_def)
  with N(3) rows [of h] rows [OF sc] have
    "r = (case iter_rows e it of [] \<Rightarrow> None | x # _ \<Rightarrow> Some x) \<and> iter_rows e (HeapIter h') = tl (iter_rows e it)"
    by (cases r) (simp_all add: next_spec_def h(1) comp_def)
  with N h(1) cache_step_iter [OF N(2) live] engine_readsI [OF N(2)] show ?thesis
    by (intro exI [of _ e'] exI [of _ "HeapIter h'"]) simp
qed

interpretation se: storage_reads storageOps engine_inv engine_reads iter_live iter_rows tableSchema tableView hasIndexOn
  "\<lambda>_ _ _ _. False" "\<lambda>_ _ _ _ _. []"
proof unfold_locales
  fix e e1 e2 :: engine
  show "engine_reads e e" by (simp add: engine_reads_def)
  show "engine_reads e e1 \<Longrightarrow> engine_reads e1 e2 \<Longrightarrow> engine_reads e e2" by (simp add: engine_reads_def)
  show "engine_inv e \<Longrightarrow> engine_reads e e1 \<Longrightarrow> engine_inv e1"
    by (erule engine_reads_induct) (auto intro: cache_step_inv)
  show "engine_reads e e1 \<Longrightarrow> tableSchema e1 = tableSchema e \<and> tableView e1 = tableView e \<and> hasIndexOn e1 = hasIndexOn e \<and>
      (\<lambda>_ _ _. False) = (\<lambda>_ _ _. False) \<and> (\<lambda>_ _ _ _. []) = (\<lambda>_ _ _ _. [])"
    by (erule engine_reads_induct) (auto dest: cache_step_tables)
  show "iter_live e it \<Longrightarrow> engine_reads e e1 \<Longrightarrow> iter_live e1 it \<and> iter_rows e1 it = iter_rows e it" for it
    by (erule engine_reads_induct) (auto dest: cache_step_iter)
  fix t c txn
  assume inv: "engine_inv e"
  then have "\<not> mu e" by (simp add: engine_inv_def)
  then show "\<exists>s'. eGetSchema storageOps t e = (s', Inr (tableSchema e t)) \<and> engine_reads e s'"
    by (auto simp: GetSchema_def withLock_def GetTable_def tableSchema_def tableOf_def engine_reads_def split: option.splits)
  show "\<exists>s'. eHasIndex storageOps t c e = (s', Inr (hasIndexOn e t c)) \<and> engine_reads e s'"
    using \<open>\<not> mu e\<close> by (auto simp: HasIndex_def withLock_def GetTable_def hasIndexOn_def tableOf_def engine_reads_def split: option.splits)
  show "tableSchema e t \<noteq> None \<Longrightarrow> \<exists>s' it. eScan storageOps txn t e = (s', Inr it) \<and> engine_reads e s' \<and> iter_live s' it \<and>
      iter_rows s' it = tableView e txn t"
  proof -
    assume "tableSchema e t \<noteq> None"
    then obtain meta where m: "tableOf e t = Some meta" by (auto simp: tableSchema_def)
    then have rows: "rows_inv (tmHeapFile meta)" using inv by (simp add: engine_inv_def)
    let ?it = "\<lparr>itTable = t, itTxn = txn, itRaw = False, itPageCount = pageCount (tmHeapFile meta), currPage = 0, currSlot = 0\<rparr>"
    have "Scan txn t e = (e, Inr ?it)" using m by (simp add: Scan_def GetTable_eq)
    moreover have "iter_rows e (HeapIter ?it) = tableView e txn t"
      using m by (auto simp: rest_versions [OF rows] tableView_def snapshot_def sees_def intro: filter_cong)
    ultimately show ?thesis using m by (intro exI [of _ e] exI [of _ "HeapIter ?it"]) (simp add: engine_reads_def)
  qed
  show "iter_live e it \<Longrightarrow> \<exists>s' it'. eNext storageOps it e = (s', Inr (it', case iter_rows e it of [] \<Rightarrow> None | x # _ \<Rightarrow> Some x)) \<and>
      engine_reads e s' \<and> iter_live s' it' \<and> iter_rows s' it' = tl (iter_rows e it)" for it
    using iteratorNext_ok [OF inv] by simp
qed auto

section \<open>Properties\<close>

lemma demoEngine1_inv: "engine_inv demoEngine1" and demoEngine1_tables: "tableSchema demoEngine1 ''t'' = Some (tmSchema demoMeta)"
  and demoEngine1_view: "tableView demoEngine1 2 ''t'' = [(demoRowID, newVersion 1 demoRow)]"
  and demoEngine1_index: "\<not> hasIndexOn demoEngine1 t c"
proof -
  from demoEngine1_ok obtain hf where hf: "demoEngine1 = setHeap ''t'' hf demoEngine" "rows_inv hf" "pageCount hf \<le> 1"
    "versions hf = [(demoRowID, newVersion 1 demoRow)]" "tableOf demoEngine1 ''t'' = Some (demoMeta\<lparr>tmHeapFile := hf\<rparr>)" .
  have tbl: "tableOf demoEngine1 = [''t'' \<mapsto> demoMeta\<lparr>tmHeapFile := hf\<rparr>]"
    using demoEngine_ok(1) unfolding hf(1)
    by (simp add: tableOf_setHeap) (simp add: tableOf_def demoEngine_def fun_eq_iff)
  have "\<not> mu demoEngine1" "committed_for demoEngine1 2 = {1}"
    unfolding hf(1) setHeap_sel by (simp_all add: demoEngine_def committed_for_def)
  with tbl hf(2,4) show "engine_inv demoEngine1" "tableSchema demoEngine1 ''t'' = Some (tmSchema demoMeta)"
    "tableView demoEngine1 2 ''t'' = [(demoRowID, newVersion 1 demoRow)]" "\<not> hasIndexOn demoEngine1 t c"
    by (auto simp: engine_inv_def tableSchema_def tableView_def snapshot_def visible_def hasIndexOn_def demoEngine_ok split: if_splits)
qed

text \<open>C19: Queries.  When no table has an index and every table of the query exists, executing a SELECT on the
  storage engine ends and returns exactly the result of the query over the rows visible to its transaction:
  the tables joined from left to right, the rows on which the condition is true, the projected columns, in
  that order, or the first error; and nothing but cached pages changes.\<close>

theorem select_snapshot:
  assumes "engine_inv e" and "\<And>t. t \<in> insert from (joinTable ` set joins) \<Longrightarrow> tableSchema e t = Some (sch t)"
    and "\<And>t c. \<not> hasIndexOn e t c"
  shows "\<exists>e'. engine_reads e e' \<and> enough (\<lambda>n.
    Execute n (Some storageOps) (Some txn) (Some (SelectStmt es from alias joins w)) e =
      (e', selectRows sch (\<lambda>t. map snd (tableView e txn t)) es from joins w))"
  using se.executeSelect_selectRows [OF assms(1), of "from" sch joins txn es w] assms(2,3)
  by (simp add: Execute_def)

theorem select_snapshot_witness:
  "\<exists>e'. engine_reads demoEngine1 e' \<and> enough (\<lambda>n.
    Execute n (Some storageOps) (Some 2)
      (Some (SelectStmt [ColumnRef [] ''id''] ''t'' [] []
        (Some (BinaryExpr OpEq (ColumnRef [] ''id'') (Literal (NewInt 7)))))) demoEngine1 =
      (e', Inr \<lparr>resSchema = \<lparr>Columns = [\<lparr>colName = ''id'', colType = TypeInt\<rparr>]\<rparr>,
                 resRows = [\<lparr>Values = [NewInt 7], Xmin = 0, Xmax = 0\<rparr>], RowsAffected = 0\<rparr>))"
  using select_snapshot [of demoEngine1 "''t''" "[]" "\<lambda>_. tmSchema demoMeta" 2
    "[ColumnRef [] ''id'']" "[]" "Some (BinaryExpr OpEq (ColumnRef [] ''id'') (Literal (NewInt 7)))"]
  by (simp add: demoEngine1_inv demoEngine1_tables demoEngine1_view demoEngine1_index selectRows_def whereRows_def projectRows_def
      demoMeta_def newVersion_def demoRow_def stored_row_def stored_value_def ColumnIndex_def evalWhere_def evalBinary_vals_def
      evalComparison_def Compare_def NewInt_def NewBool_def projectStream_def)

end
