(* ===== verification/StorageWrites.thy ===== *)
theory StorageWrites
  imports StorageReads Statements
begin

text \<open>
  The storage engine keeps its promises to a writer (the interpretation of \<open>storage_writes\<close>), so that
  INSERT, UPDATE and DELETE change exactly what they should in the view of their own transaction.
\<close>

definition engine_ready :: "engine \<Rightarrow> txnID \<Rightarrow> string \<Rightarrow> nat \<Rightarrow> bool" where
  "engine_ready e txn t k \<longleftrightarrow> txn \<noteq> 0 \<and> txn \<notin> committed_for e txn \<and>
     (\<exists>meta. tableOf e t = Some meta \<and> IndexRoots meta = [] \<and> pageCount (tmHeapFile meta) + k \<le> 2 ^ 48)"

definition row_fits :: "val list \<Rightarrow> bool" where
  "row_fits vs \<longleftrightarrow> (let r = \<lparr>Values = vs, Xmin = 0, Xmax = 0\<rparr> in storable r \<and> length (Serialize r) \<le> 4088)"

lemma row_fitsD: "row_fits (Values r) \<Longrightarrow> storable r" "row_fits (Values r) \<Longrightarrow> length (Serialize r) \<le> 4088"
  by (simp_all add: row_fits_def Let_def storable_def Serialize_def)

lemma cache_step_ready:
  assumes "cache_step t0 e e'"
  shows "engine_ready e' = engine_ready e" and "conflict_free e' = conflict_free e"
proof -
  from assms obtain meta hf where
    m: "tableOf e t0 = Some meta" "same_view (tmHeapFile meta) hf"
    "tableOf e' = (tableOf e)(t0 \<mapsto> meta\<lparr>tmHeapFile := hf\<rparr>)" "mu e' = mu e" "committed_for e' = committed_for e"
    by (rule cache_step_tableOf)
  then show "engine_ready e' = engine_ready e"
    using same_viewD(3) [OF m(2)] by (auto simp: engine_ready_def fun_eq_iff)
  show "conflict_free e' = conflict_free e" using assms by (auto simp: cache_step_def conflict_free_def fun_eq_iff)
qed

lemma engine_inv_setHeap: "engine_inv e \<Longrightarrow> tableOf e t = Some meta \<Longrightarrow> rows_inv hf \<Longrightarrow> engine_inv (setHeap t hf e)"
  by (auto simp: engine_inv_def tableOf_setHeap split: if_splits)

lemma setHeap_facts:
  assumes "tableOf e t = Some meta"
  shows "tableSchema (setHeap t hf e) = tableSchema e"
    and "tableView (setHeap t hf e) txn t = snapshot e txn (versions hf)"
    and "conflict_free (setHeap t hf e) = conflict_free e"
proof -
  show "tableSchema (setHeap t hf e) = tableSchema e" using assms by (auto simp: tableSchema_def tableOf_setHeap fun_eq_iff)
  have "snapshot (setHeap t hf e) = snapshot e" by (simp add: snapshot_def fun_eq_iff)
  then show "tableView (setHeap t hf e) txn t = snapshot e txn (versions hf)" using assms by (simp add: tableView_def tableOf_setHeap)
  show "conflict_free (setHeap t hf e) = conflict_free e" by (simp add: conflict_free_def fun_eq_iff)
qed

lemma engine_ready_setHeap:
  assumes "engine_ready e txn t (k + j)" and "tableOf e t = Some meta" and "pageCount hf \<le> j + pageCount (tmHeapFile meta)"
  shows "engine_ready (setHeap t hf e) txn t k"
  using assms by (auto simp: engine_ready_def tableOf_setHeap)

lemma mset_filter_other:
  assumes "distinct (map fst xs)" and "x \<in> set xs"
  shows "mset (filter (\<lambda>y. fst y \<noteq> fst x) xs) = mset xs - {#x#}"
  using assms
proof (induction xs)
  case (Cons y ys)
  show ?case
  proof (cases "x = y")
    case True
    have "filter (\<lambda>z. fst z \<noteq> fst y) ys = ys" by (rule filter_True) (use distinct_fst_other [OF Cons.prems(1)] in blast)
    with True show ?thesis by simp
  next
    case False
    with Cons.prems have "x \<in> set ys" by simp
    with Cons distinct_fst_other [OF Cons.prems(1) this] False show ?thesis by auto
  qed
qed simp

lemma view_version:
  assumes "engine_inv e" and "tableOf e t = Some meta" and "x \<in> set (tableView e txn t)"
  shows "map_of (versions (tmHeapFile meta)) (fst x) = Some (snd x)"
proof -
  have "distinct (map fst (versions (tmHeapFile meta)))" using assms(1,2) by (simp add: engine_inv_def distinct_versions)
  moreover have "x \<in> set (versions (tmHeapFile meta))" using assms(2,3) by (auto simp: tableView_def snapshot_def)
  ultimately show ?thesis by simp
qed

lemma distinct_tableView: "engine_inv e \<Longrightarrow> distinct (map fst (tableView e txn t))"
  by (auto simp: tableView_def snapshot_def engine_inv_def intro!: distinct_map_filter distinct_versions split: option.splits)

lemma writeThrough_storage [simp]: "writeThrough storageOps txn t rid ws e = e"
  by (induction ws rule: rev_induct) (auto simp: writeThrough_def)

lemma norm_newVersion: "Values (newVersion txn r) = map stored_value (Values r)"
  by (simp add: newVersion_def stored_row_def)

lemma engine_insert:
  assumes "engine_inv e" and "engine_ready e txn t (Suc k)" and "row_fits vs"
  shows "\<exists>e' rid x. Insert txn t \<lparr>Values = vs, Xmin = 0, Xmax = 0\<rparr> e = (e', Inr rid) \<and> engine_inv e' \<and> engine_ready e' txn t k \<and>
    tableSchema e' = tableSchema e \<and> mset (tableView e' txn t) = add_mset x (mset (tableView e txn t)) \<and>
    Values (snd x) = map stored_value vs"
proof -
  let ?r = "\<lparr>Values = vs, Xmin = 0, Xmax = 0\<rparr>"
  from assms(2) obtain meta where m: "tableOf e t = Some meta" "IndexRoots meta = []" "pageCount (tmHeapFile meta) < 2 ^ 48"
    "txn \<notin> committed_for e txn" by (auto simp: engine_ready_def)
  have rows: "rows_inv (tmHeapFile meta)" using assms(1) m(1) by (simp add: engine_inv_def)
  have "storable ?r" "length (Serialize ?r) \<le> 4088" using assms(3) by (simp_all add: row_fits_def Let_def)
  from Insert_heap [OF m(1) rows m(3) this, of txn] m(2) obtain e' res hf rid xs ys where
    I: "Insert txn t ?r e = (e', res)" "rows_inv hf" "versions (tmHeapFile meta) = xs @ ys"
    "versions hf = xs @ (rid, newVersion txn ?r) # ys" "res = Inr rid \<and> e' = setHeap t hf e"
    "pageCount hf \<le> Suc (pageCount (tmHeapFile meta))" by metis
  have "tableView e' txn t = snapshot e txn xs @ (rid, newVersion txn ?r) # snapshot e txn ys"
    using I(4,5) setHeap_facts(2) [OF m(1), of hf txn] snapshot_own [OF m(4)] by simp
  moreover have "tableView e txn t = snapshot e txn xs @ snapshot e txn ys"
    using m(1) I(3) by (simp add: tableView_def snapshot_append)
  moreover have "engine_ready e' txn t k" using engine_ready_setHeap [of e txn t k 1 meta hf] assms(2) m(1) I(5,6) by simp
  ultimately show ?thesis using I engine_inv_setHeap [OF assms(1) m(1) I(2)] setHeap_facts(1) [OF m(1)]
    by (intro exI [of _ e'] exI [of _ rid] exI [of _ "(rid, newVersion txn ?r)"]) (simp add: norm_newVersion)
qed

lemma engine_delete:
  assumes "engine_inv e" and "engine_ready e txn t k" and "x \<in> set (tableView e txn t)" and "conflict_free e txn (snd x)"
  shows "\<exists>e'. Delete txn t (fst x) e = (e', Inr ()) \<and> engine_inv e' \<and> engine_ready e' txn t k \<and> tableSchema e' = tableSchema e \<and>
    tableView e' txn t = filter (\<lambda>y. fst y \<noteq> fst x) (tableView e txn t) \<and> conflict_free e' = conflict_free e"
proof -
  from assms(2) obtain meta where m: "tableOf e t = Some meta" "txn \<noteq> 0" by (auto simp: engine_ready_def)
  have e: "rows_inv (tmHeapFile meta)" "\<not> mu e" using assms(1) m(1) by (simp_all add: engine_inv_def)
  note v = view_version [OF assms(1) m(1) assms(3)]
  from Delete_ok [OF m(1) e v assms(4)] obtain e' hf where
    D: "Delete txn t (fst x) e = (e', Inr ())" "rows_inv hf"
    "versions hf = replace_key (fst x) (snd x\<lparr>Xmax := txn\<rparr>) (versions (tmHeapFile meta))"
    "pageCount hf = pageCount (tmHeapFile meta)" "e' = setHeap t hf e" by metis
  have "tableView e' txn t = filter (\<lambda>y. fst y \<noteq> fst x) (tableView e txn t)"
    using snapshot_stamp_own [OF distinct_versions [OF e(1)] v m(2), of e] setHeap_facts(2) [OF m(1), of hf txn] D(3,5) m(1)
    by (simp add: tableView_def case_prod_unfold)
  with D m(1) assms(1,2) engine_ready_setHeap [of e txn t k 0 meta hf] show ?thesis
    by (simp add: engine_inv_setHeap setHeap_facts)
qed

lemma engine_update:
  assumes "engine_inv e" and "engine_ready e txn t (Suc k)" and "x \<in> set (tableView e txn t)" and "conflict_free e txn (snd x)"
    and "row_fits (Values r)"
  shows "\<exists>e' y. Update txn t (fst x) r e = (e', Inr ()) \<and> engine_inv e' \<and> engine_ready e' txn t k \<and> tableSchema e' = tableSchema e \<and>
    mset (tableView e' txn t) = add_mset y (mset (tableView e txn t) - {#x#}) \<and> Values (snd y) = map stored_value (Values r) \<and>
    conflict_free e' = conflict_free e"
proof -
  from assms(2) obtain meta where m: "tableOf e t = Some meta" "txn \<noteq> 0" "txn \<notin> committed_for e txn" "IndexRoots meta = []"
    "pageCount (tmHeapFile meta) < 2 ^ 48" by (auto simp: engine_ready_def)
  have e: "rows_inv (tmHeapFile meta)" "\<not> mu e" using assms(1) m(1) by (simp_all add: engine_inv_def)
  have r: "storable r" "length (Serialize r) \<le> 4088" using assms(5) by (simp_all add: row_fitsD)
  note v = view_version [OF assms(1) m(1) assms(3)]
  from Update_ok [OF m(1) e v assms(4) m(5) r] m(4) obtain e' res hf rid xs ys where
    U: "Update txn t (fst x) r e = (e', res)" "rows_inv hf"
    "replace_key (fst x) (snd x\<lparr>Xmax := txn\<rparr>) (versions (tmHeapFile meta)) = xs @ ys"
    "versions hf = xs @ (rid, newVersion txn r) # ys" "res = Inr () \<and> e' = setHeap t hf e"
    "pageCount hf \<le> Suc (pageCount (tmHeapFile meta))" by metis
  have "snapshot e txn xs @ snapshot e txn ys = filter (\<lambda>y. fst y \<noteq> fst x) (tableView e txn t)"
    using snapshot_stamp_own [OF distinct_versions [OF e(1)] v m(2), of e] U(3) m(1)
    by (simp add: tableView_def case_prod_unfold snapshot_append)
  moreover have "tableView e' txn t = snapshot e txn xs @ (rid, newVersion txn r) # snapshot e txn ys"
    using U(4,5) setHeap_facts(2) [OF m(1), of hf txn] snapshot_own [OF m(3)] by simp
  ultimately have "mset (tableView e' txn t) = add_mset (rid, newVersion txn r) (mset (tableView e txn t) - {#x#})"
    using mset_filter_other [OF distinct_tableView [OF assms(1)] assms(3)]
    by (metis mset_append union_mset_add_mset_right mset.simps(2))
  with U m(1) assms(1,2) engine_ready_setHeap [of e txn t k 1 meta hf] show ?thesis
    by (intro exI [of _ e'] exI [of _ "(rid, newVersion txn r)"])
      (simp add: engine_inv_setHeap setHeap_facts norm_newVersion)
qed

interpretation sw: storage_writes storageOps engine_inv engine_reads iter_live iter_rows tableSchema tableView hasIndexOn
  "\<lambda>_ _ _ _. False" "\<lambda>_ _ _ _ _. []" engine_ready "\<lambda>e txn t x. conflict_free e txn (snd x)" "\<lambda>_ _. row_fits" "map stored_value"
proof unfold_locales
  fix e e' :: engine and txn t k x vs
  assume inv: "engine_inv e"
  show "engine_reads e e' \<Longrightarrow> engine_ready e' = engine_ready e \<and>
      (\<lambda>txn (t :: string) (x :: rowID \<times> row). conflict_free e' txn (snd x)) = (\<lambda>txn t x. conflict_free e txn (snd x)) \<and> (\<lambda>(_ :: string). row_fits) = (\<lambda>_. row_fits)"
    by (erule engine_reads_induct) (auto simp: cache_step_ready)
  show "distinct (map fst (tableView e txn t))" by (rule distinct_tableView [OF inv])
  show "engine_ready e txn t (Suc k) \<Longrightarrow> row_fits vs \<Longrightarrow>
      \<exists>s' rid x. eInsert storageOps txn t \<lparr>Values = vs, Xmin = 0, Xmax = 0\<rparr> e = (s', Inr rid) \<and> engine_inv s' \<and> engine_ready s' txn t k \<and>
        tableSchema s' = tableSchema e \<and> mset (tableView s' txn t) = add_mset x (mset (tableView e txn t)) \<and> Values (snd x) = map stored_value vs"
    using engine_insert [OF inv] by simp
  show "engine_ready e txn t k \<Longrightarrow> x \<in> set (tableView e txn t) \<Longrightarrow> conflict_free e txn (snd x) \<Longrightarrow>
      \<exists>s'. eDelete storageOps txn t (fst x) e = (s', Inr ()) \<and> engine_inv s' \<and> engine_ready s' txn t k \<and> tableSchema s' = tableSchema e \<and>
        tableView s' txn t = filter (\<lambda>y. fst y \<noteq> fst x) (tableView e txn t) \<and>
        (\<forall>y. fst y \<noteq> fst x \<longrightarrow> conflict_free e txn (snd y) \<longrightarrow> conflict_free s' txn (snd y))"
    using engine_delete [OF inv] by (metis storageOps_sel(9))
  show "engine_ready e txn t (Suc k) \<Longrightarrow> x \<in> set (tableView e txn t) \<Longrightarrow> conflict_free e txn (snd x) \<Longrightarrow>
      row_fits (Values (writeValues ws (snd x))) \<Longrightarrow>
      \<exists>s' y. eUpdate storageOps txn t (fst x) (writeValues ws (snd x)) (writeThrough storageOps txn t (fst x) ws e) = (s', Inr ()) \<and>
        engine_inv s' \<and> engine_ready s' txn t k \<and> tableSchema s' = tableSchema e \<and> (\<lambda>(_ :: string). row_fits) = (\<lambda>_. row_fits) \<and>
        mset (tableView s' txn t) = add_mset y (mset (tableView e txn t) - {#x#}) \<and>
        Values (snd y) = map stored_value (Values (writeValues ws (snd x))) \<and>
        (\<forall>z \<in> set (tableView e txn t). fst z \<noteq> fst x \<longrightarrow> conflict_free e txn (snd z) \<longrightarrow> conflict_free s' txn (snd z))" for ws
    using engine_update [OF inv] by (metis storageOps_sel(8) writeThrough_storage)
qed

section \<open>Properties\<close>

lemma demoEngine1_ready: "engine_ready demoEngine1 2 ''t'' 1" and demoEngine1_free: "conflict_free demoEngine1 2 (newVersion 1 demoRow)"
proof -
  from demoEngine1_ok obtain hf where hf: "demoEngine1 = setHeap ''t'' hf demoEngine" "pageCount hf \<le> 1"
    "tableOf demoEngine1 ''t'' = Some (demoMeta\<lparr>tmHeapFile := hf\<rparr>)" .
  have c: "committed_for demoEngine1 2 = {1}" "txnSnapshots demoEngine1 2 = Some {1}"
    unfolding hf(1) setHeap_sel by (simp_all add: demoEngine_def committed_for_def)
  with hf(2,3) show "engine_ready demoEngine1 2 ''t'' 1" by (simp add: engine_ready_def demoEngine_ok)
  from c(2) show "conflict_free demoEngine1 2 (newVersion 1 demoRow)" by (simp add: conflict_free_def)
qed

text \<open>The condition of the examples below and the rows that it selects.\<close>

abbreviation demoWhere :: expr where
  "demoWhere \<equiv> BinaryExpr OpEq (ColumnRef [] ''id'') (Literal (NewInt 7))"

lemma demo_match:
  "matchRows (Some demoWhere) (tmSchema demoMeta) (tableView demoEngine1 2 ''t'') = Inr [(demoRowID, newVersion 1 demoRow)]"
  by (simp add: demoEngine1_view demoMeta_def newVersion_def demoRow_def stored_row_def stored_value_def ColumnIndex_def
      evalWhere_def evalBinary_vals_def evalComparison_def Compare_def NewInt_def NewBool_def)

text \<open>C21: DELETE.  On a table without indexes, when the condition can be evaluated on the rows that the
  transaction sees and the rows that it selects are free of conflicts, executing a DELETE ends and
  reports the number of the selected rows, and the transaction then sees exactly the other rows.\<close>

theorem delete_statement:
  assumes "engine_inv e" and "tableSchema e t = Some sch" and "engine_ready e txn t k"
    and "matchRows w sch (tableView e txn t) = Inr rows" and "\<forall>x \<in> set rows. conflict_free e txn (snd x)"
  shows "\<exists>e'. enough (\<lambda>n. Execute n (Some storageOps) (Some txn) (Some (DeleteStmt t w)) e =
      (e', Inr (emptyResult\<lparr>RowsAffected := length rows\<rparr>))) \<and> engine_inv e' \<and>
    tableView e' txn t = filter (\<lambda>(_, r). evalWhere w r sch \<noteq> Inr True) (tableView e txn t)"
  using sw.executeDelete_ok [OF assms(1-4)] assms(5) by (auto simp: Execute_def)

theorem delete_statement_witness:
  "\<exists>e'. enough (\<lambda>n. Execute n (Some storageOps) (Some 2) (Some (DeleteStmt ''t'' (Some demoWhere))) demoEngine1 =
      (e', Inr (emptyResult\<lparr>RowsAffected := 1\<rparr>))) \<and> engine_inv e' \<and>
    tableView e' 2 ''t'' = filter (\<lambda>(_, r). evalWhere (Some demoWhere) r (tmSchema demoMeta) \<noteq> Inr True) (tableView demoEngine1 2 ''t'')"
  using delete_statement [OF demoEngine1_inv demoEngine1_tables demoEngine1_ready demo_match] demoEngine1_free by simp

text \<open>C20: UPDATE.  On a table without indexes, when the condition and the assignments can be evaluated,
  the new rows fit on a page and the selected rows are free of conflicts, executing an UPDATE ends and
  reports the number of the selected rows.  The transaction then sees the rows that the condition does
  not select, and for each selected row one with the assigned values, as they are stored.\<close>

theorem update_statement:
  assumes "engine_inv e" and "tableSchema e t = Some sch" and "matchRows w sch (tableView e txn t) = Inr rows"
    and "engine_ready e txn t (length rows)"
    and "\<forall>x \<in> set rows. conflict_free e txn (snd x) \<and> assignWrites as sch (snd x) \<noteq> None \<and> row_fits (Values (assigned as sch (snd x)))"
  shows "\<exists>e' news. enough (\<lambda>n. Execute n (Some storageOps) (Some txn) (Some (UpdateStmt t as w)) e =
      (e', Inr (emptyResult\<lparr>RowsAffected := length rows\<rparr>))) \<and> engine_inv e' \<and>
    mset (tableView e' txn t) = mset (filter (\<lambda>(_, r). evalWhere w r sch \<noteq> Inr True) (tableView e txn t)) + mset news \<and>
    map (Values \<circ> snd) news = map (\<lambda>x. map stored_value (Values (assigned as sch (snd x)))) rows"
  using sw.executeUpdate_ok [OF assms(1-4), of as] assms(5) by (simp add: Execute_def) metis

theorem update_statement_witness:
  "\<exists>e' news. enough (\<lambda>n. Execute n (Some storageOps) (Some 2)
      (Some (UpdateStmt ''t'' [\<lparr>asgColumn = ''id'', asgValue = BinaryExpr OpAdd (ColumnRef [] ''id'') (Literal (NewInt 1))\<rparr>] (Some demoWhere))) demoEngine1 =
      (e', Inr (emptyResult\<lparr>RowsAffected := 1\<rparr>))) \<and> engine_inv e' \<and>
    mset (tableView e' 2 ''t'') =
      mset (filter (\<lambda>(_, r). evalWhere (Some demoWhere) r (tmSchema demoMeta) \<noteq> Inr True) (tableView demoEngine1 2 ''t'')) + mset news \<and>
    map (Values \<circ> snd) news = [[NewInt 8]]"
proof -
  let ?as = "[\<lparr>asgColumn = ''id'', asgValue = BinaryExpr OpAdd (ColumnRef [] ''id'') (Literal (NewInt 1))\<rparr>]"
  let ?sch = "tmSchema demoMeta" and ?r = "newVersion 1 demoRow"
  have w: "assignWrites ?as ?sch ?r = Some [(0, NewInt 8)]"
    by (simp add: demoMeta_def newVersion_def demoRow_def stored_row_def stored_value_def ColumnIndex_def evalBinary_vals_def NewInt_def)
  then have a: "Values (assigned ?as ?sch ?r) = [NewInt 8]"
    by (simp add: assigned_def writeValues_def newVersion_def demoRow_def stored_row_def)
  have f: "row_fits [NewInt 8]" by (simp add: row_fits_def storable_def Serialize_def Serialize_value_def)
  have s: "stored_value (NewInt 8) = NewInt 8" by (simp add: stored_value_def NewInt_def)
  show ?thesis
    using update_statement [OF demoEngine1_inv demoEngine1_tables demo_match, of ?as] demoEngine1_ready demoEngine1_free w a f s by simp
qed

end
