(* ===== verification/Frame.thy ===== *)
theory Frame
  imports Executor
begin

text \<open>
  Whatever every method of an engine preserves, every statement preserves, on all paths: the locale
  \<open>engine_frame\<close> carries a relation through the executor.
\<close>

named_theorems frame_intros \<open>a relation between engine states carried through a call\<close>

lemma fst_wrapped [simp]: "fst (wrapped fmt args p) = fst p"
  by (cases "(fmt, args, p)" rule: wrapped.cases) simp_all

locale engine_frame =
  fixes eng :: "('s, 'i) storageEngine" and R :: "'s \<Rightarrow> 's \<Rightarrow> bool"
  assumes R_refl [simp, intro!]: "R s s"
    and R_trans: "R s s1 \<Longrightarrow> R s1 s2 \<Longrightarrow> R s s2"
    and R_schema [frame_intros]: "R s (fst (eGetSchema eng t s))"
    and R_create [frame_intros]: "R s (fst (eCreateTable eng txn t sch s))"
    and R_createIndex [frame_intros]: "R s (fst (eCreateIndex eng txn t c s))"
    and R_index [frame_intros]: "R s (fst (eHasIndex eng t c s))"
    and R_seek [frame_intros]: "R s (fst (eSeekIndex eng txn t c key s))"
    and R_scan [frame_intros]: "R s (fst (eScan eng txn t s))"
    and R_next [frame_intros]: "R s (fst (eNext eng it s))"
    and R_insert [frame_intros]: "R s (fst (eInsert eng txn t r s))"
    and R_update [frame_intros]: "R s (fst (eUpdate eng txn t rid r s))"
    and R_delete [frame_intros]: "R s (fst (eDelete eng txn t rid s))"
    and R_set [frame_intros]: "R s (eSetValue eng txn t rid i v s)"
begin

lemma R_andThen [frame_intros]:
  assumes "R s (fst p)" and "\<And>x s1. R s1 (fst (f x s1))"
  shows "R s (fst (andThen p f))"
  using assms R_trans by (cases "(p, f)" rule: andThen.cases) auto

lemma R_wrapped [frame_intros]: "R s (fst p) \<Longrightarrow> R s (fst (wrapped fmt args p))"
  by simp

lemma R_opNext [frame_intros]: "R s (fst (opNext eng n oper s))"
  and R_materializeRight [frame_intros]: "R s (fst (materializeRight eng n oper s))"
proof (induction n arbitrary: oper s)
  case (Suc n)
  note [frame_intros] = Suc
  {
    case 1
    show ?case by (cases oper) (auto intro!: frame_intros split: option.splits sum.splits bool.splits prod.splits)
  next
    case 2
    show ?case by (auto intro!: frame_intros split: option.splits prod.splits)
  }
qed simp_all

lemma R_builders [frame_intros]:
  "R s (fst (NewScanOp eng txn t s))" "R s (fst (NewIndexScanOp eng txn t c key s))"
  "R s (fst (NewIndexedNestedLoopJoinOp eng l txn rt rc lc on s))"
  "R s (fst (joinColumnsForIndex eng ls rs rt a b s))"
  by (auto simp: NewScanOp_def NewIndexScanOp_def NewIndexedNestedLoopJoinOp_def intro!: frame_intros split: option.splits)
    (cases "(eng, ls, rs, rt, a, b, s)" rule: joinColumnsForIndex.cases; auto intro!: frame_intros)

lemma R_findIndexed [frame_intros]: "R s (fst (findIndexedEquality_loop eng t us ts s))"
  by (induction ts arbitrary: us s) (auto intro!: frame_intros split: option.splits)

lemma R_indexedJoinEquality [frame_intros]: "R s (fst (indexedJoinEquality eng ls rt on s))"
  by (cases "(eng, ls, rt, on, s)" rule: indexedJoinEquality.cases) (auto intro!: frame_intros split: option.splits)

lemma R_buildJoins [frame_intros]: "R s (fst (buildJoins eng txn root js s))"
  by (induction js arbitrary: root s) (auto simp: buildJoinPlan_def intro!: frame_intros split: option.splits)

lemma R_drainPlan [frame_intros]: "R s (fst (drainPlan eng n root s))"
  by (induction n arbitrary: root s) (auto intro!: frame_intros split: option.splits)

lemma R_matchingRows [frame_intros]: "R s (fst (matchingRows eng n it w sch s))"
  by (induction n arbitrary: it s) (auto intro!: frame_intros split: option.splits sum.splits bool.splits)

lemma R_applyUpdateAssignments [frame_intros]: "R s (fst (applyUpdateAssignments eng txn t rid as r sch s))"
proof (induction as arbitrary: r s)
  case (Cons a as)
  have "R s (fst (applyUpdateAssignments eng txn t rid as r' sch (eSetValue eng txn t rid i v s)))" for r' i v
    by (rule R_trans [OF R_set Cons])
  then show ?case by (auto simp: Let_def split: sum.splits)
qed simp

lemma R_updateRows [frame_intros]: "R s (fst (updateRows eng txn t as sch i rows s))"
  by (induction rows arbitrary: i s) (auto intro!: frame_intros)

lemma R_deleteRows [frame_intros]: "R s (fst (deleteRows eng txn t rids s))"
  by (induction rids arbitrary: s) (auto intro!: frame_intros)

lemma R_Execute: "R s (fst (Execute n (Some eng) txn stmt s))"
  by (auto simp: Execute_def executeCreateTable_def executeCreateIndex_def executeInsert_def executeSelect_def executeUpdate_def
      executeDelete_def buildSelectPlan_def buildBaseAccessPath_def findIndexedEquality_def Let_def
      intro!: frame_intros split: option.splits stmt.splits sum.splits)

end

end
