(* ===== verification/StorageFrame.thy ===== *)
theory StorageFrame
  imports StorageReads Frame
begin

text \<open>
  The frame of the storage engine: no statement touches the transaction tables, whatever its outcome.
  The lemmas follow the calls from a state \<open>e\<close>: a call from a state with the same transactions as \<open>e\<close>
  ends in one.
\<close>

definition same_txns :: "engine \<Rightarrow> engine \<Rightarrow> bool" where
  "same_txns e e' \<longleftrightarrow> nextTx e' = nextTx e \<and> activeTxns e' = activeTxns e \<and> committed e' = committed e \<and>
     txnSnapshots e' = txnSnapshots e"

named_theorems txns_intros \<open>calls that keep the transaction tables\<close>

lemma same_txns_refl [simp]: "same_txns e e"
  by (simp add: same_txns_def)

lemma same_txns_trans: "same_txns e e1 \<Longrightarrow> same_txns e1 e2 \<Longrightarrow> same_txns e e2"
  by (simp add: same_txns_def)

lemma same_txns_fields [simp]:
  "same_txns e (setHeap t hf e1) = same_txns e e1" "same_txns e (e1\<lparr>indexFile := ix\<rparr>) = same_txns e e1"
  "same_txns e (updTable t f e1) = same_txns e e1" "same_txns e (saveCatalog e1) = same_txns e e1"
  "same_txns e (e1\<lparr>mu := b\<rparr>) = same_txns e e1" "same_txns e (e1\<lparr>catalog := c\<rparr>) = same_txns e e1"
  "same_txns e (e1\<lparr>orders := os\<rparr>) = same_txns e e1" "same_txns e (e1\<lparr>leftFiles := fs\<rparr>) = same_txns e e1"
  by (simp_all add: same_txns_def updTable_def saveCatalog_def split: option.splits)

lemma same_txns_withLock [txns_intros]:
  assumes "same_txns e e1" and "\<And>e1. same_txns e e1 \<Longrightarrow> same_txns e (fst (body e1))"
  shows "same_txns e (fst (withLock body e1))"
  using assms(1) assms(2) [of "e1\<lparr>mu := True\<rparr>"] by (auto simp: withLock_def split: prod.splits)

lemma same_txns_prod [txns_intros]:
  assumes "same_txns e (fst p)" and "\<And>e1 r. same_txns e e1 \<Longrightarrow> p = (e1, r) \<Longrightarrow> same_txns e (fst (g e1 r))"
  shows "same_txns e (fst (case p of (a, b) \<Rightarrow> g a b))"
  using assms by (cases p) simp

lemma same_txns_file [txns_intros]:
  fixes p :: "heapFile \<times> 'b"
  assumes "\<And>h r. same_txns e (fst (g h r))"
  shows "same_txns e (fst (case p of (a, b) \<Rightarrow> g a b))"
  using assms by (cases p) simp

lemma same_txns_isVisible [txns_intros]: "same_txns e e1 \<Longrightarrow> same_txns e (fst (isVisible x a b e1))"
  by (auto simp: isVisible_def intro!: txns_intros)

lemma same_txns_checkWriteConflict [txns_intros]: "same_txns e e1 \<Longrightarrow> same_txns e (fst (checkWriteConflict x r e1))"
  by (auto simp: checkWriteConflict_def intro!: txns_intros split: option.splits)

lemma same_txns_InsertIntoIndex [txns_intros]:
  "same_txns e e1 \<Longrightarrow> same_txns e (fst (insertBelow t c root key rid e1))"
  "same_txns e e1 \<Longrightarrow> same_txns e (fst (InsertIntoIndex t c key rid e1))"
  "same_txns e e1 \<Longrightarrow> same_txns e (fst (insertIntoIndexLocked t c key rid e1))"
proof -
  show below: "same_txns e e1 \<Longrightarrow> same_txns e (fst (insertBelow t c root key rid e1))" for e1 root
    by (auto simp: insertBelow_def createNewRoot_catalog_def intro!: txns_intros split: sum.splits option.splits)
  show "same_txns e e1 \<Longrightarrow> same_txns e (fst (InsertIntoIndex t c key rid e1))"
    by (auto simp: InsertIntoIndex_def getIndexRootPage_def intro!: txns_intros below split: sum.splits)
  show "same_txns e e1 \<Longrightarrow> same_txns e (fst (insertIntoIndexLocked t c key rid e1))"
    by (auto simp: insertIntoIndexLocked_def intro!: below split: sum.splits)
qed

lemma same_txns_indexVersion [txns_intros]: "same_txns e e1 \<Longrightarrow> same_txns e (fst (indexVersion t rid vals i cols e1))"
  by (induction cols arbitrary: i e1) (auto intro!: txns_intros split: option.splits sum.splits)

lemma same_txns_Insert [txns_intros]: "same_txns e e1 \<Longrightarrow> same_txns e (fst (Insert txn t r e1))"
  by (auto simp: Insert_def Let_def intro!: txns_intros split: sum.splits)

lemma same_txns_readForWrite [txns_intros]: "same_txns e e1 \<Longrightarrow> same_txns e (fst (readForWrite txn t rid e1))"
  by (auto simp: readForWrite_def intro!: txns_intros split: sum.splits)

lemma same_txns_stampVersion [txns_intros]: "same_txns e e1 \<Longrightarrow> same_txns e (fst (stampVersion t rid r e1))"
  by (auto simp: stampVersion_def split: sum.splits prod.splits)

lemma same_txns_writes [txns_intros]:
  "same_txns e e1 \<Longrightarrow> same_txns e (fst (Update txn t rid r e1))" "same_txns e e1 \<Longrightarrow> same_txns e (fst (Delete txn t rid e1))"
  by (auto simp: Update_def Delete_def intro!: txns_intros split: sum.splits)

lemma same_txns_Next_slots [txns_intros]: "same_txns e e1 \<Longrightarrow> same_txns e (fst (Next_slots pg ss it e1))"
  by (induction ss arbitrary: it e1) (auto simp: Let_def intro!: txns_intros split: sum.splits)

lemma same_txns_Next [txns_intros]: "same_txns e e1 \<Longrightarrow> same_txns e (fst (Next it e1))"
proof -
  have "same_txns e e1 \<Longrightarrow> same_txns e (fst (Next_pages ps it e1))" for ps
    by (induction ps arbitrary: it e1) (auto intro!: txns_intros split: sum.splits option.splits)
  then show "same_txns e e1 \<Longrightarrow> same_txns e (fst (Next it e1))" by (simp add: Next_def)
qed

lemma same_txns_Seek_node [txns_intros]: "same_txns e e1 \<Longrightarrow> same_txns e (fst (Seek_node ks it e1))"
proof (induction ks arbitrary: it e1)
  case (Cons x ks)
  have "same_txns e e2 \<Longrightarrow> same_txns e (fst (fetchRowByID t rid e2))" for t rid e2
    by (auto simp: fetchRowByID_def split: sum.splits prod.splits)
  with Cons show ?case by (cases x) (auto simp: Let_def intro!: txns_intros split: sum.splits)
qed simp

lemma same_txns_Seek_Next [txns_intros]: "same_txns e e1 \<Longrightarrow> same_txns e (fst (Seek_Next it e1))"
proof -
  have "same_txns e e1 \<Longrightarrow> same_txns e (fst (Seek_fuel n it e1))" for n
    by (induction n arbitrary: it e1) (auto intro!: txns_intros split: sum.splits option.splits walk.splits)
  then show "same_txns e e1 \<Longrightarrow> same_txns e (fst (Seek_Next it e1))" unfolding Seek_Next_def .
qed

lemma same_txns_indexRows [txns_intros]: "same_txns e e1 \<Longrightarrow> same_txns e (fst (indexRows n t c i it e1))"
  by (induction n arbitrary: it e1) (auto intro!: txns_intros split: sum.splits option.splits)

lemma same_txns_ddl [txns_intros]:
  "same_txns e e1 \<Longrightarrow> same_txns e (fst (CreateTable t sch e1))"
  "same_txns e e1 \<Longrightarrow> same_txns e (fst (CreateIndex t c e1))"
  "same_txns e e1 \<Longrightarrow> same_txns e (fst (GetSchema t e1))"
  "same_txns e e1 \<Longrightarrow> same_txns e (fst (HasIndex t c e1))"
  "same_txns e e1 \<Longrightarrow> same_txns e (fst (Scan txn t e1))"
  "same_txns e e1 \<Longrightarrow> same_txns e (fst (SeekIndex txn t c key e1))"
  by (auto simp: CreateTable_def CreateIndex_def GetSchema_def HasIndex_def Scan_def SeekIndex_def getIndexRootPage_def Let_def
      intro!: txns_intros split: sum.splits option.splits)

section \<open>The mutex\<close>

text \<open>A call that finds the mutex free leaves it free.\<close>

definition unlocked :: "engine \<Rightarrow> bool" where
  "unlocked e \<longleftrightarrow> \<not> mu e"

named_theorems mu_intros \<open>calls that leave the mutex free\<close>

lemma mu_withLock [mu_intros]: "unlocked e \<Longrightarrow> unlocked (fst (withLock body e))"
  by (auto simp: unlocked_def withLock_def split: prod.splits)

lemma mu_prod [mu_intros]:
  fixes p :: "engine \<times> 'b"
  assumes "unlocked (fst p)" and "\<And>e r. unlocked e \<Longrightarrow> unlocked (fst (g e r))"
  shows "unlocked (fst (case p of (a, b) \<Rightarrow> g a b))"
  using assms by (cases p) simp

lemma mu_file [mu_intros]:
  fixes p :: "heapFile \<times> 'b"
  assumes "\<And>h r. unlocked (fst (g h r))"
  shows "unlocked (fst (case p of (a, b) \<Rightarrow> g a b))"
  using assms by (cases p) simp

lemma mu_fields [simp]:
  "unlocked (updTable t f e) = unlocked e" "unlocked (saveCatalog e) = unlocked e" "unlocked (setHeap t hf e) = unlocked e"
  "unlocked (e\<lparr>indexFile := ix\<rparr>) = unlocked e"
  by (simp_all add: unlocked_def setHeap_def updTable_def saveCatalog_def split: option.splits)

lemma mu_txn_calls [mu_intros]:
  "unlocked e \<Longrightarrow> unlocked (fst (isVisible x a b e))" "unlocked e \<Longrightarrow> unlocked (fst (checkWriteConflict x r e))"
  "unlocked e \<Longrightarrow> unlocked (fst (getIndexRootPage t c e))"
  by (simp_all add: isVisible_def checkWriteConflict_def getIndexRootPage_def mu_withLock)

lemma mu_InsertIntoIndex [mu_intros]: "unlocked e \<Longrightarrow> unlocked (fst (InsertIntoIndex t c key rid e))"
  by (auto simp: InsertIntoIndex_def insertBelow_def createNewRoot_catalog_def intro!: mu_intros split: sum.splits option.splits)

lemma mu_indexVersion [mu_intros]: "unlocked e \<Longrightarrow> unlocked (fst (indexVersion t rid vals i cols e))"
  by (induction cols arbitrary: i e) (auto intro!: mu_intros split: option.splits sum.splits)

lemma mu_readForWrite [mu_intros]: "unlocked e \<Longrightarrow> unlocked (fst (readForWrite txn t rid e))"
  by (auto simp: readForWrite_def intro!: mu_intros split: sum.splits)

lemma mu_stampVersion [mu_intros]: "unlocked e \<Longrightarrow> unlocked (fst (stampVersion t rid r e))"
  by (auto simp: stampVersion_def split: sum.splits prod.splits)

lemma mu_Insert [mu_intros]: "unlocked e \<Longrightarrow> unlocked (fst (Insert txn t r e))"
  by (auto simp: Insert_def Let_def intro!: mu_intros split: sum.splits)

lemma mu_writes [mu_intros]:
  "unlocked e \<Longrightarrow> unlocked (fst (Update txn t rid r e))" "unlocked e \<Longrightarrow> unlocked (fst (Delete txn t rid e))"
  by (auto simp: Update_def Delete_def intro!: mu_intros split: sum.splits)

lemma mu_Next_slots [mu_intros]: "unlocked e \<Longrightarrow> unlocked (fst (Next_slots pg ss it e))"
  by (induction ss arbitrary: it e) (auto simp: Let_def intro!: mu_intros split: sum.splits)

lemma mu_Next [mu_intros]: "unlocked e \<Longrightarrow> unlocked (fst (Next it e))"
proof -
  have "unlocked e \<Longrightarrow> unlocked (fst (Next_pages ps it e))" for ps
    by (induction ps arbitrary: it e) (auto intro!: mu_intros split: sum.splits option.splits)
  then show "unlocked e \<Longrightarrow> unlocked (fst (Next it e))" by (simp add: Next_def)
qed

lemma mu_Seek_node [mu_intros]: "unlocked e \<Longrightarrow> unlocked (fst (Seek_node ks it e))"
proof (induction ks arbitrary: it e)
  case (Cons x ks)
  have "unlocked e2 \<Longrightarrow> unlocked (fst (fetchRowByID t rid e2))" for t rid e2
    by (auto simp: fetchRowByID_def split: sum.splits prod.splits)
  with Cons show ?case by (cases x) (auto simp: Let_def intro!: mu_intros split: sum.splits)
qed simp

lemma mu_Seek_Next [mu_intros]: "unlocked e \<Longrightarrow> unlocked (fst (Seek_Next it e))"
proof -
  have "unlocked e \<Longrightarrow> unlocked (fst (Seek_fuel n it e))" for n
    by (induction n arbitrary: it e) (auto intro!: mu_intros split: sum.splits option.splits walk.splits)
  then show "unlocked e \<Longrightarrow> unlocked (fst (Seek_Next it e))" unfolding Seek_Next_def .
qed

lemma mu_ddl [mu_intros]:
  "unlocked e \<Longrightarrow> unlocked (fst (CreateTable t sch e))" "unlocked e \<Longrightarrow> unlocked (fst (CreateIndex t c e))"
  "unlocked e \<Longrightarrow> unlocked (fst (GetSchema t e))" "unlocked e \<Longrightarrow> unlocked (fst (HasIndex t c e))"
  "unlocked e \<Longrightarrow> unlocked (fst (Scan txn t e))" "unlocked e \<Longrightarrow> unlocked (fst (SeekIndex txn t c key e))"
  by (auto simp: CreateTable_def CreateIndex_def GetSchema_def HasIndex_def Scan_def SeekIndex_def
      intro!: mu_intros split: sum.splits)

section \<open>Statements\<close>

lemma fst_andThen_pure: "fst (andThen p (\<lambda>x e. (e, Inr (f x)))) = fst p"
  by (cases p; cases "snd p") auto

definition engine_frame_rel :: "engine \<Rightarrow> engine \<Rightarrow> bool" where
  "engine_frame_rel e e' \<longleftrightarrow> same_txns e e' \<and> (unlocked e \<longrightarrow> unlocked e')"

interpretation sf: engine_frame storageOps engine_frame_rel
proof unfold_locales
  show "engine_frame_rel e (fst (eNext storageOps it e))" for e it
    by (cases it) (auto simp: engine_frame_rel_def split_def fst_andThen_pure intro: txns_intros mu_intros)
qed (auto simp: engine_frame_rel_def storageOps_def fst_andThen_pure intro: same_txns_trans txns_intros mu_intros)

lemma Execute_frame:
  assumes "Execute n (Some storageOps) txn stmt e = (e', r)"
  shows "same_txns e e'" and "\<not> mu e \<Longrightarrow> \<not> mu e'"
  using sf.R_Execute [of e n txn stmt] assms by (simp_all add: engine_frame_rel_def unlocked_def)

end
