(* ===== verification/Session.thy ===== *)
theory Session
  imports StorageWrites StorageFrame Format
begin

text \<open>
  Sessions (\<^verbatim>\<open>src/executor/session.go\<close>): a connection with at most one open transaction.  The theorems
  relate the transactions of a session to the ones of the storage engine, on every path, and show that
  the conflict errors of the storage engine are not the ones that the session looks for.
\<close>

section \<open>The session\<close>

definition isWriteConflict :: "go_error \<Rightarrow> bool" where
  "isWriteConflict err =
     (errors_Is err ErrWriteConflict \<or> errors_Is err ErrSerializationConflict \<or>
      Error err = ''write conflict'' \<or> Error err = ''write-write conflict'' \<or>
      Error err = ''row modified by a concurrent transaction'')"

record 's session =
  eng :: 's
  cur :: "txnID option"

definition NewSession :: "'s \<Rightarrow> 's session" where
  "NewSession e = \<lparr>eng = e, cur = None\<rparr>"

definition InTxn :: "'s session \<Rightarrow> bool" where
  "InTxn s \<longleftrightarrow> cur s \<noteq> None"

definition Session_ListTables :: "('s, 'i) storageEngine \<Rightarrow> 's session \<Rightarrow> 's session \<times> string list res" where
  "Session_ListTables ops s = (case eListTables ops (eng s) of (e, r) \<Rightarrow> (s\<lparr>eng := e\<rparr>, r))"

definition Session_GetSchema :: "('s, 'i) storageEngine \<Rightarrow> string \<Rightarrow> 's session \<Rightarrow> 's session \<times> schema option res" where
  "Session_GetSchema ops name s = (case eGetSchema ops name (eng s) of (e, r) \<Rightarrow> (s\<lparr>eng := e\<rparr>, r))"

definition Exec_begin :: "('s, 'i) storageEngine \<Rightarrow> 's session \<Rightarrow> 's session \<times> sqlResult res" where
  "Exec_begin ops s =
     (if cur s \<noteq> None then (s, Inl (Sentinel ErrAlreadyInTxn))
      else case eBegin ops (eng s) of
          (e, Inl err) \<Rightarrow> (s\<lparr>eng := e\<rparr>, Inl (wrapf ''begin transaction: %w'' [] err))
        | (e, Inr tx) \<Rightarrow> (\<lparr>eng = e, cur = Some tx\<rparr>, Inr emptyResult))"

text \<open>\<^verbatim>\<open>COMMIT\<close> and \<^verbatim>\<open>ROLLBACK\<close>: the transaction is forgotten even when the engine refuses.\<close>

definition Exec_end :: "(txnID \<Rightarrow> 's \<Rightarrow> 's \<times> unit res) \<Rightarrow> string \<Rightarrow> 's session \<Rightarrow> 's session \<times> sqlResult res" where
  "Exec_end finish fmt s =
     (case cur s of
        None \<Rightarrow> (s, Inl (Sentinel ErrNoTxn))
      | Some tx \<Rightarrow>
          (case finish tx (eng s) of
             (e, Inl err) \<Rightarrow> (\<lparr>eng = e, cur = (if abnormal err then cur s else None)\<rparr>, Inl (wrapf fmt [] err))
           | (e, Inr _) \<Rightarrow> (\<lparr>eng = e, cur = None\<rparr>, Inr emptyResult)))"

definition Exec_explicit :: "nat \<Rightarrow> ('s, 'i) storageEngine \<Rightarrow> stmt option \<Rightarrow> txnID \<Rightarrow> 's session \<Rightarrow> 's session \<times> sqlResult res" where
  "Exec_explicit n ops stmt tx s =
     (case Execute n (Some ops) (Some tx) stmt (eng s) of
        (e, Inr res) \<Rightarrow> (s\<lparr>eng := e\<rparr>, Inr res)
      | (e, Inl err) \<Rightarrow>
          if \<not> abnormal err \<and> isWriteConflict err then
            (case eRollback ops tx e of
               (e1, Inl err1) \<Rightarrow>
                 if abnormal err1 then (s\<lparr>eng := e1\<rparr>, Inl err1)
                 else (\<lparr>eng = e1, cur = None\<rparr>, Inl (Wrapf ''write conflict: %w'' [] err))
             | (e1, Inr _) \<Rightarrow> (\<lparr>eng = e1, cur = None\<rparr>, Inl (Wrapf ''write conflict: %w'' [] err)))
          else (s\<lparr>eng := e\<rparr>, Inl err))"

definition Exec_autocommit :: "nat \<Rightarrow> ('s, 'i) storageEngine \<Rightarrow> stmt option \<Rightarrow> 's session \<Rightarrow> 's session \<times> sqlResult res" where
  "Exec_autocommit n ops stmt s =
     (case eBegin ops (eng s) of
        (e, Inl err) \<Rightarrow> (s\<lparr>eng := e\<rparr>, Inl (wrapf ''begin autocommit transaction: %w'' [] err))
      | (e, Inr tx) \<Rightarrow>
          (case Execute n (Some ops) (Some tx) stmt e of
             (e1, Inl err) \<Rightarrow>
               if abnormal err then (s\<lparr>eng := e1\<rparr>, Inl err)
               else (case eRollback ops tx e1 of
                   (e2, Inl err2) \<Rightarrow>
                     (s\<lparr>eng := e2\<rparr>, Inl (if abnormal err2 then err2 else Wrapf ''execute in autocommit: %w'' [] err))
                 | (e2, Inr _) \<Rightarrow> (s\<lparr>eng := e2\<rparr>, Inl (Wrapf ''execute in autocommit: %w'' [] err)))
           | (e1, Inr res) \<Rightarrow>
               (case eCommit ops tx e1 of
                  (e2, Inl err) \<Rightarrow> (s\<lparr>eng := e2\<rparr>, Inl (wrapf ''commit autocommit transaction: %w'' [] err))
                | (e2, Inr _) \<Rightarrow> (s\<lparr>eng := e2\<rparr>, Inr res))))"

definition Exec :: "nat \<Rightarrow> ('s, 'i) storageEngine \<Rightarrow> stmt option \<Rightarrow> 's session \<Rightarrow> 's session \<times> sqlResult res" where
  "Exec n ops stmt s =
     (case stmt of
        Some BeginStmt \<Rightarrow> Exec_begin ops s
      | Some CommitStmt \<Rightarrow> Exec_end (eCommit ops) ''commit transaction: %w'' s
      | Some RollbackStmt \<Rightarrow> Exec_end (eRollback ops) ''rollback transaction: %w'' s
      | _ \<Rightarrow> (case cur s of Some tx \<Rightarrow> Exec_explicit n ops stmt tx s | None \<Rightarrow> Exec_autocommit n ops stmt s))"

section \<open>Sessions on the storage engine\<close>

definition session_ok :: "engine session \<Rightarrow> bool" where
  "session_ok s \<longleftrightarrow> txn_inv (eng s) \<and> (\<forall>tx. cur s = Some tx \<longrightarrow> tx \<in> activeTxns (eng s))"

text \<open>The transactions of other sessions.\<close>

definition others :: "engine session \<Rightarrow> txnID set" where
  "others s = activeTxns (eng s) - set_option (cur s)"

lemma Execute_txn_inv:
  assumes "Execute n (Some storageOps) txn stmt e = (e', r)" and "txn_inv e"
  shows "txn_inv e'" and "activeTxns e' = activeTxns e" and "committed e' = committed e"
  using Execute_frame [OF assms(1)] assms(2) by (simp_all add: txn_inv_def same_txns_def)

lemma Begin_txn_inv:
  assumes "txn_inv e" and "nextTx e \<noteq> -1"
  obtains e' where "Begin e = (e', Inr (nextTx e + 1))" and "txn_inv e'" and "activeTxns e' = insert (nextTx e + 1) (activeTxns e)"
    and "committed e' = committed e" and "nextTx e + 1 \<notin> activeTxns e"
proof -
  have "\<not> mu e" using assms(1) by (simp add: txn_inv_def)
  then obtain e' where B: "Begin e = (e', Inr (nextTx e + 1))" "activeTxns e' = insert (nextTx e + 1) (activeTxns e)"
    "committed e' = committed e" by (simp add: Begin_eq)
  with txn_inv_step [OF begin_step [OF assms(2) B(1)] assms(1)] txn_inv_fresh [OF assms] that show thesis by blast
qed

lemma rollback_txn_inv:
  assumes "txn_inv e"
  obtains e' where "rollback tx e = (e', Inr ())" and "txn_inv e'" and "activeTxns e' = activeTxns e - {tx}" and "committed e' = committed e"
proof -
  have "\<not> mu e" using assms by (simp add: txn_inv_def)
  then obtain e' where B: "rollback tx e = (e', Inr ())" "activeTxns e' = activeTxns e - {tx}" "committed e' = committed e"
    by (simp add: rollback_eq)
  with txn_inv_step [OF rollback_step [OF B(1)] assms] that show thesis by blast
qed

lemma commit_txn_inv:
  assumes "txn_inv e" and "tx \<in> activeTxns e"
  obtains e' where "commit tx e = (e', Inr ())" and "txn_inv e'" and "activeTxns e' = activeTxns e - {tx}" and "committed e' = insert tx (committed e)"
proof -
  have "\<not> mu e" using assms by (simp add: txn_inv_def)
  with assms(2) obtain e' where B: "commit tx e = (e', Inr ())" "activeTxns e' = activeTxns e - {tx}" "committed e' = insert tx (committed e)"
    by (simp add: commit_eq)
  with txn_inv_step [OF commit_step [OF B(1)] assms(1)] that show thesis by blast
qed

lemma Exec_explicit_ok:
  assumes "session_ok s" and "cur s = Some tx" and "Exec_explicit n storageOps stmt tx s = (s', r)"
  shows "session_ok s'" and "others s' = others s" and "committed (eng s') = committed (eng s)"
proof -
  obtain e x where E: "Execute n (Some storageOps) (Some tx) stmt (eng s) = (e, x)" by force
  note inv = Execute_txn_inv [OF E]
  have s: "txn_inv (eng s)" "tx \<in> activeTxns (eng s)" using assms(1,2) by (simp_all add: session_ok_def)
  obtain e1 where R: "rollback tx e = (e1, Inr ())" "txn_inv e1" "activeTxns e1 = activeTxns e - {tx}" "committed e1 = committed e"
    using rollback_txn_inv [OF inv(1) [OF s(1)]] .
  from assms(2,3) E R inv s show "session_ok s'" "others s' = others s" "committed (eng s') = committed (eng s)"
    by (auto simp: Exec_explicit_def session_ok_def others_def split: sum.splits if_splits)
qed

lemma Exec_autocommit_ok:
  assumes "session_ok s" and "nextTx (eng s) \<noteq> -1" and "cur s = None" and "Exec_autocommit n storageOps stmt s = (s', r)"
    and "\<nexists>err. r = Inl err \<and> abnormal err"
  shows "session_ok s'" and "others s' = others s" and "cur s' = None"
    and "committed (eng s') = (case r of Inl _ \<Rightarrow> committed (eng s) | Inr _ \<Rightarrow> insert (nextTx (eng s) + 1) (committed (eng s)))"
proof -
  let ?tx = "nextTx (eng s) + 1"
  have s: "txn_inv (eng s)" using assms(1) by (simp add: session_ok_def)
  from Begin_txn_inv [OF s assms(2)] obtain e where
    B: "Begin (eng s) = (e, Inr ?tx)" "txn_inv e" "activeTxns e = insert ?tx (activeTxns (eng s))" "committed e = committed (eng s)"
    "?tx \<notin> activeTxns (eng s)" .
  obtain e1 x where E: "Execute n (Some storageOps) (Some ?tx) stmt e = (e1, x)" by force
  note inv = Execute_txn_inv [OF E B(2)]
  obtain e2 where R: "rollback ?tx e1 = (e2, Inr ())" "txn_inv e2" "activeTxns e2 = activeTxns e1 - {?tx}" "committed e2 = committed e1"
    using rollback_txn_inv [OF inv(1)] .
  have "?tx \<in> activeTxns e1" using inv(2) B(3) by simp
  from commit_txn_inv [OF inv(1) this] obtain e3 where
    C: "commit ?tx e1 = (e3, Inr ())" "txn_inv e3" "activeTxns e3 = activeTxns e1 - {?tx}" "committed e3 = insert ?tx (committed e1)" .
  from assms(3-) B E R C inv show "session_ok s'" "others s' = others s" "cur s' = None"
    "committed (eng s') = (case r of Inl _ \<Rightarrow> committed (eng s) | Inr _ \<Rightarrow> insert ?tx (committed (eng s)))"
    by (auto simp: Exec_autocommit_def session_ok_def others_def split: sum.splits if_splits)
qed

lemma Exec_control_ok:
  assumes "session_ok s" and "nextTx (eng s) \<noteq> -1" and "stmt \<in> {BeginStmt, CommitStmt, RollbackStmt}"
    and "Exec n storageOps (Some stmt) s = (s', r)"
  shows "session_ok s' \<and> others s' = others s \<and> (\<forall>err. r = Inl err \<longrightarrow> committed (eng s') = committed (eng s))"
proof (cases "cur s")
  case None
  have s: "txn_inv (eng s)" using assms(1) by (simp add: session_ok_def)
  from Begin_txn_inv [OF s assms(2)] obtain e where
    "Begin (eng s) = (e, Inr (nextTx (eng s) + 1))" "txn_inv e" "activeTxns e = insert (nextTx (eng s) + 1) (activeTxns (eng s))"
    "committed e = committed (eng s)" "nextTx (eng s) + 1 \<notin> activeTxns (eng s)" .
  with None assms show ?thesis by (auto simp: Exec_def Exec_begin_def Exec_end_def session_ok_def others_def)
next
  case (Some tx)
  have s: "txn_inv (eng s)" "tx \<in> activeTxns (eng s)" using assms(1) Some by (simp_all add: session_ok_def)
  obtain e1 where R: "rollback tx (eng s) = (e1, Inr ())" "txn_inv e1" "activeTxns e1 = activeTxns (eng s) - {tx}"
    "committed e1 = committed (eng s)" using rollback_txn_inv [OF s(1)] .
  obtain e2 where C: "commit tx (eng s) = (e2, Inr ())" "txn_inv e2" "activeTxns e2 = activeTxns (eng s) - {tx}"
    "committed e2 = insert tx (committed (eng s))" using commit_txn_inv [OF s] .
  from Some R C assms s show ?thesis by (auto simp: Exec_def Exec_begin_def Exec_end_def session_ok_def others_def)
qed

text \<open>An error of the conflict check on its way through \<^verbatim>\<open>executeDelete\<close>.\<close>

lemma delete_conflict_text: "\<not> isWriteConflict (Wrapf ''delete row %d: %w'' [ArgInt i] (Errorf msg []))"
  by (simp add: isWriteConflict_def)

lemma Execute_delete_conflict:
  assumes "engine_inv e" and "tableSchema e t = Some sch" and "matchRows w sch (tableView e txn t) = Inr (x # rows)"
    and "\<not> conflict_free e txn (snd x)"
  shows "\<exists>e' msg. enough (\<lambda>n. Execute n (Some storageOps) (Some txn) (Some (DeleteStmt t w)) e =
    (e', Inl (Wrapf ''delete row %d: %w'' [ArgInt (uint (fst x))] (Errorf msg []))))"
proof -
  from sw.scan_matching [OF assms(1,2), of txn w] assms(3) obtain e1 e2 e3 it where
    S: "GetSchema t e = (e1, Inr (Some sch))" "eScan storageOps txn t e1 = (e3, Inr it)"
    "enough (\<lambda>n. matchingRows storageOps n it w sch e3 = (e2, Inr (x # rows)))" "engine_reads e e2" by auto
  note same = se.reads_same [OF assms(1) S(4)] se.reads_inv [OF assms(1) S(4)] sw.reads_ready [OF assms(1) S(4)]
  have x: "x \<in> set (tableView e2 txn t)" using matchRows_Inr [OF assms(3)] same(1) by (metis filter_is_subset list.set_intros(1) subsetD)
  then obtain meta where m: "tableOf e2 t = Some meta" by (cases "tableOf e2 t") (simp_all add: tableView_def)
  have e2: "rows_inv (tmHeapFile meta)" "\<not> mu e2" using same(2) m by (simp_all add: engine_inv_def)
  have "\<not> conflict_free e2 txn (snd x)" using same(3) assms(4) by metis
  from write_conflict_refused [OF m e2 view_version [OF same(2) m x] this, of zeroRow] obtain e4 msg where
    D: "Delete txn t (fst x) e2 = (e4, Inl (Errorf msg []))" .
  have "enough (\<lambda>n. Execute n (Some storageOps) (Some txn) (Some (DeleteStmt t w)) e =
      (e4, Inl (Wrapf ''delete row %d: %w'' [ArgInt (uint (fst x))] (Errorf msg []))))"
    using S(3) by (rule enough_mono) (use S(1,2) D in \<open>simp add: Execute_def executeDelete_def wrapf_def\<close>)
  then show ?thesis by blast
qed

text \<open>Transaction 2 has deleted the row and committed, while transaction 3 still sees it.\<close>

definition demoEngine2 :: engine where
  "demoEngine2 = (fst (Delete 2 ''t'' demoRowID demoEngine1))\<lparr>committed := {1, 2}, activeTxns := {3}\<rparr>"

lemma demoEngine2_ok:
  "engine_inv demoEngine2" "tableSchema demoEngine2 ''t'' = Some (tmSchema demoMeta)"
  "tableView demoEngine2 3 ''t'' = [(demoRowID, (newVersion 1 demoRow)\<lparr>Xmax := 2\<rparr>)]"
  "\<not> conflict_free demoEngine2 3 ((newVersion 1 demoRow)\<lparr>Xmax := 2\<rparr>)"
proof -
  from demoEngine1_ok obtain hf where hf: "demoEngine1 = setHeap ''t'' hf demoEngine" "rows_inv hf"
    "versions hf = [(demoRowID, newVersion 1 demoRow)]" "tableOf demoEngine1 ''t'' = Some (demoMeta\<lparr>tmHeapFile := hf\<rparr>)" .
  have h: "tmHeapFile (demoMeta\<lparr>tmHeapFile := hf\<rparr>) = hf" by simp
  have "\<not> mu demoEngine1" "map_of (versions hf) demoRowID = Some (newVersion 1 demoRow)"
    using demoEngine1_inv hf(3) by (simp_all add: engine_inv_def)
  from Delete_ok [OF hf(4), unfolded h, OF hf(2) this demoEngine1_free] obtain hf1 where
    D: "Delete 2 ''t'' demoRowID demoEngine1 = (setHeap ''t'' hf1 demoEngine1, Inr ())" "rows_inv hf1"
    "versions hf1 = [(demoRowID, (newVersion 1 demoRow)\<lparr>Xmax := 2\<rparr>)]" 
    by (auto simp: hf(3) replace_key_def)
  have e: "demoEngine2 = (setHeap ''t'' hf1 demoEngine)\<lparr>committed := {1, 2}, activeTxns := {3}\<rparr>"
    unfolding demoEngine2_def D(1) by (simp add: hf(1))
  have tbl: "tableOf demoEngine2 = [''t'' \<mapsto> demoMeta\<lparr>tmHeapFile := hf1\<rparr>]"
    using demoEngine_ok(1) unfolding e
    by (simp add: tableOf_def setHeap_def updTable_def) (simp add: demoEngine_def fun_eq_iff)
  have c: "committed_for demoEngine2 3 = {1}" "\<not> mu demoEngine2" "committed demoEngine2 = {1, 2}"
    unfolding e by (simp_all add: committed_for_def demoEngine_def)
  from tbl c D(2,3) show "engine_inv demoEngine2" "tableSchema demoEngine2 ''t'' = Some (tmSchema demoMeta)"
    "tableView demoEngine2 3 ''t'' = [(demoRowID, (newVersion 1 demoRow)\<lparr>Xmax := 2\<rparr>)]"
    "\<not> conflict_free demoEngine2 3 ((newVersion 1 demoRow)\<lparr>Xmax := 2\<rparr>)"
    by (auto simp: engine_inv_def tableSchema_def tableView_def snapshot_def visible_def conflict_free_def split: if_splits)
qed

section \<open>Properties\<close>

text \<open>C22: Transactions of a session.  Executing any statement in a session on the storage engine, unless
  the call panics, blocks or never returns, keeps the session well-formed (an open transaction is active) and the
  transactions of other sessions untouched, so no transaction is left behind.  A statement that fails
  commits nothing.  Outside a transaction a statement that succeeds has committed exactly one new
  transaction of its own, and the session is again without one.\<close>

theorem exec_transactions:
  assumes "session_ok s" and "nextTx (eng s) \<noteq> -1" and "Exec n storageOps stmt s = (s', r)"
    and "\<nexists>err. r = Inl err \<and> abnormal err"
  shows "session_ok s' \<and> others s' = others s \<and> (\<forall>err. r = Inl err \<longrightarrow> committed (eng s') = committed (eng s)) \<and>
    (cur s = None \<longrightarrow> stmt \<notin> Some ` {BeginStmt, CommitStmt, RollbackStmt} \<longrightarrow>
      cur s' = None \<and> (\<forall>res. r = Inr res \<longrightarrow> committed (eng s') = insert (nextTx (eng s) + 1) (committed (eng s))))"
proof (cases "stmt \<in> Some ` {BeginStmt, CommitStmt, RollbackStmt}")
  case True
  with Exec_control_ok [OF assms(1,2) _, of _ n s' r] assms(3) show ?thesis by auto
next
  case False
  show ?thesis
  proof (cases "cur s")
    case None
    with False assms(3) have "Exec_autocommit n storageOps stmt s = (s', r)"
      by (auto simp: Exec_def split: option.splits stmt.splits)
    from Exec_autocommit_ok [OF assms(1,2) None this assms(4)] show ?thesis by auto
  next
    case (Some tx)
    with False assms(3) have "Exec_explicit n storageOps stmt tx s = (s', r)"
      by (auto simp: Exec_def split: option.splits stmt.splits)
    from Exec_explicit_ok [OF assms(1) Some this] Some show ?thesis by auto
  qed
qed

theorem exec_transactions_witness:
  "\<exists>s' err. Exec 0 storageOps (Some (InsertStmt ''x'' [])) (NewSession demoEngine) = (s', Inl err) \<and> session_ok s' \<and>
     others s' = {2, 3} \<and> committed (eng s') = {1} \<and> cur s' = None"
proof -
  let ?s = "NewSession demoEngine" and ?stmt = "Some (InsertStmt ''x'' [])"
  obtain s' where E: "Exec 0 storageOps ?stmt ?s =
      (s', Inl (Wrapf ''execute in autocommit: %w'' [] (Errorf ''table %q does not exist'' [ArgStr ''x''])))"
    by (simp add: Exec_def Exec_autocommit_def NewSession_def Begin_eq rollback_eq demoEngine_def Execute_def executeInsert_def
        GetSchema_def withLock_def GetTable_def)
  have s: "session_ok ?s" "nextTx (eng ?s) \<noteq> -1" using demoEngine_ok(6) by (simp_all add: session_ok_def NewSession_def demoEngine_def)
  from exec_transactions [OF s E] E show ?thesis
    by (auto simp: NewSession_def others_def demoEngine_def)
qed

text \<open>C23: Conflicts in a session.  When a DELETE in an open transaction meets a row that a concurrent
  transaction has deleted and committed, the statement fails, but the session does not recognise the
  error of the storage engine as a write conflict: the transaction stays open.\<close>

theorem conflict_leaves_transaction_open:
  assumes "engine_inv (eng s)" and "cur s = Some txn" and "tableSchema (eng s) t = Some sch"
    and "matchRows w sch (tableView (eng s) txn t) = Inr (x # rows)" and "\<not> conflict_free (eng s) txn (snd x)"
  shows "\<exists>s' err. enough (\<lambda>n. Exec n storageOps (Some (DeleteStmt t w)) s = (s', Inl err)) \<and>
    InTxn s' \<and> \<not> isWriteConflict err"
proof -
  from Execute_delete_conflict [OF assms(1,3-5)] obtain e' msg where
    E: "enough (\<lambda>n. Execute n (Some storageOps) (Some txn) (Some (DeleteStmt t w)) (eng s) =
      (e', Inl (Wrapf ''delete row %d: %w'' [ArgInt (uint (fst x))] (Errorf msg []))))" by blast
  let ?err = "Wrapf ''delete row %d: %w'' [ArgInt (uint (fst x))] (Errorf msg [])"
  have "enough (\<lambda>n. Exec n storageOps (Some (DeleteStmt t w)) s = (s\<lparr>eng := e'\<rparr>, Inl ?err))"
    using E by (rule enough_mono) (simp add: Exec_def Exec_explicit_def assms(2) delete_conflict_text)
  then show ?thesis using delete_conflict_text [of "uint (fst x)" msg] assms(2)
    by (intro exI [of _ "s\<lparr>eng := e'\<rparr>"] exI [of _ ?err]) (simp add: InTxn_def)
qed

theorem conflict_leaves_transaction_open_witness:
  "\<exists>s' err. enough (\<lambda>n. Exec n storageOps (Some (DeleteStmt ''t'' None)) \<lparr>eng = demoEngine2, cur = Some 3\<rparr> = (s', Inl err)) \<and>
    InTxn s' \<and> \<not> isWriteConflict err"
  using conflict_leaves_transaction_open [of "\<lparr>eng = demoEngine2, cur = Some 3\<rparr>" 3 "''t''" "tmSchema demoMeta" None
      "(demoRowID, (newVersion 1 demoRow)\<lparr>Xmax := 2\<rparr>)" "[]"]
  by (simp add: demoEngine2_ok evalWhere_def)

end
