(* ===== verification/Repl.thy ===== *)
theory Repl
  imports Session Parser
begin

text \<open>
  The interactive shell (\<^verbatim>\<open>src/cmd/aura/main.go\<close>): statements are collected over lines, split at
  semicolons, parsed and executed in a session, and their results printed.  The terminal is a list of lines on the
  way in and a string on the way out; the file system is a parameter.  An engine that blocks or loops forever
  blocks the shell: \<open>Deadlock\<close> and \<open>Diverges\<close> are passed on.
\<close>

section \<open>Strings\<close>

text \<open>\<^verbatim>\<open>utf8.DecodeLastRune\<close>: back from the end to the start of a rune, at most four bytes.\<close>

definition RuneStart :: "nat \<Rightarrow> bool" where
  "RuneStart b \<longleftrightarrow> \<not> (128 \<le> b \<and> b < 192)"

definition decodeLastRune :: "nat list \<Rightarrow> rune \<times> nat" where
  "decodeLastRune bs =
     (if bs = [] then (65533, 0)
      else if last bs < 128 then (last bs, 1)
      else case find (\<lambda>k. k \<le> length bs \<and> RuneStart (bs ! (length bs - k))) [2, 3, 4] of
          None \<Rightarrow> (65533, 1)
        | Some k \<Rightarrow> (case decodeRune (drop (length bs - k) bs) of (r, n) \<Rightarrow> if n = k then (r, n) else (65533, 1)))"

lemma decodeRune_width: "bs \<noteq> [] \<Longrightarrow> 0 < snd (decodeRune bs) \<and> snd (decodeRune bs) \<le> length bs"
  by (auto simp: decodeRune_def split: list.splits)

lemma decodeLastRune_width: "bs \<noteq> [] \<Longrightarrow> 0 < snd (decodeLastRune bs) \<and> snd (decodeLastRune bs) \<le> length bs"
  using decodeRune_width [of "drop (length bs - k) bs" for k]
  by (auto simp: decodeLastRune_def Suc_le_eq find_Some_iff split: option.splits prod.splits)

lemma decodeRune_shorter: "s \<noteq> [] \<Longrightarrow> (r, n) = decodeRune (map of_char s) \<Longrightarrow> 0 < n \<and> 0 < length s"
  using decodeRune_width [of "map of_char s"] by (metis length_greater_0_conv map_is_Nil_conv snd_conv)

lemma decodeLastRune_shorter: "s \<noteq> [] \<Longrightarrow> (r, n) = decodeLastRune (map of_char s) \<Longrightarrow> length s - n < length s"
  using decodeLastRune_width [of "map of_char s"] by (metis diff_less length_greater_0_conv map_is_Nil_conv snd_conv)

text \<open>\<^verbatim>\<open>strings.TrimSpace\<close> and \<^verbatim>\<open>strings.Fields\<close>.\<close>

function TrimLeftSpace :: "unicode \<Rightarrow> string \<Rightarrow> string" where
  "TrimLeftSpace u s =
     (if s = [] then []
      else case decodeRune (map of_char s) of (r, n) \<Rightarrow> if IsSpace u r then TrimLeftSpace u (drop n s) else s)"
  by pat_completeness auto
termination by (relation "measure (\<lambda>(u, s). length s)") (auto dest: decodeRune_shorter decodeLastRune_shorter)

function TrimRightSpace :: "unicode \<Rightarrow> string \<Rightarrow> string" where
  "TrimRightSpace u s =
     (if s = [] then []
      else case decodeLastRune (map of_char s) of (r, n) \<Rightarrow> if IsSpace u r then TrimRightSpace u (take (length s - n) s) else s)"
  by pat_completeness auto
termination by (relation "measure (\<lambda>(u, s). length s)") (auto dest: decodeRune_shorter decodeLastRune_shorter)

declare TrimLeftSpace.simps [simp del] TrimRightSpace.simps [simp del]

definition TrimSpace :: "unicode \<Rightarrow> string \<Rightarrow> string" where
  "TrimSpace u s = TrimRightSpace u (TrimLeftSpace u s)"

text \<open>\<open>field\<close> holds the bytes of the field that is being read.\<close>

function Fields_from :: "unicode \<Rightarrow> string \<Rightarrow> string \<Rightarrow> string list" where
  "Fields_from u fld s =
     (if s = [] then if fld = [] then [] else [fld]
      else case decodeRune (map of_char s) of (r, n) \<Rightarrow>
        if IsSpace u r then (if fld = [] then [] else [fld]) @ Fields_from u [] (drop n s)
        else Fields_from u (fld @ take n s) (drop n s))"
  by pat_completeness auto
termination by (relation "measure (\<lambda>(u, fld, s). length s)") (auto dest: decodeRune_shorter decodeLastRune_shorter)

declare Fields_from.simps [simp del]

definition Fields :: "unicode \<Rightarrow> string \<Rightarrow> string list" where
  "Fields u s = Fields_from u [] s"

fun IndexByte :: "string \<Rightarrow> char \<Rightarrow> nat option" where
  "IndexByte [] c = None"
| "IndexByte (d # s) c = (if d = c then Some 0 else map_option Suc (IndexByte s c))"

fun HasPrefix :: "string \<Rightarrow> string \<Rightarrow> bool" where
  "HasPrefix s [] = True"
| "HasPrefix (c # s) (d # p) = (c = d \<and> HasPrefix s p)"
| "HasPrefix [] (d # p) = False"

fun Contains :: "string \<Rightarrow> string \<Rightarrow> bool" where
  "Contains [] sub = (sub = [])"
| "Contains (c # s) sub = (HasPrefix (c # s) sub \<or> Contains s sub)"

section \<open>The output of statements\<close>

abbreviation nl :: string where
  "nl \<equiv> [CHR 0x0A]"

definition rows :: "nat \<Rightarrow> string \<Rightarrow> string" where
  "rows n verb = (if n = 1 then ''1 row '' @ verb else dec_nat n @ '' rows '' @ verb)"

definition rowsCount :: "nat \<Rightarrow> string" where
  "rowsCount n = (if n = 1 then ''1 row'' else dec_nat n @ '' rows'')"

text \<open>The verb \<^verbatim>\<open>%-*s\<close>: padded to a number of runes; \<^verbatim>\<open>fmt\<close> refuses widths above a million.\<close>

definition padRight :: "nat \<Rightarrow> string \<Rightarrow> string" where
  "padRight w s = (if w > 1000000 then ''%!(BADWIDTH)'' @ s else s @ replicate (w - length (runesOf s)) CHR '' '')"

definition tableCell :: "row \<Rightarrow> nat \<Rightarrow> string" where
  "tableCell r i = (if i < length (Values r) then Value_String (Values r ! i) else [])"

definition tableCells :: "sqlResult \<Rightarrow> string list list" where
  "tableCells res = map (\<lambda>r. map (tableCell r) [0..<length (Columns (resSchema res))]) (resRows res)"

text \<open>The width of a column: the longest of its name and its cells, in bytes.\<close>

definition tableWidths :: "sqlResult \<Rightarrow> nat list" where
  "tableWidths res =
     map (\<lambda>i. foldl (\<lambda>w cells. max w (length (cells ! i))) (length (colName (Columns (resSchema res) ! i))) (tableCells res))
       [0..<length (Columns (resSchema res))]"

definition sepLine :: "nat list \<Rightarrow> string" where
  "sepLine widths = ''+'' @ concat (map (\<lambda>w. replicate (w + 2) CHR ''-'' @ ''+'') widths) @ nl"

definition writeRow :: "nat list \<Rightarrow> string list \<Rightarrow> string" where
  "writeRow widths vals = ''|'' @ concat (map2 (\<lambda>w s. '' '' @ padRight w s @ '' |'') widths vals) @ nl"

definition formatTable :: "sqlResult \<Rightarrow> string" where
  "formatTable res =
     (let cols = Columns (resSchema res); widths = tableWidths res in
      if cols = [] then ''(no columns)'' @ nl
      else sepLine widths @ writeRow widths (map colName cols) @ sepLine widths @
        concat (map (writeRow widths) (tableCells res)) @ sepLine widths @
        ''('' @ rowsCount (length (resRows res)) @ '')'' @ nl)"

fun formatResult :: "stmt \<Rightarrow> sqlResult \<Rightarrow> string" where
  "formatResult (SelectStmt _ _ _ _ _) res = (if resRows res = [] then ''(0 rows)'' @ nl else formatTable res)"
| "formatResult (CreateTableStmt t _) res = ''OK, table '' @ quote t @ '' created'' @ nl"
| "formatResult (CreateIndexStmt n t c) res =
     (let name = (if n = [] then t @ ''_'' @ c else n) in
      ''OK, index '' @ quote name @ '' on '' @ t @ ''('' @ c @ '') created'' @ nl)"
| "formatResult (InsertStmt _ _) res = ''OK, '' @ rows (RowsAffected res) ''inserted'' @ nl"
| "formatResult (UpdateStmt _ _ _) res = ''OK, '' @ rows (RowsAffected res) ''updated'' @ nl"
| "formatResult (DeleteStmt _ _) res = ''OK, '' @ rows (RowsAffected res) ''deleted'' @ nl"
| "formatResult BeginStmt res = ''BEGIN'' @ nl"
| "formatResult CommitStmt res = ''COMMIT'' @ nl"
| "formatResult RollbackStmt res = ''ROLLBACK'' @ nl"
| "formatResult _ res =
     (if Columns (resSchema res) \<noteq> [] then formatTable res else ''OK, '' @ rows (RowsAffected res) ''affected'' @ nl)"

section \<open>The shell\<close>

record 's repl =
  session :: "'s session"
  outp :: string
  running :: bool
  buf :: string

definition NewREPL :: "'s \<Rightarrow> 's repl" where
  "NewREPL e = \<lparr>session = NewSession e, outp = [], running = True, buf = []\<rparr>"

definition emit :: "string \<Rightarrow> 's repl \<Rightarrow> 's repl" where
  "emit t r = r\<lparr>outp := outp r @ t\<rparr>"

definition reportConflict :: "go_error \<Rightarrow> bool \<Rightarrow> string" where
  "reportConflict err inTxn =
     ''Error: WRITE CONFLICT - transaction aborted'' @ nl @ ''       '' @ Error err @ nl @
     (if inTxn then ''       (transaction rolled back automatically)'' @ nl else [])"

definition reportError :: "go_error \<Rightarrow> bool \<Rightarrow> string" where
  "reportError err inTxn =
     (if err = Sentinel ErrAlreadyInTxn then ''Error: already in a transaction (use COMMIT or ROLLBACK first)'' @ nl
      else if err = Sentinel ErrNoTxn then ''Error: no active transaction (use BEGIN first)'' @ nl
      else if Contains (Error err) ''write conflict'' \<or> Contains (Error err) ''serialization conflict'' \<or>
          Contains (Error err) ''row modified by a concurrent transaction'' then reportConflict err inTxn
      else ''Error: '' @ Error err @ nl)"

text \<open>The deferred \<^verbatim>\<open>recover\<close>: a panic is reported and the shell goes on.\<close>

fun recovered :: "'s repl \<times> unit res \<Rightarrow> 's repl \<times> unit res" where
  "recovered (r, Inl (Panic p)) = (emit (''Error: internal panic: '' @ p @ nl) r, Inr ())"
| "recovered x = x"

definition runOne :: "unicode \<Rightarrow> nat \<Rightarrow> ('s, 'i) storageEngine \<Rightarrow> string \<Rightarrow> 's repl \<Rightarrow> 's repl \<times> unit res" where
  "runOne u n ops sql r = recovered
     (case Parse u sql of
        Inl err \<Rightarrow> if abnormal err then (r, Inl err) else (emit (''Error: '' @ Error err @ nl) r, Inr ())
      | Inr stmt \<Rightarrow>
          (case Exec n ops (Some stmt) (session r) of
             (s, Inl err) \<Rightarrow>
               if abnormal err then (r\<lparr>session := s\<rparr>, Inl err)
               else (emit (reportError err (InTxn s)) (r\<lparr>session := s\<rparr>), Inr ())
           | (s, Inr res) \<Rightarrow> (emit (formatResult stmt res) (r\<lparr>session := s\<rparr>), Inr ())))"

text \<open>The loop over the complete statements of a text, shared by \<^verbatim>\<open>drainStatements\<close> and \<^verbatim>\<open>readFile\<close>; it returns how
  many it cnt and the text after the last semicolon.\<close>

function runStatements :: "unicode \<Rightarrow> nat \<Rightarrow> ('s, 'i) storageEngine \<Rightarrow> nat \<Rightarrow> string \<Rightarrow> 's repl \<Rightarrow> 's repl \<times> (nat \<times> string) res" where
  "runStatements u n ops cnt remain r =
     (case IndexByte remain CHR '';'' of
        None \<Rightarrow> (r, Inr (cnt, remain))
      | Some i \<Rightarrow>
          let stmt = TrimSpace u (take i remain); remain' = drop (i + 1) remain in
          if stmt \<noteq> [] then andThen (runOne u n ops stmt r) (\<lambda>_ r. runStatements u n ops (cnt + 1) remain' r)
          else runStatements u n ops cnt remain' r)"
  by pat_completeness auto
termination
proof (relation "measure (\<lambda>(u, n, ops, cnt, remain, r). length remain)")
  have ix: "IndexByte remain CHR '';'' = Some i \<Longrightarrow> i < length remain" for remain i
    by (induction remain arbitrary: i) (auto split: if_splits)
  show "((u, n, ops, cnt + 1, remain', r'), u, n, ops, cnt, remain, r) \<in> measure (\<lambda>(u, n, ops, cnt, remain, r). length remain)"
    if "IndexByte remain CHR '';'' = Some i" "remain' = drop (i + 1) remain"
    for u n cnt remain i remain' and ops :: "('s, 'i) storageEngine" and r r' :: "'s repl"
    using ix [OF that(1)] that(2) by simp
  show "((u, n, ops, cnt, remain', r), u, n, ops, cnt, remain, r) \<in> measure (\<lambda>(u, n, ops, cnt, remain, r). length remain)"
    if "IndexByte remain CHR '';'' = Some i" "remain' = drop (i + 1) remain"
    for u n cnt remain i remain' and ops :: "('s, 'i) storageEngine" and r :: "'s repl"
    using ix [OF that(1)] that(2) by simp
qed simp

declare runStatements.simps [simp del]

definition drainStatements :: "unicode \<Rightarrow> nat \<Rightarrow> ('s, 'i) storageEngine \<Rightarrow> 's repl \<Rightarrow> 's repl \<times> unit res" where
  "drainStatements u n ops r =
     andThen (runStatements u n ops 0 (buf r) r) (\<lambda>(_, remain) r.
       (r\<lparr>buf := (if TrimSpace u remain \<noteq> [] then remain else [])\<rparr>, Inr ()))"

definition readFile :: "(string \<Rightarrow> string + string) \<Rightarrow> unicode \<Rightarrow> nat \<Rightarrow> ('s, 'i) storageEngine \<Rightarrow> string \<Rightarrow> 's repl \<Rightarrow> 's repl \<times> unit res" where
  "readFile fs u n ops path r =
     (case fs path of
        Inl err \<Rightarrow> (emit (''Error: '' @ err @ nl) r, Inr ())
      | Inr data \<Rightarrow>
          andThen (runStatements u n ops 0 data r) (\<lambda>(cnt, remain) r.
            let tail = TrimSpace u remain;
                r = (if tail \<noteq> [] then emit (''warning: ignoring trailing input without '' @ [CHR 0x27] @ '';'' @ [CHR 0x27] @ '': '' @ quote tail @ nl) r
                     else r)
            in (emit (''('' @ dec_nat cnt @ '' statement(s) from '' @ path @ '')'' @ nl) r, Inr ())))"

definition onSession :: "('s session \<Rightarrow> 's session \<times> 'a res) \<Rightarrow> 's repl \<Rightarrow> 's repl \<times> 'a res" where
  "onSession f r = (case f (session r) of (s, x) \<Rightarrow> (r\<lparr>session := s\<rparr>, x))"

definition printSchema :: "('s, 'i) storageEngine \<Rightarrow> string \<Rightarrow> 's repl \<Rightarrow> 's repl \<times> unit res" where
  "printSchema ops table r =
     andThen (onSession (Session_GetSchema ops table) r) (\<lambda>found r.
       case found of
         None \<Rightarrow> (emit (''Error: no such table: '' @ table @ nl) r, Inr ())
       | Some sch \<Rightarrow>
           (emit (''CREATE TABLE '' @ table @ '' ('' @ nl @
              concat (map (\<lambda>i. ''  '' @ colName (Columns sch ! i) @ '' '' @ ColumnType_String (colType (Columns sch ! i)) @
                  (if i = length (Columns sch) - 1 then [] else '','') @ nl) [0..<length (Columns sch)]) @
              '');'' @ nl) r, Inr ()))"

definition helpText :: string where
  "helpText = concat (map (\<lambda>l. l @ nl)
     [''Commands:'', ''  .help            show this help'', ''  .tables          list tables'',
      ''  .schema <table>  show a table'' @ [CHR 0x27] @ ''s columns'', ''  .read <file>     run SQL statements from a file'',
      ''  .exit            quit'', [], ''SQL Statements:'', ''  CREATE TABLE, INSERT, SELECT, UPDATE, DELETE'',
      ''  BEGIN, COMMIT, ROLLBACK'', ''  CREATE INDEX'', [], ''Notes:'', ''  - Statements must end with a semicolon (;)'',
      ''  - Multi-line input is supported'', ''  - Transactions: BEGIN ... COMMIT / ROLLBACK'',
      ''  - Write conflicts abort the transaction automatically''])"

definition handleMeta :: "(string \<Rightarrow> string + string) \<Rightarrow> unicode \<Rightarrow> nat \<Rightarrow> ('s, 'i) storageEngine \<Rightarrow> string \<Rightarrow> 's repl \<Rightarrow> 's repl \<times> unit res" where
  "handleMeta fs u n ops line r =
     (case Fields u line of
        [] \<Rightarrow> (r, Inl (Panic ''index out of range''))
      | cmd # args \<Rightarrow>
          if cmd = ''.exit'' \<or> cmd = ''.quit'' then
            ((if InTxn (session r) then
                emit (''Warning: you are in an active transaction. Use COMMIT or ROLLBACK first.'' @ nl @
                  ''Type .exit again to force exit (transaction will be rolled back).'' @ nl) r
              else r)\<lparr>running := False\<rparr>, Inr ())
          else if cmd = ''.help'' then (emit helpText r, Inr ())
          else if cmd = ''.tables'' then
            andThen (onSession (Session_ListTables ops) r) (\<lambda>names r.
              if names = [] then (emit (''(no tables)'' @ nl) r, Inr ())
              else (emit (''Tables:'' @ nl @ concat (map (\<lambda>t. ''  '' @ t @ nl) names)) r, Inr ()))
          else if cmd = ''.schema'' then
            (case args of [] \<Rightarrow> (emit (''usage: .schema <table>'' @ nl) r, Inr ()) | t # _ \<Rightarrow> printSchema ops t r)
          else if cmd = ''.read'' then
            (case args of [] \<Rightarrow> (emit (''usage: .read <file>'' @ nl) r, Inr ()) | p # _ \<Rightarrow> readFile fs u n ops p r)
          else (emit (''unknown command '' @ quote cmd @ '' (try .help)'' @ nl) r, Inr ()))"

definition feedLine :: "(string \<Rightarrow> string + string) \<Rightarrow> unicode \<Rightarrow> nat \<Rightarrow> ('s, 'i) storageEngine \<Rightarrow> string \<Rightarrow> 's repl \<Rightarrow> 's repl \<times> unit res" where
  "feedLine fs u n ops line r =
     (let trimmed = TrimSpace u line in
      if buf r = [] \<and> HasPrefix trimmed ''.'' then handleMeta fs u n ops trimmed r
      else if trimmed = [] \<and> buf r = [] then (r, Inr ())
      else drainStatements u n ops (r\<lparr>buf := buf r @ line @ nl\<rparr>))"

definition prompt :: "'s repl \<Rightarrow> string" where
  "prompt r = (if buf r \<noteq> [] then '' ...> '' else if InTxn (session r) then ''aura(txn)> '' else ''aura> '')"

text \<open>The lines are what the scanner delivers until it stops.\<close>

fun Run_loop :: "(string \<Rightarrow> string + string) \<Rightarrow> unicode \<Rightarrow> nat \<Rightarrow> ('s, 'i) storageEngine \<Rightarrow> string list \<Rightarrow> 's repl \<Rightarrow> 's repl \<times> unit res" where
  "Run_loop fs u n ops [] r = (if running r then emit (prompt r) r else r, Inr ())"
| "Run_loop fs u n ops (line # remain) r =
     (if \<not> running r then (r, Inr ())
      else andThen (feedLine fs u n ops line (emit (prompt r) r)) (\<lambda>_ r. Run_loop fs u n ops remain r))"

definition banner :: string where
  "banner = ''AURA_SQL v0.4.0 '' @ [CHR 0xE2, CHR 0x80, CHR 0x94] @ '' type SQL terminated with '' @ [CHR 0x27] @ '';'' @ [CHR 0x27] @ nl @
     ''Meta-commands: .help, .tables, .schema <t>, .read <file>, .exit'' @ nl @ ''Transactions: BEGIN, COMMIT, ROLLBACK'' @ nl"

text \<open>\<open>scanErr\<close> is the error that the scanner stopped at, if any.\<close>

definition Run :: "(string \<Rightarrow> string + string) \<Rightarrow> unicode \<Rightarrow> nat \<Rightarrow> ('s, 'i) storageEngine \<Rightarrow> string list \<Rightarrow> go_error option \<Rightarrow> 's repl \<Rightarrow>
    's repl \<times> unit res" where
  "Run fs u n ops lines scanErr r =
     andThen (Run_loop fs u n ops lines (emit banner r)) (\<lambda>_ r.
       (r, case scanErr of None \<Rightarrow> Inr () | Some err \<Rightarrow> Inl err))"

end
