(* ===== verification/ParserShape.thy ===== *)
theory ParserShape
  imports Parser
begin

text \<open>
  What the parser can return for an arbitrary text: an ordinary error, never a panic, or a statement of the shape
  that the executor expects.
\<close>

section \<open>Shapes\<close>

text \<open>Expressions without the star of a projection.\<close>

fun starFree :: "expr \<Rightarrow> bool" where
  "starFree Star = False"
| "starFree (BinaryExpr _ l r) = (starFree l \<and> starFree r)"
| "starFree _ = True"

fun stmt_shape :: "stmt \<Rightarrow> bool" where
  "stmt_shape (CreateTableStmt _ columns) = (columns \<noteq> [])"
| "stmt_shape (InsertStmt _ values) = (values \<noteq> [] \<and> list_all isLiteral values)"
| "stmt_shape (SelectStmt projection _ _ joins w) =
     ((projection = [Star] \<or> projection \<noteq> [] \<and> list_all starFree projection) \<and>
      list_all (\<lambda>j. starFree (joinOn j)) joins \<and> pred_option starFree w)"
| "stmt_shape (UpdateStmt _ asgs w) = (asgs \<noteq> [] \<and> list_all (\<lambda>a. starFree (asgValue a)) asgs \<and> pred_option starFree w)"
| "stmt_shape (DeleteStmt _ w) = pred_option starFree w"
| "stmt_shape (ExplainStmt s) = stmt_shape s"
| "stmt_shape _ = True"

text \<open>A result that is an ordinary error or satisfies a predicate.\<close>

definition yields :: "('a \<Rightarrow> bool) \<Rightarrow> parser \<times> 'a res \<Rightarrow> bool" where
  "yields Q r \<longleftrightarrow> (case snd r of Inl err \<Rightarrow> \<not> abnormal err | Inr x \<Rightarrow> Q x)"

lemma abnormal_wrapf [simp]: "abnormal (wrapf fmt args err) = abnormal err"
  by (simp add: wrapf_def)

lemma yields_simps [simp]: "yields Q (p, Inr x) \<longleftrightarrow> Q x" "yields Q (p, Inl err) \<longleftrightarrow> \<not> abnormal err" "yields Q (p, unexpected msg p')"
  by (simp_all add: yields_def unexpected_def)

lemma yields_andThen: "yields P r \<Longrightarrow> (\<And>x p. P x \<Longrightarrow> yields Q (f x p)) \<Longrightarrow> yields Q (andThen r f)"
  by (cases r; cases "snd r") auto

lemma yields_wrapped: "yields Q r \<Longrightarrow> yields Q (wrapped fmt args r)"
  by (cases r; cases "snd r") auto

lemma yields_expect: "yields (\<lambda>_. True) (expect u typ msg p)"
  by (simp add: expect_def)

lemma yields_atEnd: "Q x \<Longrightarrow> yields Q (atEnd msg x p)"
  by (simp add: atEnd_def)

text \<open>The step after a check of a token, whose value is not constrained.\<close>

lemma yields_then: "(\<And>x p. yields Q (f x p)) \<Longrightarrow> yields Q (andThen (expect u typ msg p) f)"
  by (rule yields_andThen [OF yields_expect])

section \<open>Expressions\<close>

lemma yields_primary: "yields starFree (parsePrimaryExpr u p)"
  by (auto simp: parsePrimaryExpr_def Let_def split: tokenType.splits sum.splits intro!: yields_then)

lemma yields_additive_loop: "starFree left \<Longrightarrow> yields starFree (parseAdditive_loop u left p)"
proof (induction u left p rule: parseAdditive_loop.induct)
  case (1 u left p)
  then show ?case using yields_primary [of u "nextToken u p"]
    by (subst parseAdditive_loop.simps) (auto simp: Let_def split: prod.splits sum.splits)
qed

lemma yields_additive: "yields starFree (parseAdditive u p)"
  unfolding parseAdditive_def by (rule yields_andThen [OF yields_primary yields_additive_loop])

lemma yields_comparison: "yields starFree (parseComparison u p)"
  unfolding parseComparison_def
  by (auto split: option.splits intro!: yields_andThen [OF yields_additive])

lemma yields_and_loop: "starFree left \<Longrightarrow> yields starFree (parseAnd_loop u left p)"
proof (induction u left p rule: parseAnd_loop.induct)
  case (1 u left p)
  then show ?case using yields_comparison [of u "nextToken u p"]
    by (subst parseAnd_loop.simps) (auto split: prod.splits sum.splits)
qed

lemma yields_and: "yields starFree (parseAnd u p)"
  unfolding parseAnd_def by (rule yields_andThen [OF yields_comparison yields_and_loop])

lemma yields_or_loop: "starFree left \<Longrightarrow> yields starFree (parseOr_loop u left p)"
proof (induction u left p rule: parseOr_loop.induct)
  case (1 u left p)
  then show ?case using yields_and [of u "nextToken u p"]
    by (subst parseOr_loop.simps) (auto split: prod.splits sum.splits)
qed

lemma yields_expression: "yields starFree (parseExpression u p)"
  unfolding parseExpression_def parseOr_def by (rule yields_andThen [OF yields_and yields_or_loop])

section \<open>Lists of clauses\<close>

lemma yields_columns: "yields (\<lambda>cs. cs \<noteq> []) (parseColumns u columns p)"
proof (induction u columns p rule: parseColumns.induct)
  case (1 u columns p)
  then show ?case by (subst parseColumns.simps) (auto simp: Let_def split: option.splits)
qed

lemma yields_values: "list_all isLiteral vals \<Longrightarrow> yields (\<lambda>vs. vs \<noteq> [] \<and> list_all isLiteral vs) (parseValues u vals p)"
proof (induction u vals p rule: parseValues.induct)
  case (1 u vals p)
  then show ?case using yields_primary [of u p]
    by (subst parseValues.simps) (auto split: prod.splits sum.splits)
qed

lemma yields_projection: "list_all starFree exprs \<Longrightarrow> yields (\<lambda>es. es \<noteq> [] \<and> list_all starFree es) (parseProjection u exprs p)"
proof (induction u exprs p rule: parseProjection.induct)
  case (1 u exprs p)
  then show ?case using yields_expression [of u p]
    by (subst parseProjection.simps) (auto split: prod.splits sum.splits)
qed

lemma yields_selectExpressions: "yields (\<lambda>es. es = [Star] \<or> es \<noteq> [] \<and> list_all starFree es) (parseSelectExpressions u p)"
  unfolding parseSelectExpressions_def by (auto intro!: yields_andThen [OF yields_projection])

lemma yields_join: "yields (\<lambda>j. starFree (joinOn j)) (parseJoin u p)"
  unfolding parseJoin_def
  by (auto simp: Let_def split: prod.splits intro!: yields_then yields_andThen [OF yields_wrapped [OF yields_expression]])

lemma yields_joins: "list_all (\<lambda>j. starFree (joinOn j)) joins \<Longrightarrow> yields (list_all (\<lambda>j. starFree (joinOn j))) (parseJoins u joins p)"
proof (induction u joins p rule: parseJoins.induct)
  case (1 u joins p)
  then show ?case using yields_join [of u "nextToken u p"]
    by (subst parseJoins.simps) (auto split: prod.splits sum.splits)
qed

lemma yields_where: "yields (pred_option starFree) (parseWhere u p)"
  unfolding parseWhere_def by (auto intro!: yields_andThen [OF yields_expression])

lemma yields_assignments:
  "list_all (\<lambda>a. starFree (asgValue a)) asgs \<Longrightarrow>
   yields (\<lambda>xs. xs \<noteq> [] \<and> list_all (\<lambda>a. starFree (asgValue a)) xs) (parseAssignments u asgs p)"
proof (induction u asgs p rule: parseAssignments.induct)
  case (1 u asgs p)
  then show ?case using yields_expression [of u "nextToken u (nextToken u p)"]
    by (subst parseAssignments.simps) (auto simp: Let_def split: prod.splits sum.splits)
qed

section \<open>Statements\<close>

lemma yields_select: "yields stmt_shape (parseSelect u p)"
  unfolding parseSelect_def
  by (rule yields_andThen [OF yields_selectExpressions], intro yields_then)
    (auto simp: Let_def split: prod.splits
      intro!: yields_andThen [OF yields_joins] yields_andThen [OF yields_where] yields_atEnd)

lemma yields_createIndex: "yields stmt_shape (parseCreateIndex u p)"
proof -
  have "yields (\<lambda>_. True) (if curr p \<noteq> TokenOn then expect u ty msg p else (p, Inr []))" for ty msg p
    by (simp add: yields_expect)
  then show ?thesis unfolding parseCreateIndex_def Let_def
    by (rule yields_andThen) (auto intro!: yields_then yields_atEnd)
qed

lemma yields_statements:
  "yields stmt_shape (parseCreateTable u p)" "yields stmt_shape (parseInsert u p)"
  "yields stmt_shape (parseDelete u p)" "yields stmt_shape (parseUpdate u p)" "yields stmt_shape (parseBegin u p)"
  "yields stmt_shape (parseCommit u p)" "yields stmt_shape (parseRollback u p)" "yields stmt_shape (parseAnalyze u p)"
  unfolding parseCreateTable_def parseInsert_def parseDelete_def parseUpdate_def parseBegin_def parseCommit_def
    parseRollback_def parseAnalyze_def Let_def
  by (auto intro!: yields_then yields_atEnd yields_andThen [OF yields_columns] yields_andThen [OF yields_values]
      yields_andThen [OF yields_assignments] yields_andThen [OF yields_where])

lemma yields_statement: "yields stmt_shape (parseStatement u p)"
proof (induction u p rule: parseStatement.induct)
  case (1 u p)
  then show ?case using yields_statements [of u p] yields_createIndex [of u p] yields_select [of u p]
    by (subst parseStatement.simps) (auto split: tokenType.splits prod.splits sum.splits)
qed

text \<open>C29: Parsing any text, valid SQL or not, gives an ordinary error, never a panic, or a statement of the expected shape:
  an INSERT has at least one value and only literals, a CREATE TABLE a column, an UPDATE an assignment, and a star stands
  only alone in a projection.\<close>

theorem Parse_shape:
  "case Parse u sql of Inl err \<Rightarrow> \<not> abnormal err | Inr stmt \<Rightarrow> stmt_shape stmt"
  using yields_statement [of u "NewParser u sql"] by (simp add: Parse_def yields_def)

end
