(* ===== verification/ReplProps.thy ===== *)
theory ReplProps
  imports Repl MemstoreOps ParserShape
begin

text \<open>
  What the shell does with its input: the statements it runs are the pieces of the text between semicolons, however
  the text is broken into lines, and a file is run like typed input.  Tables are printed with aligned columns.
\<close>

section \<open>White space\<close>

text \<open>U+FFFD, what invalid bytes decode to, is no white space.\<close>

definition unicode_ok :: "unicode \<Rightarrow> bool" where
  "unicode_ok u \<longleftrightarrow> \<not> uSpace u 65533"

lemma IsSpace_valid: "unicode_ok u \<Longrightarrow> IsSpace u r \<Longrightarrow> r \<noteq> 65533"
  by (auto simp: unicode_ok_def IsSpace_def)

text \<open>Bytes after a valid rune do not change how it decodes.\<close>

lemma decodeRune_append: "decodeRune bs = (r, n) \<Longrightarrow> r \<noteq> 65533 \<Longrightarrow> decodeRune (bs @ cs) = (r, n)"
proof -
  assume d: "decodeRune bs = (r, n)" "r \<noteq> 65533"
  show ?thesis
  proof (cases bs)
    case (Cons a bs1)
    note 1 = Cons
    show ?thesis
    proof (cases bs1)
      case Nil
      with 1 d show ?thesis by (simp add: decodeRune_def split: if_splits)
    next
      case (Cons b bs2)
      note 2 = Cons
      show ?thesis
      proof (cases bs2)
        case Nil
        with 1 2 d show ?thesis by (simp add: decodeRune_def split: if_splits)
      next
        case (Cons c bs3)
        with 1 2 d show ?thesis by (cases bs3) (simp_all add: decodeRune_def split del: if_split split: if_split_asm)
      qed
    qed
  qed (use d in \<open>simp add: decodeRune_def\<close>)
qed

lemma decodeLastRune_split:
  assumes "decodeLastRune bs = (r, n)" and "r \<noteq> 65533"
  shows "decodeRune (drop (length bs - n) bs) = (r, n)" and "0 < n" and "n \<le> length bs"
proof -
  have ne: "bs \<noteq> []" using assms by (auto simp: decodeLastRune_def)
  with decodeLastRune_width [of bs] assms(1) show "0 < n" "n \<le> length bs" by auto
  show "decodeRune (drop (length bs - n) bs) = (r, n)"
  proof (cases "last bs < 128")
    case True
    with ne assms(1) have "r = last bs" "n = 1" by (auto simp: decodeLastRune_def)
    moreover have "drop (length bs - 1) bs = [last bs]" using ne by (cases bs rule: rev_cases) auto
    ultimately show ?thesis using True by (simp add: decodeRune_def)
  next
    case False
    with ne assms show ?thesis by (auto simp: decodeLastRune_def split: option.splits prod.splits if_splits)
  qed
qed

lemma TrimLeftSpace_Nil [simp]: "TrimLeftSpace u [] = []"
  by (simp add: TrimLeftSpace.simps)

lemma TrimLeftSpace_append:
  assumes "unicode_ok u" and "TrimLeftSpace u ws = []"
  shows "TrimLeftSpace u (ws @ s) = TrimLeftSpace u s"
  using assms(2)
proof (induction "length ws" arbitrary: ws rule: less_induct)
  case less
  show ?case
  proof (cases "ws = []")
    case False
    obtain r n where d: "decodeRune (map of_char ws) = (r, n)" by force
    from less.prems False d have sp: "IsSpace u r" "TrimLeftSpace u (drop n ws) = []"
      by (simp_all add: TrimLeftSpace.simps [of u ws] split: if_splits)
    have n: "0 < n" "n \<le> length ws" using decodeRune_width [of "map of_char ws"] d False by auto
    have "decodeRune (map of_char (ws @ s)) = (r, n)"
      using decodeRune_append [OF d IsSpace_valid [OF assms(1) sp(1)], of "map of_char s"] by simp
    with sp(1) False n(2) have "TrimLeftSpace u (ws @ s) = TrimLeftSpace u (drop n ws @ s)"
      by (simp add: TrimLeftSpace.simps [of u "ws @ s"])
    with less.hyps [OF _ sp(2)] n show ?thesis by simp
  qed simp
qed

lemma TrimLeftSpace_one:
  assumes "s \<noteq> []" and "decodeRune (map of_char s) = (r, length s)" and "IsSpace u r"
  shows "TrimLeftSpace u s = []"
  using assms by (simp add: TrimLeftSpace.simps [of u s])

lemma TrimRightSpace_all:
  assumes "unicode_ok u" and "TrimRightSpace u s = []"
  shows "TrimLeftSpace u s = []"
  using assms(2)
proof (induction "length s" arbitrary: s rule: less_induct)
  case less
  show ?case
  proof (cases "s = []")
    case False
    obtain r n where d: "decodeLastRune (map of_char s) = (r, n)" by force
    from less.prems False d have sp: "IsSpace u r" "TrimRightSpace u (take (length s - n) s) = []"
      by (simp_all add: TrimRightSpace.simps [of u s] split: if_splits)
    note e = decodeLastRune_split [OF d IsSpace_valid [OF assms(1) sp(1)]]
    have "TrimLeftSpace u (drop (length s - n) s) = []"
      by (rule TrimLeftSpace_one [where r = r]) (use e sp(1) in \<open>auto simp: drop_map\<close>)
    moreover have "TrimLeftSpace u (take (length s - n) s) = []" using less.hyps [OF _ sp(2)] e False by simp
    ultimately show ?thesis using TrimLeftSpace_append [OF assms(1), of "take (length s - n) s" "drop (length s - n) s"] by simp
  qed simp
qed

lemma TrimLeftSpace_idem: "TrimLeftSpace u (TrimLeftSpace u s) = TrimLeftSpace u s"
proof (induction u s rule: TrimLeftSpace.induct)
  case (1 u s)
  show ?case
  proof (cases "s = []")
    case False
    obtain r n where d: "decodeRune (map of_char s) = (r, n)" by force
    show ?thesis
    proof (cases "IsSpace u r")
      case True
      with "1.IH" [OF False d [symmetric]] False d show ?thesis by (simp add: TrimLeftSpace.simps [of u s])
    next
      case no: False
      with False d have "TrimLeftSpace u s = s" by (simp add: TrimLeftSpace.simps [of u s])
      then show ?thesis by simp
    qed
  qed simp
qed

lemma TrimSpace_blank:
  assumes "unicode_ok u"
  shows "TrimSpace u s = [] \<longleftrightarrow> TrimLeftSpace u s = []"
proof
  assume "TrimSpace u s = []"
  then show "TrimLeftSpace u s = []" using TrimRightSpace_all [OF assms, of "TrimLeftSpace u s"] by (simp add: TrimSpace_def TrimLeftSpace_idem)
qed (simp add: TrimSpace_def TrimRightSpace.simps)

lemma TrimSpace_append: "unicode_ok u \<Longrightarrow> TrimSpace u ws = [] \<Longrightarrow> TrimSpace u (ws @ s) = TrimSpace u s"
  by (simp add: TrimSpace_blank) (simp add: TrimSpace_def TrimLeftSpace_append)

lemma TrimSpace_nl: "unicode_ok u \<Longrightarrow> TrimSpace u ws = [] \<Longrightarrow> TrimSpace u (ws @ nl) = []"
proof -
  have "TrimLeftSpace u nl = []" by (simp add: TrimLeftSpace.simps decodeRune_def IsSpace_def)
  then show "unicode_ok u \<Longrightarrow> TrimSpace u ws = [] \<Longrightarrow> TrimSpace u (ws @ nl) = []"
    by (simp add: TrimSpace_append) (simp add: TrimSpace_def TrimRightSpace.simps)
qed

section \<open>The statements of a text\<close>

text \<open>The pieces of a text between its semicolons, the statements among all but the last of them, and their execution
  one after the other.\<close>

fun pieces :: "string \<Rightarrow> string list" where
  "pieces [] = [[]]"
| "pieces (c # s) = (case pieces s of p # ps \<Rightarrow> if c = CHR '';'' then [] # p # ps else (c # p) # ps | [] \<Rightarrow> [])"

definition statementsOf :: "unicode \<Rightarrow> string \<Rightarrow> string list" where
  "statementsOf u s = filter (\<lambda>t. t \<noteq> []) (map (TrimSpace u) (butlast (pieces s)))"

fun runAll :: "unicode \<Rightarrow> nat \<Rightarrow> ('s, 'i) storageEngine \<Rightarrow> string list \<Rightarrow> 's repl \<Rightarrow> 's repl \<times> unit res" where
  "runAll u n ops [] r = (r, Inr ())"
| "runAll u n ops (sql # sqls) r = andThen (runOne u n ops sql r) (\<lambda>_ r. runAll u n ops sqls r)"

lemma pieces_ne [simp]: "pieces s \<noteq> []"
  by (induction s) (auto simp: neq_Nil_conv split: list.splits)

lemma pieces_append:
  "pieces (a @ b) = butlast (pieces a) @ (last (pieces a) @ hd (pieces b)) # tl (pieces b)"
proof (induction a)
  case (Cons c a)
  then show ?case by (cases "pieces a"; cases "pieces b") (auto simp: neq_Nil_conv split: if_splits)
qed simp

lemma pieces_IndexByte:
  "IndexByte s CHR '';'' = None \<Longrightarrow> pieces s = [s]"
  "IndexByte s CHR '';'' = Some i \<Longrightarrow> pieces s = take i s # pieces (drop (Suc i) s)"
  by (induction s arbitrary: i) (auto split: if_splits list.splits)

lemma statementsOf_simps:
  "IndexByte s CHR '';'' = None \<Longrightarrow> statementsOf u s = []"
  "IndexByte s CHR '';'' = Some i \<Longrightarrow> statementsOf u s =
     (if TrimSpace u (take i s) = [] then [] else [TrimSpace u (take i s)]) @ statementsOf u (drop (Suc i) s)"
  by (simp_all add: statementsOf_def pieces_IndexByte)

text \<open>Blank text has no semicolon.\<close>

lemma decodeRune_bytes:
  assumes "decodeRune (b # bs) = (r, n)" and "r \<noteq> 65533" and "b < 128"
  shows "n = 1" and "r = b"
  using assms by (auto simp: decodeRune_def)

lemma decodeRune_high:
  assumes "decodeRune bs = (r, n)" and "r \<noteq> 65533" and "bs \<noteq> []" and "128 \<le> hd bs"
  shows "\<forall>b \<in> set (take n bs). 128 \<le> b"
proof -
  obtain a bs1 where 1: "bs = a # bs1" "128 \<le> a" using assms(3,4) by (cases bs) auto
  show ?thesis
  proof (cases bs1)
    case Nil
    with 1 assms show ?thesis by (simp add: decodeRune_def split: if_splits)
  next
    case (Cons b bs2)
    note 2 = Cons
    show ?thesis
    proof (cases bs2)
      case Nil
      with 1 2 assms show ?thesis by (auto simp: decodeRune_def split: if_splits)
    next
      case (Cons c bs3)
      note 3 = Cons
      show ?thesis
      proof (cases bs3)
        case Nil
        with 1 2 3 assms show ?thesis by (auto simp: decodeRune_def split del: if_split split: if_split_asm)
      next
        case (Cons d bs4)
        define C2 where "C2 \<longleftrightarrow> 194 \<le> a \<and> a \<le> 223 \<and> 128 \<le> b \<and> b \<le> 191"
        define C3 where "C3 \<longleftrightarrow> 224 \<le> a \<and> a \<le> 239 \<and> (if a = 224 then 160 else 128) \<le> b \<and> b \<le> (if a = 237 then 159 else 191) \<and>
          128 \<le> c \<and> c \<le> 191"
        define C4 where "C4 \<longleftrightarrow> 240 \<le> a \<and> a \<le> 244 \<and> (if a = 240 then 144 else 128) \<le> b \<and> b \<le> (if a = 244 then 143 else 191) \<and>
          128 \<le> c \<and> c \<le> 191 \<and> 128 \<le> d \<and> d \<le> 191"
        have b: "C2 \<or> C3 \<or> C4 \<Longrightarrow> 128 \<le> b" "C3 \<or> C4 \<Longrightarrow> 128 \<le> c" "C4 \<Longrightarrow> 128 \<le> d"
          by (auto simp: C2_def C3_def C4_def split: if_splits)
        obtain x y z where "decodeRune bs = (if C2 then (x, 2) else if C3 then (y, 3) else if C4 then (z, 4) else (65533, 1))"
        proof (rule that)
          have "\<not> a < 128" using 1(2) by simp
          then show "decodeRune bs = (if C2 then ((a - 192) * 64 + (b - 128), 2)
              else if C3 then ((a - 224) * 4096 + (b - 128) * 64 + (c - 128), 3)
              else if C4 then ((a - 240) * 262144 + (b - 128) * 4096 + (c - 128) * 64 + (d - 128), 4) else (65533, 1))"
            by (simp only: 1(1) 2 3 Cons decodeRune_def list.case C2_def C3_def C4_def if_False)
        qed
        with assms(1,2) have "n = 2 \<and> C2 \<or> n = 3 \<and> C3 \<or> n = 4 \<and> C4" by (auto split: if_splits)
        then have "set (take n bs) \<subseteq> {a, b} \<and> C2 \<or> set (take n bs) \<subseteq> {a, b, c} \<and> C3 \<or> set (take n bs) \<subseteq> {a, b, c, d} \<and> C4"
          unfolding 1(1) 2 3 Cons by auto
        with 1(2) b show ?thesis by blast
      qed
    qed
  qed
qed

lemma blank_no_semicolon:
  assumes "unicode_ok u" and "TrimLeftSpace u s = []"
  shows "CHR '';'' \<notin> set s"
  using assms(2)
proof (induction "length s" arbitrary: s rule: less_induct)
  case less
  show ?case
  proof (cases s)
    case (Cons c s')
    then have ne: "s \<noteq> []" by simp
    obtain r n where d: "decodeRune (map of_char s) = (r, n)" by force
    from less.prems ne d have sp: "IsSpace u r" "TrimLeftSpace u (drop n s) = []"
      by (simp_all add: TrimLeftSpace.simps [of u s] split: if_splits)
    note valid = IsSpace_valid [OF assms(1) sp(1)]
    have n: "0 < n" "n \<le> length s" using decodeRune_width [of "map of_char s"] d Cons by auto
    have "CHR '';'' \<notin> set (take n s)"
    proof (cases "(of_char c :: nat) < 128")
      case True
      with decodeRune_bytes [OF d [unfolded Cons list.map] valid] have "n = 1" "r = of_char c" by simp_all
      with sp(1) Cons show ?thesis by (auto simp: IsSpace_def)
    next
      case False
      then have "\<forall>b \<in> set (take n (map of_char s)). 128 \<le> (b :: nat)" using decodeRune_high [OF d valid] Cons by simp
      then show ?thesis by (auto simp: take_map)
    qed
    moreover have "CHR '';'' \<notin> set (drop n s)" using less.hyps [OF _ sp(2)] n by simp
    ultimately show ?thesis using set_append [of "take n s" "drop n s"] by simp
  qed simp
qed

lemma pieces_no_semicolon: "CHR '';'' \<notin> set s \<Longrightarrow> pieces s = [s]"
  by (induction s) auto

lemma last_pieces: "CHR '';'' \<notin> set (last (pieces s))"
proof (induction s)
  case (Cons c s)
  then show ?case by (cases "pieces s") (simp_all split: if_splits)
qed simp

lemma statementsOf_append: "statementsOf u (s @ t) = statementsOf u s @ statementsOf u (last (pieces s) @ t)"
  by (simp add: statementsOf_def pieces_append [of s] pieces_append [of "last (pieces s)"] pieces_no_semicolon [OF last_pieces] butlast_append)

lemma statementsOf_blank_prefix:
  assumes "unicode_ok u" and "TrimSpace u ws = []"
  shows "statementsOf u (ws @ t) = statementsOf u t"
proof -
  have ws: "pieces ws = [ws]"
    using pieces_no_semicolon blank_no_semicolon [OF assms(1)] assms(2) TrimSpace_blank [OF assms(1)] by blast
  have t: "pieces t = hd (pieces t) # tl (pieces t)" by simp
  have "pieces (ws @ t) = (ws @ hd (pieces t)) # tl (pieces t)" by (simp add: pieces_append ws)
  with t show ?thesis unfolding statementsOf_def
    by (metis (no_types, lifting) TrimSpace_append [OF assms] butlast.simps(2) list.simps(9))
qed

lemma statementsOf_blank: "unicode_ok u \<Longrightarrow> TrimSpace u ws = [] \<Longrightarrow> statementsOf u ws = []"
  using statementsOf_blank_prefix [of u ws "[]"] by (simp add: statementsOf_def)

section \<open>Running statements\<close>

text \<open>What a statement does to the session does not depend on the rest of the shell, and it does not touch the buffer.\<close>

lemma recovered_session [simp]: "session (fst (recovered (r, x))) = session r" "buf (fst (recovered (r, x))) = buf r"
  "running (fst (recovered (r, x))) = running r" "snd (recovered (r, x)) = snd (recovered (r', x))"
  by (cases x; cases "projl x"; simp add: emit_def)+

lemma runOne_alike:
  assumes "session r1 = session r2"
  shows "session (fst (runOne u n ops sql r1)) = session (fst (runOne u n ops sql r2))"
    and "snd (runOne u n ops sql r1) = snd (runOne u n ops sql r2)"
  using assms by (auto simp: runOne_def emit_def split: sum.splits prod.splits)

lemma runOne_keeps: "buf (fst (runOne u n ops sql r)) = buf r" "running (fst (runOne u n ops sql r)) = running r"
  by (auto simp: runOne_def emit_def split: sum.splits prod.splits)

lemma runAll_alike:
  assumes "session r1 = session r2"
  shows "session (fst (runAll u n ops sqls r1)) = session (fst (runAll u n ops sqls r2)) \<and>
    snd (runAll u n ops sqls r1) = snd (runAll u n ops sqls r2)"
  using assms
proof (induction sqls arbitrary: r1 r2)
  case (Cons sql sqls)
  obtain a x b y where e: "runOne u n ops sql r1 = (a, x)" "runOne u n ops sql r2 = (b, y)" by force
  with runOne_alike [OF Cons.prems, of u n ops sql] have "session a = session b" "x = y" by simp_all
  with Cons.IH [of a b] show ?case by (cases y) (simp_all add: e)
qed simp

lemma runAll_keeps:
  "buf (fst (runAll u n ops sqls r)) = buf r \<and> running (fst (runAll u n ops sqls r)) = running r"
proof (induction sqls arbitrary: r)
  case (Cons sql sqls)
  obtain a x where e: "runOne u n ops sql r = (a, x)" by force
  with runOne_keeps [of u n ops sql r] have "buf a = buf r" "running a = running r" by simp_all
  with e Cons.IH [of a] show ?case by (cases x) simp_all
qed simp

lemma runAll_append: "runAll u n ops (xs @ ys) r = andThen (runAll u n ops xs r) (\<lambda>_ r. runAll u n ops ys r)"
proof (induction xs arbitrary: r)
  case (Cons sql xs)
  obtain a x where "runOne u n ops sql r = (a, x)" by force
  with Cons.IH [of a] show ?case by (cases x) simp_all
qed simp

lemma runStatements_runAll:
  "runStatements u n ops cnt s r =
   andThen (runAll u n ops (statementsOf u s) r) (\<lambda>_ r. (r, Inr (cnt + length (statementsOf u s), last (pieces s))))"
proof (induction u n ops cnt s r rule: runStatements.induct)
  case (1 u n ops cnt s r)
  show ?case
  proof (cases "IndexByte s CHR '';''")
    case None
    then show ?thesis by (simp add: runStatements.simps [of u n ops cnt s] statementsOf_simps pieces_IndexByte)
  next
    case (Some i)
    note st = statementsOf_simps(2) [OF Some, of u] pieces_IndexByte(2) [OF Some]
    obtain a x where e: "runOne u n ops (TrimSpace u (take i s)) r = (a, x)" by force
    show ?thesis
    proof (cases "TrimSpace u (take i s) = []")
      case True
      with "1.IH"(2) [OF Some refl refl] show ?thesis by (simp add: runStatements.simps [of u n ops cnt s] Some st)
    next
      case False
      with "1.IH"(1) [OF Some refl refl] show ?thesis
        by (cases x) (simp_all add: runStatements.simps [of u n ops cnt s] Some st e)
    qed
  qed
qed

text \<open>The text of typed lines.\<close>

definition typed :: "string list \<Rightarrow> string" where
  "typed lines = concat (map (\<lambda>l. l @ nl) lines)"

text \<open>One line of SQL: its statements, and what is kept for the next line.\<close>

definition kept :: "unicode \<Rightarrow> string \<Rightarrow> string" where
  "kept u s = (if TrimSpace u (last (pieces s)) \<noteq> [] then last (pieces s) else [])"

lemma feedLine_statements:
  assumes "unicode_ok u" and "\<not> HasPrefix (TrimSpace u line) ''.''"
  shows "session (fst (feedLine fs u n ops line r)) = session (fst (runAll u n ops (statementsOf u (buf r @ line @ nl)) r)) \<and>
    snd (feedLine fs u n ops line r) = snd (runAll u n ops (statementsOf u (buf r @ line @ nl)) r) \<and>
    running (fst (feedLine fs u n ops line r)) = running r \<and>
    (snd (feedLine fs u n ops line r) = Inr () \<longrightarrow> buf (fst (feedLine fs u n ops line r)) = kept u (buf r @ line @ nl))"
proof (cases "TrimSpace u line = [] \<and> buf r = []")
  case True
  have blank: "TrimSpace u (line @ nl) = []" using TrimSpace_nl [OF assms(1)] True by blast
  then have "CHR '';'' \<notin> set (line @ nl)"
    using blank_no_semicolon [OF assms(1)] TrimSpace_blank [OF assms(1)] by blast
  then have "kept u (buf r @ line @ nl) = []" using blank True pieces_no_semicolon [of "line @ nl"] by (simp add: kept_def)
  with True statementsOf_blank [OF assms(1) blank] show ?thesis by (simp add: feedLine_def)
next
  case False
  let ?t = "buf r @ line @ nl" and ?r = "r\<lparr>buf := buf r @ line @ nl\<rparr>"
  have f: "feedLine fs u n ops line r = drainStatements u n ops ?r"
    using assms(2) False by (auto simp: feedLine_def Let_def)
  obtain a x where e: "runAll u n ops (statementsOf u ?t) ?r = (a, x)" by force
  have "session (fst (runAll u n ops (statementsOf u ?t) r)) = session a" "snd (runAll u n ops (statementsOf u ?t) r) = x"
    "running a = running r"
    using runAll_alike [of ?r r u n ops "statementsOf u ?t"] runAll_keeps [of u n ops "statementsOf u ?t" ?r] e by simp_all
  then show ?thesis
    by (cases x) (simp_all add: f drainStatements_def runStatements_runAll e kept_def)
qed

lemma Run_loop_statements:
  assumes "unicode_ok u" and "\<forall>line \<in> set lines. \<not> HasPrefix (TrimSpace u line) ''.''" and "running r" and "CHR '';'' \<notin> set (buf r)"
  shows "session (fst (Run_loop fs u n ops lines r)) = session (fst (runAll u n ops (statementsOf u (buf r @ typed lines)) r)) \<and>
    snd (Run_loop fs u n ops lines r) = snd (runAll u n ops (statementsOf u (buf r @ typed lines)) r)"
  using assms(2-)
proof (induction lines arbitrary: r)
  case Nil
  then show ?case by (simp add: typed_def statementsOf_def pieces_no_semicolon emit_def)
next
  case (Cons line lines)
  let ?r = "emit (prompt r) r" and ?t = "buf r @ line @ nl"
  have r: "session ?r = session r" "buf ?r = buf r" "running ?r" using Cons.prems by (simp_all add: emit_def)
  obtain a x where e: "feedLine fs u n ops line ?r = (a, x)" by force
  obtain b y where e': "runAll u n ops (statementsOf u ?t) r = (b, y)" by force
  have meta: "\<not> HasPrefix (TrimSpace u line) ''.''" using Cons.prems(1) by simp
  let ?k = "kept u ?t"
  have same: "session a = session b" "x = y" "running a" "x = Inr () \<Longrightarrow> buf a = ?k"
    using feedLine_statements [OF assms(1) meta, where r = ?r and fs = fs and n = n and ops = ops] runAll_alike [OF r(1), of u n ops "statementsOf u ?t"] e e' r(2,3)
    by auto
  have whole: "buf r @ typed (line # lines) = ?t @ typed lines" by (simp add: typed_def)
  have keep: "statementsOf u (last (pieces ?t) @ typed lines) = statementsOf u (?k @ typed lines)"
    using statementsOf_blank_prefix [OF assms(1)] by (auto simp: kept_def)
  have all: "runAll u n ops (statementsOf u (?t @ typed lines)) r =
      andThen (b, y) (\<lambda>_ r. runAll u n ops (statementsOf u (?k @ typed lines)) r)"
    unfolding statementsOf_append [of u ?t] keep runAll_append e' ..
  show ?case
  proof (cases y)
    case (Inl err)
    with same e all whole Cons.prems show ?thesis by simp
  next
    case (Inr v)
    then have y: "y = Inr ()" by simp
    with same have a: "buf a = ?k" by simp
    have "CHR '';'' \<notin> set (buf a)" unfolding a kept_def using last_pieces [of ?t] by simp
    with Cons.IH [of a] Cons.prems(1) same(3) a
    have "session (fst (Run_loop fs u n ops lines a)) = session (fst (runAll u n ops (statementsOf u (?k @ typed lines)) a)) \<and>
      snd (Run_loop fs u n ops lines a) = snd (runAll u n ops (statementsOf u (?k @ typed lines)) a)" by simp
    with runAll_alike [OF same(1), of u n ops "statementsOf u (?k @ typed lines)"] show ?thesis
      using y same(2) e all whole Cons.prems(2) by simp
  qed
qed

text \<open>C31: The statements of a session.  As long as no line is a meta-command, the shell runs exactly the pieces of its
  input between semicolons, without surrounding white space and in order, whatever line breaks the input has, and
  nothing else changes the session.\<close>

theorem Run_statements:
  assumes "unicode_ok u" and "\<forall>line \<in> set lines. \<not> HasPrefix (TrimSpace u line) ''.''"
  shows "session (fst (Run fs u n ops lines None (NewREPL e))) =
      session (fst (runAll u n ops (statementsOf u (typed lines)) (NewREPL e))) \<and>
    snd (Run fs u n ops lines None (NewREPL e)) = snd (runAll u n ops (statementsOf u (typed lines)) (NewREPL e))"
proof -
  let ?r = "emit banner (NewREPL e)"
  have r: "running ?r" "buf ?r = []" "session ?r = session (NewREPL e)" by (simp_all add: emit_def NewREPL_def)
  obtain a x where "Run_loop fs u n ops lines ?r = (a, x)" by force
  moreover have "x = Inr () \<or> (\<exists>err. x = Inl err)" by (cases x) auto
  ultimately show ?thesis
    using Run_loop_statements [OF assms r(1), of fs n ops] runAll_alike [OF r(3), of u n ops "statementsOf u (typed lines)"] r(2)
    by (auto simp: Run_def)
qed

definition demoUnicode :: unicode where
  "demoUnicode = \<lparr>uSpace = (\<lambda>r. r = 160), uDigit = (\<lambda>_. False), uLetter = (\<lambda>_. False), uUpper = (\<lambda>r. r)\<rparr>"

definition demoLines :: "string list" where
  "demoLines = [''  BEGIN; COMMIT'', '' ;'']"

text \<open>On ASCII text white space is dropped byte by byte.\<close>

lemma TrimLeftSpace_ascii:
  "list_all (\<lambda>c. (of_char c :: nat) < 128) s \<Longrightarrow> TrimLeftSpace u s = dropWhile (\<lambda>c. IsSpace u (of_char c)) s"
  by (induction s) (simp_all add: TrimLeftSpace.simps [of u "c # s" for c s] decodeRune_def)

lemma TrimRightSpace_ascii:
  "list_all (\<lambda>c. (of_char c :: nat) < 128) s \<Longrightarrow> TrimRightSpace u s = rev (dropWhile (\<lambda>c. IsSpace u (of_char c)) (rev s))"
proof (induction s rule: rev_induct)
  case (snoc c s)
  then show ?case by (simp add: TrimRightSpace.simps [of u "s @ [c]"] decodeLastRune_def)
qed (simp add: TrimRightSpace.simps)

lemma TrimSpace_ascii:
  fixes u :: unicode
  assumes "list_all (\<lambda>c. (of_char c :: nat) < 128) s"
  defines "blank \<equiv> \<lambda>c. IsSpace u (of_char c)"
  shows "TrimSpace u s = rev (dropWhile blank (rev (dropWhile blank s)))"
proof -
  have "list_all (\<lambda>c. (of_char c :: nat) < 128) (dropWhile blank s)"
    using assms(1) by (auto simp: list_all_iff dest: set_dropWhileD)
  then show ?thesis using assms(1) by (simp add: TrimSpace_def TrimLeftSpace_ascii TrimRightSpace_ascii blank_def)
qed

lemma demo_lines:
  "unicode_ok demoUnicode" "\<forall>line \<in> set demoLines. \<not> HasPrefix (TrimSpace demoUnicode line) ''.''"
  "statementsOf demoUnicode (typed demoLines) = [''BEGIN'', ''COMMIT'']"
  by (simp_all add: unicode_ok_def demoUnicode_def demoLines_def typed_def statementsOf_def TrimSpace_ascii IsSpace_def)

theorem Run_statements_witness:
  "session (fst (Run (\<lambda>_. Inl []) demoUnicode 1 memOps demoLines None (NewREPL mem_New))) =
     session (fst (runAll demoUnicode 1 memOps [''BEGIN'', ''COMMIT''] (NewREPL mem_New)))"
  using Run_statements [OF demo_lines(1,2), of "\<lambda>_. Inl []" 1 memOps mem_New] demo_lines(3) by simp

text \<open>A line break at the end of a text adds no statement.\<close>

lemma statementsOf_nl: "statementsOf u (s @ nl) = statementsOf u s"
proof -
  have "pieces (last (pieces s) @ nl) = [last (pieces s) @ nl]" by (rule pieces_no_semicolon) (simp add: last_pieces)
  then have "statementsOf u (last (pieces s) @ nl) = []" by (simp only: statementsOf_def butlast.simps list.map filter.simps simp_thms if_True)
  then show ?thesis by (simp only: statementsOf_append [of u s] append_Nil2)
qed

text \<open>C36: A file of statements.  When no line of a file begins, after white space, with the dot of a meta-command,
  reading the file with \<^verbatim>\<open>.read\<close> does to the session what typing its lines at an empty prompt would do, and it
  returns when typing would; the last line of the file may end without a line break.\<close>

theorem readFile_as_typed:
  assumes "unicode_ok u" and "\<forall>line \<in> set lines. \<not> HasPrefix (TrimSpace u line) ''.''"
    and "fs path = Inr data" and "data = typed lines \<or> data @ nl = typed lines"
    and "running r" and "buf r = []"
  shows "session (fst (readFile fs u n ops path r)) = session (fst (Run_loop fs u n ops lines r)) \<and>
    snd (readFile fs u n ops path r) = snd (Run_loop fs u n ops lines r)"
proof -
  obtain a x where e: "runAll u n ops (statementsOf u (typed lines)) r = (a, x)" by force
  have data: "statementsOf u data = statementsOf u (typed lines)" using assms(4) statementsOf_nl [of u data] by auto
  have "CHR '';'' \<notin> set (buf r)" using assms(6) by simp
  from Run_loop_statements [OF assms(1,2,5) this, of fs n ops] e assms(6)
  have "session (fst (Run_loop fs u n ops lines r)) = session a" "snd (Run_loop fs u n ops lines r) = x" by simp_all
  moreover have "x = Inr () \<or> (\<exists>err. x = Inl err)" by (cases x) auto
  ultimately show ?thesis by (auto simp: readFile_def assms(3) runStatements_runAll data e emit_def Let_def)
qed

theorem readFile_as_typed_witness:
  "session (fst (readFile (\<lambda>_. Inr (''  BEGIN; COMMIT'' @ nl @ '' ;'')) demoUnicode 1 memOps ''f'' (NewREPL mem_New))) =
     session (fst (Run_loop (\<lambda>_. Inr (''  BEGIN; COMMIT'' @ nl @ '' ;'')) demoUnicode 1 memOps demoLines (NewREPL mem_New)))"
  using readFile_as_typed [OF demo_lines(1,2), of "\<lambda>_. Inr (''  BEGIN; COMMIT'' @ nl @ '' ;'')" "''f''"
      "''  BEGIN; COMMIT'' @ nl @ '' ;''" "NewREPL mem_New" 1 memOps]
  by (simp add: NewREPL_def typed_def demoLines_def)

section \<open>Answers\<close>

text \<open>C32: Every statement is answered.  Whatever the text and whatever state the engine is in, the shell prints something and
  goes on: a parse error, an execution error, a recovered panic or a result; only a call of the engine that blocks or
  loops forever keeps it from answering.\<close>

theorem runOne_answers:
  "(\<exists>r' t. runOne u n ops sql r = (r', Inr ()) \<and> outp r' = outp r @ t \<and> t \<noteq> []) \<or>
   (\<exists>stmt s err. Parse u sql = Inr stmt \<and> Exec n ops (Some stmt) (session r) = (s, Inl err) \<and> err \<in> {Deadlock, Diverges} \<and>
     snd (runOne u n ops sql r) = Inl err)"
proof (cases "Parse u sql")
  case (Inl err)
  with Parse_shape [of u sql] show ?thesis by (auto simp: runOne_def emit_def)
next
  case (Inr stmt)
  obtain s x where e: "Exec n ops (Some stmt) (session r) = (s, x)" by force
  show ?thesis
  proof (cases x)
    case (Inl err)
    then show ?thesis using Inr e by (cases err) (auto simp: runOne_def emit_def reportError_def reportConflict_def)
  next
    case (Inr res)
    have "formatResult stmt res \<noteq> []"
      by (cases stmt) (auto simp: Let_def formatTable_def sepLine_def)
    with Inr \<open>Parse u sql = Inr stmt\<close> e show ?thesis by (auto simp: runOne_def emit_def)
  qed
qed

section \<open>Tables\<close>

lemma decodeRune_before_ascii: "bs \<noteq> [] \<Longrightarrow> c < 128 \<Longrightarrow> decodeRune (bs @ c # cs) = decodeRune bs"
proof -
  assume c: "bs \<noteq> []" "c < 128"
  then obtain a bs1 where 1: "bs = a # bs1" by (cases bs) auto
  show ?thesis
  proof (cases bs1)
    case Nil
    with 1 c show ?thesis by (cases cs; cases "tl cs") (simp_all add: decodeRune_def)
  next
    case (Cons b bs2)
    note 2 = Cons
    show ?thesis
    proof (cases bs2)
      case Nil
      with 1 2 c show ?thesis by (cases cs) (simp_all add: decodeRune_def)
    next
      case (Cons d bs3)
      with 1 2 c show ?thesis by (cases bs3) (simp_all add: decodeRune_def)
    qed
  qed
qed

lemma decodeRunes_before_ascii: "c < 128 \<Longrightarrow> decodeRunes (bs @ c # cs) = decodeRunes bs @ decodeRunes (c # cs)"
proof (induction "length bs" arbitrary: bs rule: less_induct)
  case less
  show ?case
  proof (cases bs)
    case (Cons b bs')
    obtain r n where d: "decodeRune (b # bs') = (r, n)" by force
    then have n: "0 < n" "n \<le> Suc (length bs')" using decodeRune_width [of "b # bs'"] by simp_all
    have "decodeRune (b # bs' @ c # cs) = (r, n)" using decodeRune_before_ascii [of "b # bs'" c cs] less.prems d by simp
    moreover have "decodeRunes (drop (n - 1) bs' @ c # cs) = decodeRunes (drop (n - 1) bs') @ decodeRunes (c # cs)"
      using less.hyps [of "drop (n - 1) bs'"] less.prems Cons n by simp
    ultimately show ?thesis using Cons d n by simp
  qed simp
qed

definition runeCount :: "string \<Rightarrow> nat" where
  "runeCount s = length (runesOf s)"

lemma runeCount_simps [simp]: "runeCount [] = 0" "(of_char c :: nat) < 128 \<Longrightarrow> runeCount (c # s) = Suc (runeCount s)"
  by (simp_all add: runeCount_def runesOf_def decodeRune_def)

lemma runeCount_ascii [simp]: "(of_char c :: nat) < 128 \<Longrightarrow> runeCount (s @ c # t) = runeCount s + Suc (runeCount t)"
proof -
  assume c: "(of_char c :: nat) < 128"
  then have "runeCount (s @ c # t) = runeCount s + runeCount (c # t)"
    by (simp add: runeCount_def runesOf_def decodeRunes_before_ascii)
  with c show ?thesis by simp
qed

lemma runeCount_replicate [simp]: "(of_char c :: nat) < 128 \<Longrightarrow> runeCount (replicate k c) = k"
  by (induction k) simp_all

lemma runeCount_le: "runeCount s \<le> length s"
  using length_decodeRunes [of "map of_char s"] by (simp add: runeCount_def runesOf_def)

lemma runeCount_padded:
  assumes "length s \<le> w" and "w \<le> 1000000"
  shows "runeCount (padRight w s) = w"
proof -
  have le: "runeCount s \<le> w" using runeCount_le [of s] assms(1) by simp
  have p: "padRight w s = s @ replicate (w - runeCount s) CHR '' ''" using assms(2) by (simp add: padRight_def runeCount_def)
  show ?thesis
  proof (cases "w - runeCount s")
    case 0
    with le p show ?thesis by simp
  next
    case (Suc k)
    with le show ?thesis by (simp add: p)
  qed
qed

lemma runeCount_sepLine: "runeCount (sepLine widths) = 2 + sum_list (map (\<lambda>w. w + 3) widths)"
proof -
  have "runeCount (concat (map (\<lambda>w. replicate (w + 2) CHR ''-'' @ ''+'') widths) @ nl) = sum_list (map (\<lambda>w. w + 3) widths) + 1"
    by (induction widths) (simp_all del: replicate.simps)
  then show ?thesis by (simp add: sepLine_def del: replicate.simps)
qed

lemma runeCount_writeRow:
  assumes "length vals = length widths" and "\<forall>(w, s) \<in> set (zip widths vals). length s \<le> w \<and> w \<le> 1000000"
  shows "runeCount (writeRow widths vals) = 2 + sum_list (map (\<lambda>w. w + 3) widths)"
proof -
  have "runeCount (concat (map2 (\<lambda>w s. '' '' @ padRight w s @ '' |'') widths vals) @ nl) = sum_list (map (\<lambda>w. w + 3) widths) + 1"
    using assms by (induction vals widths rule: list_induct2) (simp_all add: runeCount_padded)
  then show ?thesis by (simp add: writeRow_def)
qed

lemma foldl_max_bound: "w \<le> foldl (\<lambda>w x. max w (f x)) w xs \<and> (\<forall>x \<in> set xs. f x \<le> foldl (\<lambda>w x. max w (f x)) w xs)"
  for f :: "'b \<Rightarrow> nat"
proof (induction xs arbitrary: w)
  case (Cons x xs)
  from Cons.IH [of "max w (f x)"] show ?case by auto
qed simp

lemma tableWidths_bound:
  assumes "i < length (Columns (resSchema res))"
  shows "length (colName (Columns (resSchema res) ! i)) \<le> tableWidths res ! i"
    and "cells \<in> set (tableCells res) \<Longrightarrow> length (cells ! i) \<le> tableWidths res ! i"
  using assms foldl_max_bound [of "length (colName (Columns (resSchema res) ! i))" "\<lambda>cells. length (cells ! i)" "tableCells res"]
  by (auto simp: tableWidths_def)

text \<open>The lines of a table without their line breaks.\<close>

definition tableLines :: "sqlResult \<Rightarrow> string list" where
  "tableLines res = map butlast
     ([sepLine (tableWidths res), writeRow (tableWidths res) (map colName (Columns (resSchema res))), sepLine (tableWidths res)] @
      map (writeRow (tableWidths res)) (tableCells res) @ [sepLine (tableWidths res)])"

lemma ends_nl: "butlast (sepLine ws) @ nl = sepLine ws" "butlast (writeRow ws vals) @ nl = writeRow ws vals"
  by (simp_all add: sepLine_def writeRow_def butlast_append)

lemma formatTable_lines:
  assumes "Columns (resSchema res) \<noteq> []"
  shows "formatTable res = concat (map (\<lambda>l. l @ nl) (tableLines res)) @ ''('' @ rowsCount (length (resRows res)) @ '')'' @ nl"
proof -
  have "concat (map (\<lambda>l. l @ nl) (map butlast (map (writeRow ws) css))) = concat (map (writeRow ws) css)" for ws css
    by (induction css) (simp_all only: list.map concat.simps ends_nl)
  then show ?thesis using assms
    by (simp add: formatTable_def tableLines_def Let_def ends_nl [unfolded append_assoc] del: append_assoc flip: append_assoc)
qed

text \<open>Cells fit in their columns.\<close>

lemma cells_fit:
  assumes "vals = map colName (Columns (resSchema res)) \<or> vals \<in> set (tableCells res)"
  shows "length vals = length (tableWidths res)" and "\<forall>(w, s) \<in> set (zip (tableWidths res) vals). length s \<le> w"
proof -
  have len: "length (tableWidths res) = length (Columns (resSchema res))" "length vals = length (Columns (resSchema res))"
    using assms by (auto simp: tableWidths_def tableCells_def)
  then show "length vals = length (tableWidths res)" by simp
  have "length (vals ! i) \<le> tableWidths res ! i" if "i < length (Columns (resSchema res))" for i
    using tableWidths_bound [OF that] assms that by auto
  then show "\<forall>(w, s) \<in> set (zip (tableWidths res) vals). length s \<le> w" using len by (auto simp: set_zip)
qed

lemma runeCount_butlast: "l @ nl = s \<Longrightarrow> runeCount l = runeCount s - 1"
  by (auto dest!: arg_cong [where f = runeCount])

lemma sepLine_no_nl: "CHR 0x0A \<notin> set (butlast (sepLine ws))"
  by (auto simp: sepLine_def butlast_append split: if_splits)

lemma writeRow_no_nl:
  assumes "\<forall>w \<in> set ws. w \<le> 1000000" and "\<forall>s \<in> set vals. CHR 0x0A \<notin> set s"
  shows "CHR 0x0A \<notin> set (butlast (writeRow ws vals))"
  using assms by (auto simp: writeRow_def butlast_append padRight_def dest!: set_zip_leftD set_zip_rightD split: if_splits)

text \<open>C37: Tables are aligned.  A printed result with columns, whose names and cells have no line break and at most a
  million bytes (what the formatting library can pad to), is a list of lines, one for each row and four for the header
  and the rules, followed by the line with the number of rows.  All lines but that last one have the same number
  of characters, given by the widths of the columns, also when names and values are not ASCII.\<close>

theorem formatTable_aligned:
  assumes "Columns (resSchema res) \<noteq> []" and "\<forall>w \<in> set (tableWidths res). w \<le> 1000000"
    and "\<forall>s \<in> set (map colName (Columns (resSchema res)) @ concat (tableCells res)). CHR 0x0A \<notin> set s"
  shows "\<exists>ls. formatTable res = concat (map (\<lambda>l. l @ nl) ls) @ ''('' @ rowsCount (length (resRows res)) @ '')'' @ nl \<and>
    length ls = length (resRows res) + 4 \<and>
    (\<forall>l \<in> set ls. CHR 0x0A \<notin> set l \<and> length (runesOf l) = 1 + sum_list (map (\<lambda>w. w + 3) (tableWidths res)))"
proof (intro exI conjI ballI)
  show "formatTable res = concat (map (\<lambda>l. l @ nl) (tableLines res)) @ ''('' @ rowsCount (length (resRows res)) @ '')'' @ nl"
    by (rule formatTable_lines [OF assms(1)])
  show "length (tableLines res) = length (resRows res) + 4" by (simp add: tableLines_def tableCells_def)
next
  fix l assume l: "l \<in> set (tableLines res)"
  have "CHR 0x0A \<notin> set (butlast (writeRow (tableWidths res) vals))" if "vals \<in> set (tableCells res)" for vals
    by (rule writeRow_no_nl [OF assms(2)]) (use assms(3) that in auto)
  moreover have "CHR 0x0A \<notin> set (butlast (writeRow (tableWidths res) (map colName (Columns (resSchema res)))))"
    by (rule writeRow_no_nl [OF assms(2)]) (use assms(3) in auto)
  ultimately show "CHR 0x0A \<notin> set l" using l sepLine_no_nl by (auto simp: tableLines_def)
  show "length (runesOf l) = 1 + sum_list (map (\<lambda>w. w + 3) (tableWidths res))"
  proof (cases "l = butlast (sepLine (tableWidths res))")
    case True
    then show ?thesis using runeCount_butlast [OF ends_nl(1)] by (simp add: runeCount_sepLine flip: runeCount_def)
  next
    case False
    with l obtain vals where vals: "vals = map colName (Columns (resSchema res)) \<or> vals \<in> set (tableCells res)"
      "l = butlast (writeRow (tableWidths res) vals)" by (auto simp: tableLines_def)
    have "\<forall>(w, s) \<in> set (zip (tableWidths res) vals). length s \<le> w \<and> w \<le> 1000000"
      using cells_fit(2) [OF vals(1)] assms(2) by (auto dest: set_zip_leftD)
    from runeCount_writeRow [OF cells_fit(1) [OF vals(1)] this] show ?thesis
      using vals(2) runeCount_butlast [OF ends_nl(2)] by (simp flip: runeCount_def)
  qed
qed

definition demoResult :: sqlResult where
  "demoResult = \<lparr>resSchema = \<lparr>Columns = [\<lparr>colName = ''n'', colType = TypeText\<rparr>]\<rparr>,
     resRows = [zeroRow\<lparr>Values := [NewText [CHR 0xC3, CHR 0xA9]]\<rparr>], RowsAffected = 0\<rparr>"

theorem formatTable_aligned_witness:
  "\<exists>ls. formatTable demoResult = concat (map (\<lambda>l. l @ nl) ls) @ ''(1 row)'' @ nl \<and> length ls = 5 \<and>
    (\<forall>l \<in> set ls. CHR 0x0A \<notin> set l \<and> length (runesOf l) = 6)"
proof -
  have "tableCells demoResult = [[[CHR 0xC3, CHR 0xA9]]]" "tableWidths demoResult = [2]"
    by (simp_all add: demoResult_def tableCells_def tableWidths_def tableCell_def NewText_def Value_String_def zeroRow_def)
  moreover have "Columns (resSchema demoResult) = [\<lparr>colName = ''n'', colType = TypeText\<rparr>]" "length (resRows demoResult) = 1"
    by (simp_all add: demoResult_def)
  ultimately show ?thesis using formatTable_aligned [of demoResult] by (simp add: rowsCount_def)
qed

end
