(* ===== verification/Reopen.thy ===== *)
theory Reopen
  imports StorageReads
begin

text \<open>
  Closing the storage engine and opening it again: what comes back, and what does not.
\<close>

section \<open>The catalog on disk\<close>

text \<open>The file \<^verbatim>\<open>catalog.json\<close> is up to date: it describes the tables of the catalog, or there is none yet.\<close>

definition catalog_saved :: "engine \<Rightarrow> bool" where
  "catalog_saved e \<longleftrightarrow> distinct (map fst (catalog e)) \<and> (\<forall>(t, meta) \<in> set (catalog e). tmName meta = t) \<and>
     (savedCatalog e = Some (Save (catalog e)) \<or> catalog e = [] \<and> savedCatalog e = None)"

text \<open>The table that \<^verbatim>\<open>Load\<close> makes of a saved item.\<close>

definition loaded :: "(string \<rightharpoonup> byte list) \<Rightarrow> nat list \<Rightarrow> diskMetadata \<Rightarrow> string \<times> tableMetadata" where
  "loaded files ord item =
     (dmName item, \<lparr>tmName = dmName item, tmSchema = dmSchema item,
        tmHeapFile = NewHeapFile (case files (dmName item) of None \<Rightarrow> [] | Some bs \<Rightarrow> bs) (NewBufferPool 100 ord),
        IndexRoots = dmIndexRoots item, tmStats = None\<rparr>)"

lemma update_fresh: "k \<notin> fst ` set c \<Longrightarrow> AList.update k v c = c @ [(k, v)]"
  by (induction c) auto

lemma Load_items_append:
  assumes "distinct (map fst c @ map dmName items)"
  shows "\<exists>ords'. length ords' = length items \<and> Load_items files ords items c = c @ map2 (loaded files) ords' items"
  using assms
proof (induction items arbitrary: ords c)
  case (Cons item items)
  let ?c = "c @ [loaded files (poolOrder ords) item]"
  have fresh: "dmName item \<notin> fst ` set c" using Cons.prems by auto
  have "distinct (map fst ?c @ map dmName items)" using Cons.prems by (auto simp: loaded_def)
  from Cons.IH [OF this, of "tl ords"] obtain ords' where
    "length ords' = length items" "Load_items files (tl ords) items ?c = ?c @ map2 (loaded files) ords' items" by blast
  then show ?case
    by (intro exI [of _ "poolOrder ords # ords'"]) (simp add: update_fresh [OF fresh] loaded_def)
qed simp

lemma Load_saved:
  assumes "distinct (map fst cat)" and "\<forall>(t, meta) \<in> set cat. tmName meta = t"
  obtains ords' where "length ords' = length cat" and "Load files ords (Some (Save cat)) NewCatalog = map2 (loaded files) ords' (Save cat)"
proof -
  have "map dmName (Save cat) = map fst cat" using assms(2) by (auto simp: Save_def)
  with assms(1) have "distinct (map fst NewCatalog @ map dmName (Save cat))" by (simp add: NewCatalog_def)
  from Load_items_append [OF this, of files ords] that show thesis by (auto simp: Load_def NewCatalog_def Save_def)
qed

text \<open>The loaded catalog, table by table.\<close>

lemma Load_lookup:
  fixes cat :: catalog and files :: "string \<rightharpoonup> byte list" and ords :: "nat list list"
  assumes "distinct (map fst cat)" and "\<forall>(t, meta) \<in> set cat. tmName meta = t"
  defines "cat' \<equiv> Load files ords (Some (Save cat)) NewCatalog"
  shows "map fst cat' = map fst cat" and "Save cat' = Save cat"
    and "map_of cat t = Some meta \<Longrightarrow> \<exists>ord. map_of cat' t = Some (snd (loaded files ord
      \<lparr>dmName = t, dmSchema = tmSchema meta, dmIndexRoots = IndexRoots meta\<rparr>))"
    and "\<forall>(t, meta) \<in> set cat'. tmName meta = t"
proof -
  obtain ords' where o: "length ords' = length cat" and c: "cat' = map2 (loaded files) ords' (Save cat)"
    unfolding cat'_def by (rule Load_saved [OF assms(1,2)])
  have len: "length (Save cat) = length cat" by (simp add: Save_def)
  have nth: "cat' ! i = loaded files (ords' ! i) (Save cat ! i)" "Save cat ! i =
      \<lparr>dmName = fst (cat ! i), dmSchema = tmSchema (snd (cat ! i)), dmIndexRoots = IndexRoots (snd (cat ! i))\<rparr>"
    if "i < length cat" for i
    using that o len assms(2) by (auto simp: c Save_def case_prod_unfold dest: nth_mem)
  have lc: "length cat' = length cat" using o len by (simp add: c)
  show fst: "map fst cat' = map fst cat" by (rule nth_equalityI) (use lc nth in \<open>simp_all add: loaded_def\<close>)
  show "Save cat' = Save cat"
    by (rule nth_equalityI) (use lc nth in \<open>simp_all add: Save_def case_prod_unfold loaded_def\<close>)
  show "\<forall>(t, meta) \<in> set cat'. tmName meta = t" using lc nth by (auto simp: in_set_conv_nth loaded_def) 
  assume "map_of cat t = Some meta"
  then have "(t, meta) \<in> set cat" by (rule map_of_SomeD)
  then obtain i where i: "i < length cat" "cat ! i = (t, meta)" by (auto simp: in_set_conv_nth)
  let ?item = "\<lparr>dmName = t, dmSchema = tmSchema meta, dmIndexRoots = IndexRoots meta\<rparr>"
  have "cat' ! i = loaded files (ords' ! i) ?item" using nth [OF i(1)] i(2) by simp
  then have "loaded files (ords' ! i) ?item \<in> set cat'" using nth_mem [of i cat'] lc i(1) by simp
  then have "(t, snd (loaded files (ords' ! i) ?item)) \<in> set cat'" by (simp add: loaded_def)
  with assms(1) fst have "map_of cat' t = Some (snd (loaded files (ords' ! i) ?item))" by (intro map_of_is_SomeI) simp_all
  then show "\<exists>ord. map_of cat' t = Some (snd (loaded files ord ?item))" ..
qed

section \<open>Closing and opening\<close>

lemma Close_ok:
  assumes "\<not> mu e"
  shows "Close e = (e\<lparr>catalog := map (\<lambda>(t, meta). (t, meta\<lparr>tmHeapFile := fst (FlushAll (tmHeapFile meta))\<rparr>)) (catalog e),
    indexFile := fst (FlushAll (indexFile e))\<rparr>, Inr ())"
  using assms by (simp add: Close_def withLock_def)

text \<open>The same table in two engines.\<close>

definition same_table :: "tableMetadata option \<Rightarrow> tableMetadata option \<Rightarrow> bool" where
  "same_table m m' \<longleftrightarrow> rel_option (\<lambda>m m'. tmSchema m' = tmSchema m \<and> IndexRoots m' = IndexRoots m \<and>
     rows_inv (tmHeapFile m') \<and> heap_entries (tmHeapFile m') = heap_entries (tmHeapFile m)) m m'"

lemma reopen_ok:
  assumes "engine_inv e" and "catalog_saved e" and "pool_inv (indexFile e)"
  obtains e' e'' where "Close e = (e', Inr ())" and "New ords (diskImage e') = Inr e''"
    and "\<And>t. same_table (tableOf e t) (tableOf e'' t)"
    and "pageAt (indexFile e'') = pageAt (indexFile e)" and "catalog_saved e''" and "\<not> mu e''"
    and "nextTx e'' = 0" and "activeTxns e'' = {}" and "committed e'' = {}" and "txnSnapshots e'' = Map.empty"
proof -
  note mu = assms(1) [unfolded engine_inv_def, THEN conjunct1]
  let ?close = "\<lambda>(t, meta). (t, meta\<lparr>tmHeapFile := fst (FlushAll (tmHeapFile meta))\<rparr>)"
  define e' where "e' = e\<lparr>catalog := map ?close (catalog e), indexFile := fst (FlushAll (indexFile e))\<rparr>"
  have close: "Close e = (e', Inr ())" using Close_ok [OF mu] by (simp add: e'_def)
  define files where "files = map_of (dbFiles (diskImage e'))"
  define cat where "cat = Load files (tl ords) (savedCatalog e) NewCatalog"
  obtain h where h: "FlushAll (indexFile e) = (h, Inr ())" "pool_inv h" "diskPage (fileBytes h) = pageAt (indexFile e)"
    by (rule FlushAll_ok [OF assms(3)])
  let ?ix = "NewHeapFile (fileBytes h) (NewBufferPool 100 (poolOrder ords))"
  let ?e = "\<lparr>mu = False, nextTx = 0, activeTxns = {}, committed = {}, txnSnapshots = Map.empty, catalog = cat, indexFile = ?ix,
      leftFiles = filter (\<lambda>(t, _). map_of cat t = None) (dbFiles (diskImage e')), savedCatalog = savedCatalog e,
      orders = drop (Suc (length cat)) ords\<rparr>"
  have new: "New ords (diskImage e') = Inr ?e"
    by (simp add: New_def Let_def cat_def files_def) (simp add: diskImage_def e'_def h(1))
  have ix: "pageAt ?ix = pageAt (indexFile e)" using reopened(2) [OF pool_invD(1) [OF h(2)]] h(3) by simp
  note saved = assms(2) [unfolded catalog_saved_def]
  have tables: "same_table (map_of (catalog e) t) (map_of cat t)" and keep: "catalog_saved ?e" for t
  proof -
    have "cat = [] \<and> catalog e = [] \<or> savedCatalog e = Some (Save (catalog e))"
      using saved by (auto simp: cat_def Load_def NewCatalog_def)
    then have both: "same_table (map_of (catalog e) t) (map_of cat t) \<and> catalog_saved ?e"
    proof
      assume c: "savedCatalog e = Some (Save (catalog e))"
      have cat: "cat = Load files (tl ords) (Some (Save (catalog e))) NewCatalog" by (simp add: cat_def c)
      note L = Load_lookup [where cat = "catalog e" and files = files and ords = "tl ords", folded cat]
      have d: "distinct (map fst (catalog e))" "\<forall>(t, meta) \<in> set (catalog e). tmName meta = t" using saved by simp_all
      have ks: "catalog_saved ?e" using saved L(1,2,4) [OF d] c d by (simp add: catalog_saved_def)
      have "same_table (map_of (catalog e) t) (map_of cat t)"
      proof (cases "map_of (catalog e) t")
        case None
        then have "map_of cat t = None" using L(1) [OF d] by (metis map_of_eq_None_iff set_map)
        with None show ?thesis by (simp add: same_table_def)
      next
        case (Some meta)
        then have r: "rows_inv (tmHeapFile meta)" using assms(1) by (simp add: engine_inv_def tableOf_def)
        have "map_of (map (\<lambda>(t, meta). (t, fileBytes (tmHeapFile meta))) (map ?close (catalog e))) t =
            Some (fileBytes (fst (FlushAll (tmHeapFile meta))))"
          using Some map_of_map [of "\<lambda>meta. fileBytes (fst (FlushAll (tmHeapFile meta)))" "catalog e"]
          by (simp add: comp_def case_prod_unfold)
        moreover have "catalog e' = map ?close (catalog e)" by (simp add: e'_def)
        ultimately have f: "files t = Some (fileBytes (fst (FlushAll (tmHeapFile meta))))"
          by (simp only: files_def diskImage_def dataDir.simps map_of_append map_add_def option.case)
        obtain hf' x where hf: "FlushAll (tmHeapFile meta) = (hf', x)" by force
        note R = FlushAll_reopen [OF _ hf, of 100]
        from L(3) [OF d Some] obtain ord where
          "map_of cat t = Some (snd (loaded files ord \<lparr>dmName = t, dmSchema = tmSchema meta, dmIndexRoots = IndexRoots meta\<rparr>))" by blast
        with Some f hf R [of ord] r show ?thesis by (simp add: same_table_def loaded_def rows_inv_def)
      qed
      with ks show ?thesis by blast
    next
      assume "cat = [] \<and> catalog e = []"
      with saved show ?thesis by (auto simp: same_table_def catalog_saved_def)
    qed
    then show "same_table (map_of (catalog e) t) (map_of cat t)" "catalog_saved ?e" by simp_all
  qed
  show thesis
    by (rule that [OF close new]) (use tables keep ix in \<open>simp_all add: tableOf_def\<close>)
qed

section \<open>Properties\<close>

text \<open>The engine with the demo table, closed in a state where \<^verbatim>\<open>catalog.json\<close> describes it.\<close>

definition demoSaved :: engine where
  "demoSaved = saveCatalog demoEngine1"

lemma demoSaved_ok: "engine_inv demoSaved" "catalog_saved demoSaved" "pool_inv (indexFile demoSaved)"
    "\<exists>meta. tableOf demoSaved ''t'' = Some meta \<and> versions (tmHeapFile meta) = [(demoRowID, newVersion 1 demoRow)]"
proof -
  from demoEngine1_ok obtain hf where hf: "demoEngine1 = setHeap ''t'' hf demoEngine" "rows_inv hf"
    "versions hf = [(demoRowID, newVersion 1 demoRow)]" "tableOf demoEngine1 ''t'' = Some (demoMeta\<lparr>tmHeapFile := hf\<rparr>)" by metis
  have t: "tableOf demoSaved = tableOf demoEngine1" by (simp add: demoSaved_def saveCatalog_def tableOf_def)
  show "engine_inv demoSaved" using demoEngine1_inv unfolding engine_inv_def t by (simp add: demoSaved_def saveCatalog_def)
  have c: "catalog demoEngine1 = [(''t'', demoMeta\<lparr>tmHeapFile := hf\<rparr>)]"
    by (simp add: hf(1) setHeap_def updTable_def demoEngine_def)
  show "catalog_saved demoSaved" by (simp add: catalog_saved_def demoSaved_def saveCatalog_def c demoMeta_def)
  show "pool_inv (indexFile demoSaved)"
    using heap_invD(1) [OF empty_heap(1)] by (simp add: demoSaved_def saveCatalog_def hf(1)) (simp add: demoEngine_def)
  show "\<exists>meta. tableOf demoSaved ''t'' = Some meta \<and> versions (tmHeapFile meta) = [(demoRowID, newVersion 1 demoRow)]"
    using hf(3,4) by (simp add: t)
qed

text \<open>C9: Closing and opening.  When \<^verbatim>\<open>catalog.json\<close> is up to date, closing the engine and opening its directory again
  gives an engine with the same tables: each has its schema, its index roots and its stored rows under their identifiers,
  and every page of the index file is as it was.\<close>

theorem Close_New_roundtrip:
  assumes "engine_inv e" and "catalog_saved e" and "pool_inv (indexFile e)"
  shows "\<exists>e' e''. Close e = (e', Inr ()) \<and> New ords (diskImage e') = Inr e'' \<and> engine_inv e'' \<and> catalog_saved e'' \<and>
    (\<forall>t. same_table (tableOf e t) (tableOf e'' t)) \<and> pageAt (indexFile e'') = pageAt (indexFile e)"
proof -
  obtain e' e'' where R: "Close e = (e', Inr ())" "New ords (diskImage e') = Inr e''" "\<And>t. same_table (tableOf e t) (tableOf e'' t)"
    "pageAt (indexFile e'') = pageAt (indexFile e)" "catalog_saved e''" "\<not> mu e''" by (rule reopen_ok [where ords = ords, OF assms], rule that)
  have "engine_inv e''" unfolding engine_inv_def
  proof (intro conjI allI impI)
    fix t meta assume "tableOf e'' t = Some meta"
    with R(3) [of t] show "rows_inv (tmHeapFile meta)" by (auto simp: same_table_def elim: option.rel_cases)
  qed (rule R(6))
  with R show ?thesis by blast
qed

theorem Close_New_roundtrip_witness:
  "\<exists>e' e'' meta. Close demoSaved = (e', Inr ()) \<and> New [] (diskImage e') = Inr e'' \<and> tableOf e'' ''t'' = Some meta \<and>
     versions (tmHeapFile meta) = [(demoRowID, newVersion 1 demoRow)]"
proof -
  from demoSaved_ok(4) obtain meta where m: "tableOf demoSaved ''t'' = Some meta"
    "versions (tmHeapFile meta) = [(demoRowID, newVersion 1 demoRow)]" by blast
  from Close_New_roundtrip [OF demoSaved_ok(1-3), of "[]"] obtain e' e'' where
    R: "Close demoSaved = (e', Inr ())" "New [] (diskImage e') = Inr e''" "same_table (tableOf demoSaved ''t'') (tableOf e'' ''t'')" by blast
  from R(3) m obtain meta'' where "tableOf e'' ''t'' = Some meta''" "versions (tmHeapFile meta'') = versions (tmHeapFile meta)"
    by (auto simp: same_table_def option_rel_Some1 versions_def)
  with R(1,2) m(2) show ?thesis by auto
qed

text \<open>C10: A restart loses the commits.  The set of committed transactions is not stored: the first transaction after a restart
  gets number 1 and sees, of all rows committed before, only those that the old transaction 1 created and did not delete.\<close>

theorem restart_forgets_commits:
  assumes "engine_inv e" and "catalog_saved e" and "pool_inv (indexFile e)" and "tableOf e t = Some meta"
  shows "\<exists>e' e'' e3. Close e = (e', Inr ()) \<and> New ords (diskImage e') = Inr e'' \<and> Begin e'' = (e3, Inr 1) \<and>
    tableView e3 1 t = filter (\<lambda>(_, r). Xmin r = 1 \<and> Xmax r \<noteq> 1) (versions (tmHeapFile meta))"
proof -
  obtain e' e'' where R: "Close e = (e', Inr ())" "New ords (diskImage e') = Inr e''" "\<And>t. same_table (tableOf e t) (tableOf e'' t)"
    "\<not> mu e''" "nextTx e'' = 0" "activeTxns e'' = {}" "committed e'' = {}" "txnSnapshots e'' = Map.empty"
    by (rule reopen_ok [where ords = ords, OF assms(1-3)], rule that)
  obtain e3 where b: "Begin e'' = (e3, Inr 1)" "tableOf e3 = tableOf e''" "committed_for e3 1 = {}"
    using R(4-8) by (auto simp: Begin_def withLock_def tableOf_def committed_for_def Let_def)
  from R(3) [of t] assms(4) obtain meta'' where "tableOf e'' t = Some meta''" "versions (tmHeapFile meta'') = versions (tmHeapFile meta)"
    by (auto simp: same_table_def option_rel_Some1 versions_def)
  with b have "tableView e3 1 t = filter (\<lambda>(_, r). Xmin r = 1 \<and> Xmax r \<noteq> 1) (versions (tmHeapFile meta))"
    by (auto simp: tableView_def snapshot_def visible_def intro!: filter_cong)
  with R(1,2) b(1) show ?thesis by blast
qed

theorem restart_forgets_commits_witness:
  "\<exists>e' e'' e3. Close demoSaved = (e', Inr ()) \<and> New [] (diskImage e') = Inr e'' \<and> Begin e'' = (e3, Inr 1) \<and>
    tableView e3 1 ''t'' = [(demoRowID, newVersion 1 demoRow)]"
proof -
  from demoSaved_ok(4) obtain meta where m: "tableOf demoSaved ''t'' = Some meta"
    "versions (tmHeapFile meta) = [(demoRowID, newVersion 1 demoRow)]" by blast
  from restart_forgets_commits [OF demoSaved_ok(1-3) m(1), of "[]"] show ?thesis
    by (simp add: m(2) newVersion_def)
qed

end
