(* ===== verification/Aura.thy ===== *)
theory Aura
  imports Repl MemstoreOps StorageReads
begin

text \<open>
  The program \<^verbatim>\<open>aura\<close> (\<^verbatim>\<open>main\<close> of \<^verbatim>\<open>src/cmd/aura/main.go\<close>): the choice of the engine, the shell on it, and what a run
  leaves behind.
\<close>

section \<open>A run of the program\<close>

text \<open>How a process ends: with an exit code, or by a panic or a deadlock that nobody handles.\<close>

datatype ending = Exits nat | Crashes go_error

record outcome =
  stdout :: string
  stderr :: string
  ending :: ending

text \<open>What \<^verbatim>\<open>main\<close> makes of the shell's return.\<close>

definition finish :: "string \<Rightarrow> 's repl \<times> unit res \<Rightarrow> outcome" where
  "finish header x =
     (case x of
        (r, Inr _) \<Rightarrow> \<lparr>stdout = header @ outp r, stderr = [], ending = Exits 0\<rparr>
      | (r, Inl err) \<Rightarrow>
          if abnormal err then \<lparr>stdout = header @ outp r, stderr = [], ending = Crashes err\<rparr>
          else \<lparr>stdout = header @ outp r, stderr = ''repl error: '' @ Error err @ nl, ending = Exits 1\<rparr>)"

text \<open>With \<^verbatim>\<open>-mem\<close>.\<close>

definition main_mem :: "(string \<Rightarrow> string + string) \<Rightarrow> unicode \<Rightarrow> nat \<Rightarrow> string list \<Rightarrow> go_error option \<Rightarrow> outcome" where
  "main_mem fs u n lines scanErr =
     finish (''Using in-memory engine (data will not be persisted)'' @ nl) (Run fs u n memOps lines scanErr (NewREPL mem_New))"

text \<open>The deferred \<^verbatim>\<open>e.Close()\<close> runs on return and on a panic; \<^verbatim>\<open>os.Exit\<close> and a deadlock skip it.\<close>

definition deferredClose :: "'a res \<Rightarrow> engine \<Rightarrow> engine" where
  "deferredClose x e =
     (case x of
        Inr _ \<Rightarrow> fst (Close e)
      | Inl (Panic _) \<Rightarrow> fst (Close e)
      | Inl _ \<Rightarrow> e)"

definition main_storage :: "(string \<Rightarrow> string + string) \<Rightarrow> unicode \<Rightarrow> nat \<Rightarrow> nat list list \<Rightarrow> string \<Rightarrow> dataDir \<Rightarrow> string list \<Rightarrow> go_error option \<Rightarrow>
    outcome \<times> dataDir" where
  "main_storage fs u n ords dir d lines scanErr =
     (case New ords d of
        Inl err \<Rightarrow>
          (if abnormal err then \<lparr>stdout = [], stderr = [], ending = Crashes err\<rparr>
           else \<lparr>stdout = [], stderr = ''failed to open storage at '' @ dir @ '': '' @ Error err @ nl, ending = Exits 1\<rparr>, d)
      | Inr e \<Rightarrow>
          let x = Run fs u n storageOps lines scanErr (NewREPL e) in
          (finish (''Using on-disk storage at '' @ dir @ nl) x, diskImage (deferredClose (snd x) (eng (session (fst x))))))"

end
