(* ===== verification/Spec2Isabelle.thy ===== *)
theory Spec2Isabelle
  imports MemstoreProps Grammar PlannerProps ReplProps Reopen Aura
begin

text \<open>
  AURA_SQL is a small relational database written in Go.  A text of SQL goes from the shell (\<^verbatim>\<open>src/cmd/aura\<close>)
  through the parser (\<^verbatim>\<open>src/parser\<close>) to a session (\<^verbatim>\<open>src/executor/session.go\<close>), which runs it in a transaction;
  the executor (\<^verbatim>\<open>src/executor\<close>) builds a tree of operators over the interface \<^verbatim>\<open>core.StorageEngine\<close>
  (\<^verbatim>\<open>src/core\<close>), which two engines implement: the paged engine (\<^verbatim>\<open>src/storage\<close>) with multi-version
  transactions and B+-tree indexes, and an in-memory engine (\<^verbatim>\<open>src/memstore\<close>).  A cost-based planner
  (\<^verbatim>\<open>src/executor/planner\<close>) stands beside the executor, which does not call it.

  \<^bold>\<open>The theories and the code.\<close>  Every theory defines the state of its component as records, one function per
  method, and proves the lemmas about them.

  \<^item> \<open>Prelude\<close>: results of Go calls (\<open>res\<close>, \<open>andThen\<close>, \<open>wrapped\<close>), byte slices, the little-endian codec, generic
    lemmas.  \<open>Core\<close> is \<^verbatim>\<open>core/core.go\<close>; \<open>Format\<close> has the texts of errors.
  \<^item> \<open>Page\<close> (\<^verbatim>\<open>storage/page.go\<close>): slotted pages and the row codec.  \<open>HeapFile\<close> (\<^verbatim>\<open>heapfile.go\<close>,
    \<^verbatim>\<open>bufferpool.go\<close>): a file of pages behind a buffer pool that evicts; the pages a client sees (\<open>pageAt\<close>) and the
    rows (\<open>heap_entries\<close>) do not depend on what is cached.
  \<^item> \<open>Mvcc\<close> (\<^verbatim>\<open>engine.go\<close>, transactions): Begin, commit, rollback, visibility and the conflict check as a step
    relation; visibility against histories of transactions.
  \<^item> \<open>BTree\<close> (\<^verbatim>\<open>btree.go\<close>, \<^verbatim>\<open>btree_insert.go\<close>): nodes on pages, descent, insertion with splits; the list of entries
    in key order is the abstraction.
  \<^item> \<open>Catalog\<close> (\<^verbatim>\<open>catalog.go\<close>), \<open>Engine\<close> (\<^verbatim>\<open>engine.go\<close> and the iterators of \<^verbatim>\<open>btree.go\<close>): all methods of the
    paged engine, with its mutex.  \<open>EngineScan\<close> and \<open>EngineWrite\<close>: reading and writing tables against the versions that
    a transaction sees.  \<open>Reopen\<close>: closing and opening.
  \<^item> \<open>Memstore\<close> (\<^verbatim>\<open>memstore.go\<close>): the in-memory engine, with an explicit store for the slices that rows share.
  \<^item> \<open>Eval\<close> (\<^verbatim>\<open>eval.go\<close>): expressions, three-valued logic, index conditions.  \<open>Executor\<close> (\<^verbatim>\<open>executor.go\<close>,
    \<^verbatim>\<open>operator.go\<close>, \<^verbatim>\<open>join.go\<close>): operators and statements over any engine.  \<open>Session\<close> (\<^verbatim>\<open>session.go\<close>).
  \<^item> \<open>Lexer\<close>, \<open>Parser\<close> (\<^verbatim>\<open>lexer.go\<close>, \<^verbatim>\<open>parser.go\<close>); \<open>TokenText\<close> and \<open>Grammar\<close>: printed statements and their round
    trip; \<open>ParserShape\<close>: what any text can parse to.
  \<^item> \<open>Float64\<close>: Go's floats; \<open>Planner\<close> (\<^verbatim>\<open>cost.go\<close>, \<^verbatim>\<open>stats.go\<close>, \<^verbatim>\<open>optimizer.go\<close>) and \<open>PlannerProps\<close>.
  \<^item> \<open>Repl\<close> (\<^verbatim>\<open>cmd/aura/main.go\<close>) and \<open>ReplProps\<close>: the shell; \<open>Aura\<close>: \<^verbatim>\<open>main\<close>, what a run prints and leaves on disk.

  \<^bold>\<open>Interfaces.\<close>  The contracts between components are locales, each interpreted on the model's own functions.
  \<^item> \<open>row_container\<close> (a page as a list of rows) is interpreted on pages (\<open>pg\<close>), \<open>page_store\<close> (a pool as a map of pages)
    on the buffer pool (\<open>bp\<close>), \<open>row_store\<close> (a map of rows) on heap files (\<open>hfs\<close>).
  \<^item> \<open>storage_reads\<close> in \<open>Plans\<close> is what a query needs of an engine: scans deliver a transaction's view of a table and
    change nothing it can see.  Inside it, every operator computes the list of rows and errors that \<open>opStream\<close> gives, and
    SELECT is \<open>selectRows\<close> of the views.  \<open>storage_writes\<close> in \<open>Statements\<close> extends it for INSERT, UPDATE and DELETE,
    \<open>storage_seeks\<close> in \<open>Seeks\<close> for indexes.  The interpretations are \<open>se\<close> and \<open>sw\<close> on the paged engine (\<open>StorageReads\<close>,
    \<open>StorageWrites\<close>), \<open>me\<close>, \<open>mw\<close> and \<open>ms\<close> on the in-memory engine (\<open>MemstoreOps\<close>, \<open>MemstoreProps\<close>).
  \<^item> \<open>engine_frame\<close> in \<open>Frame\<close> carries whatever all methods of an engine preserve through every statement;
    \<open>StorageFrame\<close> uses it for the transaction tables (\<open>sf\<close>).

  \<^bold>\<open>Conventions.\<close>  A stateful operation takes its state and returns the new state with a result, an error on the left
  or a value on the right.  Errors keep their format string and arguments.  Run-time panics, a second lock of a held
  mutex and a loop that never ends are error values of their own (\<open>abnormal\<close>).  Integers keep their width where Go's
  arithmetic could wrap around.  Go maps are association lists or partial functions; the order in which Go iterates over a
  map, where it matters, is an input (the pool's \<open>mapOrder\<close>, the engine's \<open>orders\<close>, the planner's list of tables).
  Strings are lists of bytes; what the package \<^verbatim>\<open>unicode\<close> knows of runes beyond ASCII is a parameter.

  \<^bold>\<open>Bounds and fuel.\<close>  Loops over a file run with fuel that is shown to be enough: the descent and the leaf chain of a
  B+-tree with the number of pages plus 2 (each page is visited once), a scan with 65536 slots per page left.  The
  operators of the executor run with a fuel parameter; their theorems say that all large enough amounts give the result
  (\<open>enough\<close>), so that the program's loop, which has no bound, ends with it.  The parser's loops end by the number of tokens
  left, the lexer's by its position, the shell's by the length of its input.  Theorems on heap files hold below
  \<open>2 ^ 48\<close> pages, those on indexes below \<open>2 ^ 31\<close> pages and for one level of inner nodes, beyond which the
  program reports an error.

  \<^bold>\<open>What the properties show.\<close>  Visibility is that of the history of transactions and stays stable; scans, inserts,
  updates and deletes refine operations on the versions that a transaction sees, on both engines; pages, heap files, the
  pool, the codecs, the tree and the catalog refine lists and maps and survive a restart, while the set of commits
  does not; queries compute joins, filter and projection of the views, on the paged engine without indexes, on the
  in-memory engine with any; its row identifiers are never given out twice; sessions leave no
  transaction behind; the parser inverts the grammar and never panics; the planner's plans are complete and its
  estimates bounded; the shell runs the statements of its input and answers each.  Where the code departs from its
  intention (lost updates, stamps that overwrite each other, updates in place, forgotten commits, conflicts not recognised) the property states what
  it does.

  \<^bold>\<open>Not modelled.\<close> The two demo programs, which only call the engine and print; the parsing of
  command-line flags; failures of the operating system; the JSON text of the catalog; concurrent calls in the midst of
  each other: every method of an engine is one step, also \<^verbatim>\<open>Insert\<close>, \<^verbatim>\<open>Update\<close> and \<^verbatim>\<open>Delete\<close> of the paged engine, which
  hold its mutex only for parts of their work, while iterators are modelled one step at a time;
  Go's choice to fuse multiplication and addition of floats on some machines; the texts of run-time
  panics.
\<close>

end
